(* ===== verification/Prelude.thy ===== *)
theory Prelude
  imports Main "HOL-Library.Word" "HOL-Library.AList"
begin

text \<open>
  Shared vocabulary of the development: the ways an operation of the program can fail to
  return, the result monad built on them, byte-array helpers for code that works with
  pointers and offsets, and C strings.
\<close>

subsection \<open>Abnormal outcomes\<close>

text \<open>
  \<open>HeapOverrun\<close> and \<open>HeapOverread\<close> are writes and reads past the end of an allocation
  (undefined behaviour), \<open>ExitFailure\<close> is \<open>exit(-1)\<close> of \<open>LOG_FATAL\<close>, \<open>BadFunctionCall\<close>
  the exception of an empty \<open>std::function\<close>, \<open>NullDeref\<close> the use of a null pointer,
  \<open>LengthError\<close> the exception of a string of impossible length, \<open>IndexOutOfRange\<close> an access to a
  Qt container outside its bounds (an assertion, or undefined behaviour without it).
\<close>

datatype fault = HeapOverrun | HeapOverread | ExitFailure | BadFunctionCall | NullDeref | LengthError
  | IndexOutOfRange

type_synonym 'a res = "fault + 'a"

definition bind_res :: "'a res \<Rightarrow> ('a \<Rightarrow> 'b res) \<Rightarrow> 'b res" where
  "bind_res m f = (case m of Inl e \<Rightarrow> Inl e | Inr x \<Rightarrow> f x)"

named_theorems res_simps \<open>rewriting of the result monad\<close>

lemma bind_res_simps [simp]:
  "bind_res (Inl e) f = Inl e"
  "bind_res (Inr x) f = f x"
  by (simp_all add: bind_res_def)

lemma bind_res_assoc [res_simps]: "bind_res (bind_res m f) g = bind_res m (\<lambda>x. bind_res (f x) g)"
  by (cases m) simp_all

lemma bind_res_Inr [res_simps]: "bind_res m f = Inr y \<longleftrightarrow> (\<exists>x. m = Inr x \<and> f x = Inr y)"
  by (cases m) simp_all

lemma bind_res_Inl [res_simps]:
  "bind_res m f = Inl e \<longleftrightarrow> m = Inl e \<or> (\<exists>x. m = Inr x \<and> f x = Inl e)"
  by (cases m) simp_all

lemma bind_res_cong [fundef_cong]:
  "m = m' \<Longrightarrow> (\<And>x. m' = Inr x \<Longrightarrow> f x = f' x) \<Longrightarrow> bind_res m f = bind_res m' f'"
  by (cases m') simp_all

text \<open>A range-based \<open>for\<close> whose body may fail: the first fault ends it.\<close>

fun foldR :: "('a \<Rightarrow> 's \<Rightarrow> 's res) \<Rightarrow> 'a list \<Rightarrow> 's \<Rightarrow> 's res" where
  "foldR f [] s = Inr s"
| "foldR f (x # xs) s = bind_res (f x s) (foldR f xs)"

lemma foldR_append [simp]: "foldR f (xs @ ys) s = bind_res (foldR f xs s) (foldR f ys)"
  by (induction xs arbitrary: s) (auto simp: bind_res_def split: sum.splits)

lemma foldR_append_fun: "foldR f (xs @ ys) = (\<lambda>s. bind_res (foldR f xs s) (foldR f ys))"
  by (rule ext) simp

lemma foldR_invariant:
  assumes "foldR f xs s = Inr s'" and "P s"
    and "\<And>x s s'. x \<in> set xs \<Longrightarrow> P s \<Longrightarrow> f x s = Inr s' \<Longrightarrow> P s'"
  shows "P s'"
  using assms
proof (induction xs arbitrary: s)
  case (Cons x xs)
  then obtain s1 where "f x s = Inr s1" and rest: "foldR f xs s1 = Inr s'"
    by (auto simp: bind_res_Inr)
  with Cons.prems have "P s1" by auto
  with rest Cons show ?case by auto
qed simp

subsection \<open>Byte arrays\<close>

text \<open>The bytes \<open>[i, j)\<close> of an array, and an array with \<open>ys\<close> copied in at offset \<open>i\<close>.\<close>

definition segment :: "nat \<Rightarrow> nat \<Rightarrow> 'a list \<Rightarrow> 'a list" where
  "segment i j xs = take (j - i) (drop i xs)"

definition write_at :: "nat \<Rightarrow> 'a list \<Rightarrow> 'a list \<Rightarrow> 'a list" where
  "write_at i ys xs = take i xs @ ys @ drop (i + length ys) xs"

text \<open>\<open>std::vector::resize\<close>: cut, or extended with value-initialised elements.\<close>

definition vec_resize :: "nat \<Rightarrow> 'a \<Rightarrow> 'a list \<Rightarrow> 'a list" where
  "vec_resize n z xs = take n xs @ replicate (n - length xs) z"

lemma length_segment [simp]: "length (segment i j xs) = min (j - i) (length xs - i)"
  by (simp add: segment_def)

lemma segment_same [simp]: "segment i i xs = []"
  by (simp add: segment_def)

lemma segment_split: "i \<le> j \<Longrightarrow> j \<le> k \<Longrightarrow> segment i k xs = segment i j xs @ segment j k xs"
proof -
  assume "i \<le> j" "j \<le> k"
  then have "k - i = (j - i) + (k - j)" and "j = (j - i) + i" by simp_all
  then show ?thesis
    by (metis segment_def take_add drop_drop)
qed

lemma take_segment: "i + n \<le> j \<Longrightarrow> take n (segment i j xs) = segment i (i + n) xs"
  by (simp add: segment_def min_absorb1)

lemma drop_segment: "i + n \<le> j \<Longrightarrow> drop n (segment i j xs) = segment (i + n) j xs"
  by (simp add: segment_def drop_take add.commute)

lemma length_write_at [simp]:
  "i + length ys \<le> length xs \<Longrightarrow> length (write_at i ys xs) = length xs"
  by (simp add: write_at_def)

lemma segment_write_at_below:
  "j \<le> i \<Longrightarrow> i + length ys \<le> length xs \<Longrightarrow> segment k j (write_at i ys xs) = segment k j xs"
  by (cases "k \<le> j") (simp_all add: segment_def write_at_def drop_take)

lemma segment_write_at_same:
  "i + length ys \<le> length xs \<Longrightarrow> segment i (i + length ys) (write_at i ys xs) = ys"
  by (simp add: segment_def write_at_def)

lemma segment_vec_resize:
  "j \<le> length xs \<Longrightarrow> j \<le> n \<Longrightarrow> segment i j (vec_resize n z xs) = segment i j xs"
  by (cases "i \<le> j") (simp_all add: segment_def vec_resize_def drop_take min_absorb1)

lemma length_vec_resize [simp]: "length (vec_resize n z xs) = n"
  by (simp add: vec_resize_def)

subsection \<open>C strings\<close>

text \<open>
  A C string ends at the first NUL: \<open>append(s.c_str())\<close>, and \<open>s.substr(0, s.find('\0'))\<close>,
  which is all of \<open>s\<close> when there is none.
\<close>

definition c_str :: "string \<Rightarrow> string" where
  "c_str s = takeWhile (\<lambda>x. x \<noteq> CHR 0x00) s"

lemma c_str_clean: "CHR 0x00 \<notin> set n \<Longrightarrow> c_str n = n"
  unfolding c_str_def by (induction n) auto

lemma c_str_no_nul: "CHR 0x00 \<notin> set (c_str s)"
  by (auto simp: c_str_def dest: set_takeWhileD)

lemma c_str_idem [simp]: "c_str (c_str s) = c_str s"
  by (rule c_str_clean [OF c_str_no_nul])

lemma c_str_cut: "CHR 0x00 \<notin> set xs \<Longrightarrow> c_str (xs @ CHR 0x00 # ys) = xs"
  unfolding c_str_def by (induction xs) auto

subsection \<open>Step relations\<close>

text \<open>The states a machine can reach from its initial ones.\<close>

inductive reach :: "('s \<Rightarrow> bool) \<Rightarrow> ('s \<Rightarrow> 's \<Rightarrow> bool) \<Rightarrow> 's \<Rightarrow> bool" for init step where
  reach_init: "init s \<Longrightarrow> reach init step s"
| reach_step: "reach init step s \<Longrightarrow> step s s' \<Longrightarrow> reach init step s'"

lemma reach_invariant:
  assumes "reach init step s" "\<And>s. init s \<Longrightarrow> P s" "\<And>s s'. step s s' \<Longrightarrow> P s \<Longrightarrow> P s'"
  shows "P s"
  using assms(1) by (induction rule: reach.induct) (auto intro: assms(2,3))

lemma reach_mono:
  assumes "reach init step s" "\<And>s s'. step s s' \<Longrightarrow> step' s s'"
  shows "reach init step' s"
  using assms(1) by (induction rule: reach.induct) (auto intro: reach.intros assms(2))

end
