(* ===== verification/Syscalls.thy ===== *)
theory Syscalls
  imports Prelude
begin

text \<open>
  The operating system as the program uses it. The system calls are not code of the
  repository: they are the parameter \<open>os\<close> of the definitions that make them, a record of
  functions on an abstract kernel state \<open>'k\<close>, each returning the call's result (an errno
  on the left of the sum) and the new kernel state. The laws some properties rely on are
  predicates on this record. The constants are those of the Linux headers.
\<close>

subsection \<open>Types and constants\<close>

type_synonym fd = int
type_synonym errno = int
type_synonym tid = int

definition EINTR :: errno where "EINTR = 4"
definition EWOULDBLOCK :: errno where "EWOULDBLOCK = 11"
definition EMFILE :: errno where "EMFILE = 24"
definition EPIPE :: errno where "EPIPE = 32"
definition ECONNRESET :: errno where "ECONNRESET = 104"

definition EPOLLIN :: "32 word" where "EPOLLIN = 1"
definition EPOLLPRI :: "32 word" where "EPOLLPRI = 2"
definition EPOLLOUT :: "32 word" where "EPOLLOUT = 4"
definition EPOLLERR :: "32 word" where "EPOLLERR = 8"
definition EPOLLHUP :: "32 word" where "EPOLLHUP = 16"

lemmas epoll_bits = EPOLLIN_def EPOLLPRI_def EPOLLOUT_def EPOLLERR_def EPOLLHUP_def

datatype ctl_op = EPOLL_CTL_ADD | EPOLL_CTL_MOD | EPOLL_CTL_DEL

datatype shut_how = SHUT_RD | SHUT_WR

datatype sockopt = TCP_NODELAY | SO_REUSEADDR | SO_REUSEPORT | SO_KEEPALIVE

text \<open>\<open>epoll_event\<close> with \<open>data.ptr\<close>, and the fields of \<open>sockaddr_in\<close> in network order.\<close>

record epoll_event =
  ev_events :: "32 word"
  ev_ptr :: nat

record sockaddr_in =
  sin_family :: nat
  sin_port :: "16 word"
  sin_addr :: "32 word"

subsection \<open>The calls\<close>

record 'k os =
  sys_epoll_create :: "'k \<Rightarrow> (errno + fd) \<times> 'k"
  sys_epoll_ctl :: "fd \<Rightarrow> ctl_op \<Rightarrow> fd \<Rightarrow> epoll_event \<Rightarrow> 'k \<Rightarrow> int \<times> 'k"
  sys_epoll_wait :: "fd \<Rightarrow> nat \<Rightarrow> int \<Rightarrow> 'k \<Rightarrow> (errno + epoll_event list) \<times> 'k"
  sys_eventfd :: "'k \<Rightarrow> (errno + fd) \<times> 'k"
  sys_readv :: "fd \<Rightarrow> nat list \<Rightarrow> 'k \<Rightarrow> (errno + string) \<times> 'k"
  sys_read :: "fd \<Rightarrow> nat \<Rightarrow> 'k \<Rightarrow> (errno + string) \<times> 'k"
  sys_write :: "fd \<Rightarrow> string \<Rightarrow> 'k \<Rightarrow> (errno + nat) \<times> 'k"
  sys_shutdown :: "fd \<Rightarrow> shut_how \<Rightarrow> 'k \<Rightarrow> int \<times> 'k"
  sys_setsockopt :: "fd \<Rightarrow> sockopt \<Rightarrow> int \<Rightarrow> 'k \<Rightarrow> int \<times> 'k"
  sys_so_error :: "fd \<Rightarrow> 'k \<Rightarrow> (errno + int) \<times> 'k"
  sys_socket :: "'k \<Rightarrow> (errno + fd) \<times> 'k"
  sys_bind :: "fd \<Rightarrow> sockaddr_in \<Rightarrow> 'k \<Rightarrow> int \<times> 'k"
  sys_listen :: "fd \<Rightarrow> nat \<Rightarrow> 'k \<Rightarrow> int \<times> 'k"
  sys_accept4 :: "fd \<Rightarrow> 'k \<Rightarrow> (errno + fd \<times> sockaddr_in) \<times> 'k"
  sys_getsockname :: "fd \<Rightarrow> 'k \<Rightarrow> (errno + sockaddr_in) \<times> 'k"
  sys_close :: "fd \<Rightarrow> 'k \<Rightarrow> 'k"
  sys_time :: "'k \<Rightarrow> int \<times> 'k"

subsection \<open>Documented behaviour\<close>

text \<open>
  \<open>readv(2)\<close> returns at most the bytes the vectors hold. \<open>wire k fd\<close> is the byte stream
  descriptor \<open>fd\<close> has accepted so far: \<open>write(2)\<close> extends it by the prefix whose length
  it returns, leaves it alone on an error, and touches no other descriptor; the calls that
  do not send leave every stream alone.
\<close>

definition readv_law :: "'k os \<Rightarrow> bool" where
  "readv_law os \<longleftrightarrow>
     (\<forall>fd lens k bs k'. sys_readv os fd lens k = (Inr bs, k') \<longrightarrow> length bs \<le> sum_list lens)"

definition write_law :: "'k os \<Rightarrow> ('k \<Rightarrow> fd \<Rightarrow> string) \<Rightarrow> bool" where
  "write_law os wire \<longleftrightarrow>
     (\<forall>fd d k. case sys_write os fd d k of
        (Inr n, k') \<Rightarrow> n \<le> length d \<and> wire k' = (wire k)(fd := wire k fd @ take n d)
      | (Inl e, k') \<Rightarrow> wire k' = wire k)"

definition quiet_law :: "'k os \<Rightarrow> ('k \<Rightarrow> 'v) \<Rightarrow> bool" where
  "quiet_law os view \<longleftrightarrow>
     (\<forall>fd h k. view (snd (sys_shutdown os fd h k)) = view k) \<and>
     (\<forall>fd lens k. view (snd (sys_readv os fd lens k)) = view k) \<and>
     (\<forall>fd n k. view (snd (sys_read os fd n k)) = view k) \<and>
     (\<forall>fd k. view (snd (sys_so_error os fd k)) = view k) \<and>
     (\<forall>fd opt v k. view (snd (sys_setsockopt os fd opt v k)) = view k) \<and>
     (\<forall>fd k. view (snd (sys_getsockname os fd k)) = view k)"

lemma write_lawD:
  assumes "write_law os wire"
  shows "sys_write os fd d k = (Inr n, k') \<Longrightarrow>
           n \<le> length d \<and> wire k' = (wire k)(fd := wire k fd @ take n d)"
    and "sys_write os fd d k = (Inl e, k') \<Longrightarrow> wire k' = wire k"
  using assms unfolding write_law_def by (metis (mono_tags, lifting) case_prod_conv sum.case)+

lemma quiet_lawD:
  assumes "quiet_law os view"
  shows "view (snd (sys_shutdown os fd h k)) = view k"
    "view (snd (sys_readv os fd lens k)) = view k"
    "view (snd (sys_read os fd n k)) = view k"
    "view (snd (sys_so_error os fd k)) = view k"
    "view (snd (sys_setsockopt os fd opt v k)) = view k"
    "view (snd (sys_getsockname os fd k)) = view k"
  using assms unfolding quiet_law_def by blast+

subsection \<open>The interest list of an epoll instance\<close>

text \<open>
  \<open>interest k ep\<close> maps the descriptors registered with the epoll instance \<open>ep\<close> to their
  events. As \<open>epoll_ctl(2)\<close> says, for valid descriptors and without memory pressure: \<open>ADD\<close>
  fails exactly on a registered descriptor (EEXIST), \<open>MOD\<close> and \<open>DEL\<close> exactly on one that is
  not (ENOENT), and a failing call changes nothing. The other calls the model makes do not
  touch interest lists.
\<close>

type_synonym 'k interest = "'k \<Rightarrow> fd \<Rightarrow> fd \<Rightarrow> epoll_event option"

definition ctl_effect :: "ctl_op \<Rightarrow> epoll_event \<Rightarrow> epoll_event option" where
  "ctl_effect op ev = (case op of EPOLL_CTL_DEL \<Rightarrow> None | _ \<Rightarrow> Some ev)"

definition ctl_legal :: "ctl_op \<Rightarrow> epoll_event option \<Rightarrow> bool" where
  "ctl_legal op cur \<longleftrightarrow> (case op of EPOLL_CTL_ADD \<Rightarrow> cur = None | _ \<Rightarrow> cur \<noteq> None)"

definition epoll_law :: "'k os \<Rightarrow> 'k interest \<Rightarrow> bool" where
  "epoll_law os interest \<longleftrightarrow>
     (\<forall>ep op fd ev k.
        if ctl_legal op (interest k ep fd)
        then fst (sys_epoll_ctl os ep op fd ev k) = 0 \<and>
             interest (snd (sys_epoll_ctl os ep op fd ev k)) =
               (interest k)(ep := (interest k ep)(fd := ctl_effect op ev))
        else fst (sys_epoll_ctl os ep op fd ev k) \<noteq> 0 \<and>
             interest (snd (sys_epoll_ctl os ep op fd ev k)) = interest k)"

lemma epoll_law_legal:
  assumes "epoll_law os interest" "ctl_legal op (interest k ep fd)"
  obtains k' where "sys_epoll_ctl os ep op fd ev k = (0, k')"
    and "interest k' = (interest k)(ep := (interest k ep)(fd := ctl_effect op ev))"
  using assms unfolding epoll_law_def by (metis prod.collapse)

text \<open>All of it: what one view sees of the calls that serve another.\<close>

definition kernel_laws :: "'k os \<Rightarrow> ('k \<Rightarrow> fd \<Rightarrow> string) \<Rightarrow> 'k interest \<Rightarrow> bool" where
  "kernel_laws os wire interest \<longleftrightarrow>
     readv_law os \<and> write_law os wire \<and> epoll_law os interest \<and>
     quiet_law os wire \<and> quiet_law os interest \<and>
     (\<forall>ep op fd ev k. wire (snd (sys_epoll_ctl os ep op fd ev k)) = wire k) \<and>
     (\<forall>fd d k. interest (snd (sys_write os fd d k)) = interest k)"

lemma kernel_lawsD:
  assumes "kernel_laws os wire interest"
  shows "readv_law os" "write_law os wire" "epoll_law os interest"
    "quiet_law os wire" "quiet_law os interest"
    "wire (snd (sys_epoll_ctl os ep op fd ev k)) = wire k"
    "interest (snd (sys_write os fd d k)) = interest k"
  using assms unfolding kernel_laws_def by blast+

lemma write_other:
  assumes "kernel_laws os wire interest" "fd' \<noteq> fd"
  shows "wire (snd (sys_write os fd d k)) fd' = wire k fd'"
proof (cases "sys_write os fd d k")
  case (Pair r k')
  with write_lawD [OF kernel_lawsD(2) [OF assms(1)]] assms(2) show ?thesis
    by (cases r) fastforce+
qed

end
