(* ===== verification/Callbacks.thy ===== *)
theory Callbacks
  imports Syscalls
begin

text \<open>
  Object identities and the values of the program's \<open>std::function\<close> fields
  (\<open>server/include/callback.h\<close> and the \<open>std::bind\<close> expressions of the sources). A function
  object is represented by a constructor that names the bound method and its arguments; the
  component that owns the method gives the constructor its meaning. An empty function
  object is \<open>None\<close>.
\<close>

subsection \<open>Pointers\<close>

type_synonym loop = nat      \<comment> \<open>\<open>EventLoop *\<close>\<close>
type_synonym chan = nat      \<comment> \<open>\<open>Channel *\<close>\<close>
type_synonym conn = nat      \<comment> \<open>\<open>TcpConnectionPtr\<close>\<close>
type_synonym timestamp = int

subsection \<open>Function objects\<close>

text \<open>
  \<open>ConnectionCallback\<close>, \<open>CloseCallback\<close> and \<open>WriteCompleteCallback\<close> are the same C++ type.
  The program never sets a \<open>HighWaterMarkCallback\<close>; \<open>UserHwmFn\<close> stands for one an
  application might install.
\<close>

datatype conn_fn = FnOnConnection | FnRemoveConnection

datatype msg_fn = FnReadCb

datatype hwm_fn = UserHwmFn nat

datatype accept_fn = FnNewConnection

text \<open>What a \<open>Channel\<close>'s callbacks are bound to.\<close>

datatype chan_cb =
    LoopHandleRead loop
  | AcceptorHandleRead
  | ConnHandleRead conn
  | ConnHandleWrite conn
  | ConnHandleClose conn
  | ConnHandleError conn

text \<open>What \<open>EventLoop::RunInLoop\<close> and \<open>QueueInLoop\<close> are given.\<close>

datatype task =
    BindSendInLoop conn string
  | BindShutdownInLoop conn
  | BindConnectionEstablished conn
  | BindConnectDestroyed conn
  | BindConnectDestroyedRaw conn     \<comment> \<open>with \<open>conn.get()\<close>, in the server's destructor\<close>
  | BindRemoveConnectionInLoop conn
  | BindConnFn conn_fn conn
  | BindHighWaterMark "hwm_fn option" conn nat
  | BindListen

end
