(* ===== verification/Channel.thy ===== *)
theory Channel
  imports Callbacks
begin

unbundle bit_operations_syntax

text \<open>
  \<open>server/include/channel.h\<close> and \<open>server/src/channel.cpp\<close>: the events a descriptor is
  watched for, the events the last poll reported, and the dispatch of the latter to the
  owner's callbacks. The methods that end in \<open>Update()\<close> are in theory \<open>Poller\<close>; here are
  their effects on the object itself.
\<close>

subsection \<open>State\<close>

record channel =
  ch_loop :: loop
  ch_fd :: fd
  ch_events :: "32 word"
  ch_revents :: "32 word"
  ch_index :: int
  ch_tie :: "conn option"
  ch_tied :: bool
  ch_read_cb :: "chan_cb option"
  ch_write_cb :: "chan_cb option"
  ch_close_cb :: "chan_cb option"
  ch_error_cb :: "chan_cb option"

definition kNoneEvent :: "32 word" where "kNoneEvent = 0"
definition kReadEvent :: "32 word" where "kReadEvent = EPOLLIN OR EPOLLPRI"
definition kWriteEvent :: "32 word" where "kWriteEvent = EPOLLOUT"

lemmas channel_events = kNoneEvent_def kReadEvent_def kWriteEvent_def epoll_bits

definition Channel :: "loop \<Rightarrow> fd \<Rightarrow> channel" where
  "Channel l fd =
     \<lparr>ch_loop = l, ch_fd = fd, ch_events = 0, ch_revents = 0, ch_index = -1,
      ch_tie = None, ch_tied = False,
      ch_read_cb = None, ch_write_cb = None, ch_close_cb = None, ch_error_cb = None\<rparr>"

subsection \<open>Operations on the object\<close>

definition Tie :: "conn \<Rightarrow> channel \<Rightarrow> channel" where
  "Tie c ch = ch\<lparr>ch_tie := Some c, ch_tied := True\<rparr>"

definition SetReadCallBack :: "chan_cb \<Rightarrow> channel \<Rightarrow> channel" where
  [simp]: "SetReadCallBack cb ch = ch\<lparr>ch_read_cb := Some cb\<rparr>"

definition SetWriteCallBack :: "chan_cb \<Rightarrow> channel \<Rightarrow> channel" where
  [simp]: "SetWriteCallBack cb ch = ch\<lparr>ch_write_cb := Some cb\<rparr>"

definition SetCloseCallBack :: "chan_cb \<Rightarrow> channel \<Rightarrow> channel" where
  [simp]: "SetCloseCallBack cb ch = ch\<lparr>ch_close_cb := Some cb\<rparr>"

definition SetErrorCallBack :: "chan_cb \<Rightarrow> channel \<Rightarrow> channel" where
  [simp]: "SetErrorCallBack cb ch = ch\<lparr>ch_error_cb := Some cb\<rparr>"

definition set_index :: "int \<Rightarrow> channel \<Rightarrow> channel" where
  [simp]: "set_index idx ch = ch\<lparr>ch_index := idx\<rparr>"

definition set_revents :: "32 word \<Rightarrow> channel \<Rightarrow> channel" where
  "set_revents rv ch = ch\<lparr>ch_revents := rv\<rparr>"

definition add_read :: "channel \<Rightarrow> channel" where
  "add_read ch = ch\<lparr>ch_events := ch_events ch OR kReadEvent\<rparr>"

definition del_read :: "channel \<Rightarrow> channel" where
  "del_read ch = ch\<lparr>ch_events := ch_events ch AND NOT kReadEvent\<rparr>"

definition add_write :: "channel \<Rightarrow> channel" where
  "add_write ch = ch\<lparr>ch_events := ch_events ch OR kWriteEvent\<rparr>"

definition del_write :: "channel \<Rightarrow> channel" where
  "del_write ch = ch\<lparr>ch_events := ch_events ch AND NOT kWriteEvent\<rparr>"

definition del_all :: "channel \<Rightarrow> channel" where
  "del_all ch = ch\<lparr>ch_events := kNoneEvent\<rparr>"

definition IsNoneEvent :: "channel \<Rightarrow> bool" where
  "IsNoneEvent ch \<longleftrightarrow> ch_events ch = kNoneEvent"

definition IsWriting :: "channel \<Rightarrow> bool" where
  "IsWriting ch \<longleftrightarrow> ch_events ch AND kWriteEvent \<noteq> 0"

definition IsReading :: "channel \<Rightarrow> bool" where
  "IsReading ch \<longleftrightarrow> ch_events ch AND kReadEvent \<noteq> 0"

subsection \<open>Dispatch\<close>

text \<open>\<open>if (cb) cb();\<close>\<close>

definition call_if_set ::
  "(chan_cb \<Rightarrow> timestamp \<Rightarrow> 's \<Rightarrow> 's res) \<Rightarrow> chan_cb option \<Rightarrow> timestamp \<Rightarrow> 's \<Rightarrow> 's res" where
  "call_if_set call cb t s = (case cb of None \<Rightarrow> Inr s | Some f \<Rightarrow> call f t s)"

definition HandleEventWithGuard ::
  "(chan_cb \<Rightarrow> timestamp \<Rightarrow> 's \<Rightarrow> 's res) \<Rightarrow> channel \<Rightarrow> timestamp \<Rightarrow> 's \<Rightarrow> 's res" where
  "HandleEventWithGuard call ch t s =
     (let rv = ch_revents ch in
      bind_res (if rv AND EPOLLHUP \<noteq> 0 \<and> rv AND EPOLLIN = 0
                then call_if_set call (ch_close_cb ch) t s else Inr s) (\<lambda>s.
      bind_res (if rv AND EPOLLERR \<noteq> 0
                then call_if_set call (ch_error_cb ch) t s else Inr s) (\<lambda>s.
      bind_res (if rv AND (EPOLLIN OR EPOLLPRI) \<noteq> 0
                then call_if_set call (ch_read_cb ch) t s else Inr s) (\<lambda>s.
      if rv AND EPOLLOUT \<noteq> 0
      then call_if_set call (ch_write_cb ch) t s else Inr s))))"

text \<open>\<open>tie_.lock()\<close> succeeds when the tied object is still alive (\<open>alive\<close>).\<close>

definition HandleEvent ::
  "(conn \<Rightarrow> 's \<Rightarrow> bool) \<Rightarrow> (chan_cb \<Rightarrow> timestamp \<Rightarrow> 's \<Rightarrow> 's res) \<Rightarrow>
   channel \<Rightarrow> timestamp \<Rightarrow> 's \<Rightarrow> 's res" where
  "HandleEvent alive call ch t s =
     (if ch_tied ch
      then case ch_tie ch of
             None \<Rightarrow> Inr s
           | Some c \<Rightarrow> if alive c s then HandleEventWithGuard call ch t s else Inr s
      else HandleEventWithGuard call ch t s)"

subsection \<open>Event masks\<close>

lemma mask_read_write: "kReadEvent AND kWriteEvent = 0"
  by (simp add: channel_events)

lemma events_simps [simp]:
  "ch_events (add_read ch) = ch_events ch OR kReadEvent"
  "ch_events (del_read ch) = ch_events ch AND NOT kReadEvent"
  "ch_events (add_write ch) = ch_events ch OR kWriteEvent"
  "ch_events (del_write ch) = ch_events ch AND NOT kWriteEvent"
  "ch_events (del_all ch) = kNoneEvent"
  by (simp_all add: add_read_def del_read_def add_write_def del_write_def del_all_def)

lemma channel_frame [simp]:
  "ch_index (add_read ch) = ch_index ch" "ch_fd (add_read ch) = ch_fd ch"
  "ch_loop (add_read ch) = ch_loop ch"
  "ch_index (del_read ch) = ch_index ch" "ch_fd (del_read ch) = ch_fd ch"
  "ch_loop (del_read ch) = ch_loop ch"
  "ch_index (add_write ch) = ch_index ch" "ch_fd (add_write ch) = ch_fd ch"
  "ch_loop (add_write ch) = ch_loop ch"
  "ch_index (del_write ch) = ch_index ch" "ch_fd (del_write ch) = ch_fd ch"
  "ch_loop (del_write ch) = ch_loop ch"
  "ch_index (del_all ch) = ch_index ch" "ch_fd (del_all ch) = ch_fd ch"
  "ch_loop (del_all ch) = ch_loop ch"
  "ch_index (set_revents r ch) = ch_index ch" "ch_fd (set_revents r ch) = ch_fd ch"
  "ch_loop (set_revents r ch) = ch_loop ch" "ch_events (set_revents r ch) = ch_events ch"
  "ch_index (Tie c ch) = ch_index ch" "ch_fd (Tie c ch) = ch_fd ch"
  "ch_loop (Tie c ch) = ch_loop ch" "ch_events (Tie c ch) = ch_events ch"
  by (simp_all add: add_read_def del_read_def add_write_def del_write_def del_all_def
      set_revents_def Tie_def)

text \<open>
  The write flag is bit 2 (\<open>EPOLLOUT\<close>), the read flags are bits 0 and 1: no operation on one
  side reads or changes the other.
\<close>

lemma and_4_bit: "(x :: 32 word) AND 4 = 0 \<longleftrightarrow> \<not> bit x 2"
  using and_exp_eq_0_iff_not_bit [of x 2] by simp

lemma bit_3_2 [simp]: "\<not> bit (3 :: 32 word) 2" and bit_4_2 [simp]: "bit (4 :: 32 word) 2"
  by (simp_all add: bit_numeral_word_iff)

lemma IsWriting_bit: "IsWriting ch \<longleftrightarrow> bit (ch_events ch) 2"
  by (simp add: IsWriting_def channel_events and_4_bit)

lemma IsWriting_simps [simp]:
  "IsWriting (add_write ch)" "\<not> IsWriting (del_write ch)" "\<not> IsWriting (del_all ch)"
  "IsWriting (add_read ch) = IsWriting ch" "IsWriting (del_read ch) = IsWriting ch"
  "IsWriting (set_revents r ch) = IsWriting ch" "IsWriting (Tie c ch) = IsWriting ch"
  "IsWriting (ch\<lparr>ch_index := i\<rparr>) = IsWriting ch"
  by (simp_all add: IsWriting_bit channel_events bit_simps)

lemma IsNoneEvent_del_all [simp]: "IsNoneEvent (del_all ch)"
  by (simp add: IsNoneEvent_def)

lemma add_write_not_none [simp]: "\<not> IsNoneEvent (add_write ch)"
proof
  assume "IsNoneEvent (add_write ch)"
  then have "\<not> IsWriting (add_write ch)" by (simp add: IsNoneEvent_def IsWriting_def kNoneEvent_def)
  then show False by simp
qed

subsection \<open>The callbacks of one event, as a list\<close>

definition fired :: "bool \<Rightarrow> chan_cb option \<Rightarrow> chan_cb list" where
  "fired b cb = (if b then (case cb of None \<Rightarrow> [] | Some f \<Rightarrow> [f]) else [])"

definition dispatched :: "channel \<Rightarrow> chan_cb list" where
  "dispatched ch =
     (let rv = ch_revents ch
      in fired (rv AND EPOLLHUP \<noteq> 0 \<and> rv AND EPOLLIN = 0) (ch_close_cb ch)
         @ fired (rv AND EPOLLERR \<noteq> 0) (ch_error_cb ch)
         @ fired (rv AND (EPOLLIN OR EPOLLPRI) \<noteq> 0) (ch_read_cb ch)
         @ fired (rv AND EPOLLOUT \<noteq> 0) (ch_write_cb ch))"

lemma bind_res_right [simp]: "bind_res m Inr = m"
  by (cases m) simp_all

lemma foldR_single: "foldR f [x] = f x"
proof
  fix s
  have "foldR f [] = Inr" by (rule ext) simp
  then show "foldR f [x] s = f x s" by simp
qed

lemma call_if_set_fired:
  "(if b then call_if_set call cb t s else Inr s) = foldR (\<lambda>f. call f t) (fired b cb) s"
  by (auto simp: call_if_set_def fired_def foldR_single split: option.split)

lemma HandleEventWithGuard_dispatched:
  "HandleEventWithGuard call ch t s = foldR (\<lambda>f. call f t) (dispatched ch) s"
  by (simp add: HandleEventWithGuard_def dispatched_def Let_def call_if_set_fired
      foldR_append_fun del: foldR_append)

lemma fired_SomeD: "f \<in> set (fired b cb) \<Longrightarrow> cb = Some f"
  by (cases b; cases cb) (simp_all add: fired_def)

lemma dispatched_SomeD:
  "f \<in> set (dispatched ch) \<Longrightarrow>
     Some f \<in> {ch_close_cb ch, ch_error_cb ch, ch_read_cb ch, ch_write_cb ch}"
  by (auto simp: dispatched_def Let_def dest!: fired_SomeD)

end
