(* ===== verification/Registry.thy ===== *)
theory Registry
  imports Prelude
begin

text \<open>
  The interface between the owners of channels and the poller: every operation a channel
  offers succeeds on a consistent registration state, leaves it consistent, and acts on that
  channel alone as its own small state machine says. The clients' laws follow once and for
  all: no history of operations ends the process, and every channel ends where its own part of
  the history leads it.
\<close>

locale registry =
  fixes members :: "'c set"
    and ok :: "'s \<Rightarrow> bool"
    and oper :: "'o \<Rightarrow> 'c \<Rightarrow> 's \<Rightarrow> 's res"
    and view :: "'s \<Rightarrow> 'c \<Rightarrow> 'v"
    and machine :: "'o \<Rightarrow> 'v \<Rightarrow> 'v"
  assumes oper_ok: "c \<in> members \<Longrightarrow> ok s \<Longrightarrow>
    \<exists>s'. oper p c s = Inr s' \<and> ok s' \<and> view s' = (view s)(c := machine p (view s c))"

fun run_registry :: "('o \<Rightarrow> 'c \<Rightarrow> 's \<Rightarrow> 's res) \<Rightarrow> ('o \<times> 'c) list \<Rightarrow> 's \<Rightarrow> 's res" where
  "run_registry oper [] s = Inr s"
| "run_registry oper ((p, c) # ops) s = bind_res (oper p c s) (run_registry oper ops)"

text \<open>The operations of a history on one member.\<close>

fun ops_on :: "'c \<Rightarrow> ('o \<times> 'c) list \<Rightarrow> 'o list" where
  "ops_on c [] = []"
| "ops_on c ((p, d) # ops) = (if d = c then p # ops_on c ops else ops_on c ops)"

context registry
begin

lemma run_refines:
  "ok s \<Longrightarrow> snd ` set ops \<subseteq> members \<Longrightarrow>
     \<exists>s'. run_registry oper ops s = Inr s' \<and> ok s' \<and>
          view s' = (\<lambda>c. fold machine (ops_on c ops) (view s c))"
proof (induction ops arbitrary: s)
  case (Cons op ops)
  obtain p c where op: "op = (p, c)" by fastforce
  with Cons.prems obtain s1 where s1: "oper p c s = Inr s1" "ok s1"
    "view s1 = (view s)(c := machine p (view s c))"
    using oper_ok [of c s p] by auto
  with Cons.IH [of s1] Cons.prems(2) op show ?case by (auto intro!: ext)
qed simp

end

end
