(* ===== verification/Poller.thy ===== *)
theory Poller
  imports Channel Registry
begin

text \<open>
  \<open>server/include/poller.h\<close>, \<open>server/src/poller.cpp\<close>, \<open>server/include/epollpoller.h\<close> and
  \<open>server/src/epollpoller.cpp\<close>: the poller of each loop, with the channel operations that
  reach it through \<open>EventLoop::UpdateChannel\<close> and \<open>EventLoop::RemoveChannel\<close>. Channels are
  objects of a store indexed by their address; log lines other than \<open>LOG_FATAL\<close> are left
  out.
\<close>

subsection \<open>State\<close>

definition kNew :: int where "kNew = -1"
definition kAdded :: int where "kAdded = 1"
definition kDeleted :: int where "kDeleted = 2"

lemmas channel_index = kNew_def kAdded_def kDeleted_def

definition kInitEventListSize :: nat where "kInitEventListSize = 16"

record poller =
  epoll_fd :: fd
  p_channels :: "fd \<Rightarrow> chan option"
  events_size :: nat

record 'k pstate =
  kern :: 'k
  chans :: "chan \<Rightarrow> channel"
  pollers :: "loop \<Rightarrow> poller"

definition upd_chan :: "chan \<Rightarrow> (channel \<Rightarrow> channel) \<Rightarrow> ('k, 'z) pstate_scheme \<Rightarrow> ('k, 'z) pstate_scheme" where
  "upd_chan c f s = s\<lparr>chans := (chans s)(c := f (chans s c))\<rparr>"

definition upd_poller :: "loop \<Rightarrow> (poller \<Rightarrow> poller) \<Rightarrow> ('k, 'z) pstate_scheme \<Rightarrow> ('k, 'z) pstate_scheme" where
  "upd_poller l f s = s\<lparr>pollers := (pollers s)(l := f (pollers s l))\<rparr>"

lemma upd_simps [simp]:
  "kern (upd_chan c f s) = kern s" "pollers (upd_chan c f s) = pollers s"
  "chans (upd_chan c f s) = (chans s)(c := f (chans s c))"
  "kern (upd_poller l g s) = kern s" "chans (upd_poller l g s) = chans s"
  "pollers (upd_poller l g s) = (pollers s)(l := g (pollers s l))"
  "pstate.more (upd_chan c f s) = pstate.more s"
  "pstate.more (upd_poller l g s) = pstate.more s"
  by (simp_all add: upd_chan_def upd_poller_def)

subsection \<open>Construction\<close>

definition EpollPoller :: "'k os \<Rightarrow> loop \<Rightarrow> ('k, 'z) pstate_scheme \<Rightarrow> ('k, 'z) pstate_scheme res" where
  "EpollPoller os l s =
     (case sys_epoll_create os (kern s) of
        (Inl e, k') \<Rightarrow> Inl ExitFailure
      | (Inr fd, k') \<Rightarrow>
          Inr (upd_poller l (\<lambda>_. \<lparr>epoll_fd = fd, p_channels = Map.empty,
                                  events_size = kInitEventListSize\<rparr>) (s\<lparr>kern := k'\<rparr>)))"

text \<open>
  With \<open>MUDUO_USE_POLL\<close> in the environment \<open>NewDefaultePoller\<close> returns a null pointer, which
  the loop's constructor dereferences when it registers its wakeup channel.
\<close>

definition NewDefaultePoller ::
  "bool \<Rightarrow> 'k os \<Rightarrow> loop \<Rightarrow> ('k, 'z) pstate_scheme \<Rightarrow> (bool \<times> ('k, 'z) pstate_scheme) res" where
  "NewDefaultePoller use_poll os l s =
     (if use_poll then Inr (False, s)
      else bind_res (EpollPoller os l s) (\<lambda>s. Inr (True, s)))"

subsection \<open>Registration\<close>

definition HasChannel :: "loop \<Rightarrow> chan \<Rightarrow> ('k, 'z) pstate_scheme \<Rightarrow> bool" where
  "HasChannel l c s \<longleftrightarrow> p_channels (pollers s l) (ch_fd (chans s c)) = Some c"

definition Update ::
  "'k os \<Rightarrow> loop \<Rightarrow> ctl_op \<Rightarrow> chan \<Rightarrow> ('k, 'z) pstate_scheme \<Rightarrow> ('k, 'z) pstate_scheme res" where
  "Update os l operation c s =
     (let fd = ch_fd (chans s c);
          event = \<lparr>ev_events = ch_events (chans s c), ev_ptr = c\<rparr>;
          (r, k') = sys_epoll_ctl os (epoll_fd (pollers s l)) operation fd event (kern s)
      in if r \<noteq> 0
         then if operation = EPOLL_CTL_DEL then Inr (s\<lparr>kern := k'\<rparr>) else Inl ExitFailure
         else Inr (s\<lparr>kern := k'\<rparr>))"

definition UpdateChannel ::
  "'k os \<Rightarrow> loop \<Rightarrow> chan \<Rightarrow> ('k, 'z) pstate_scheme \<Rightarrow> ('k, 'z) pstate_scheme res" where
  "UpdateChannel os l c s =
     (let index = ch_index (chans s c); fd = ch_fd (chans s c) in
      if index = kNew \<or> index = kDeleted then
        let s1 = (if index = kNew
                  then upd_poller l (\<lambda>p. p\<lparr>p_channels := (p_channels p)(fd \<mapsto> c)\<rparr>) s else s)
        in Update os l EPOLL_CTL_ADD c (upd_chan c (set_index kAdded) s1)
      else if IsNoneEvent (chans s c) then
        bind_res (Update os l EPOLL_CTL_DEL c s)
          (\<lambda>s1. Inr (upd_chan c (set_index kDeleted) s1))
      else Update os l EPOLL_CTL_MOD c s)"

definition RemoveChannel ::
  "'k os \<Rightarrow> loop \<Rightarrow> chan \<Rightarrow> ('k, 'z) pstate_scheme \<Rightarrow> ('k, 'z) pstate_scheme res" where
  "RemoveChannel os l c s =
     (let fd = ch_fd (chans s c);
          s1 = upd_poller l (\<lambda>p. p\<lparr>p_channels := (p_channels p)(fd := None)\<rparr>) s;
          index = ch_index (chans s c)
      in bind_res (if index = kAdded then Update os l EPOLL_CTL_DEL c s1 else Inr s1)
           (\<lambda>s2. Inr (upd_chan c (set_index kNew) s2)))"

subsection \<open>Channel methods that go through the loop\<close>

definition Channel_Update :: "'k os \<Rightarrow> chan \<Rightarrow> ('k, 'z) pstate_scheme \<Rightarrow> ('k, 'z) pstate_scheme res" where
  "Channel_Update os c s = UpdateChannel os (ch_loop (chans s c)) c s"

definition Channel_Remove :: "'k os \<Rightarrow> chan \<Rightarrow> ('k, 'z) pstate_scheme \<Rightarrow> ('k, 'z) pstate_scheme res" where
  "Channel_Remove os c s = RemoveChannel os (ch_loop (chans s c)) c s"

definition EnableReading :: "'k os \<Rightarrow> chan \<Rightarrow> ('k, 'z) pstate_scheme \<Rightarrow> ('k, 'z) pstate_scheme res" where
  "EnableReading os c s = Channel_Update os c (upd_chan c add_read s)"

definition DisableReading :: "'k os \<Rightarrow> chan \<Rightarrow> ('k, 'z) pstate_scheme \<Rightarrow> ('k, 'z) pstate_scheme res" where
  "DisableReading os c s = Channel_Update os c (upd_chan c del_read s)"

definition EnableWriting :: "'k os \<Rightarrow> chan \<Rightarrow> ('k, 'z) pstate_scheme \<Rightarrow> ('k, 'z) pstate_scheme res" where
  "EnableWriting os c s = Channel_Update os c (upd_chan c add_write s)"

definition DisableWriting :: "'k os \<Rightarrow> chan \<Rightarrow> ('k, 'z) pstate_scheme \<Rightarrow> ('k, 'z) pstate_scheme res" where
  "DisableWriting os c s = Channel_Update os c (upd_chan c del_write s)"

definition DisableAll :: "'k os \<Rightarrow> chan \<Rightarrow> ('k, 'z) pstate_scheme \<Rightarrow> ('k, 'z) pstate_scheme res" where
  "DisableAll os c s = Channel_Update os c (upd_chan c del_all s)"

subsection \<open>Polling\<close>

text \<open>\<open>FillActivechannels\<close>: the events of each reported channel are stored in it.\<close>

fun FillActivechannels ::
  "epoll_event list \<Rightarrow> chan list \<Rightarrow> ('k, 'z) pstate_scheme \<Rightarrow> chan list \<times> ('k, 'z) pstate_scheme" where
  "FillActivechannels [] active s = (active, s)"
| "FillActivechannels (ev # evs) active s =
     FillActivechannels evs (active @ [ev_ptr ev])
       (upd_chan (ev_ptr ev) (set_revents (ev_events ev)) s)"

text \<open>A failing \<open>epoll_wait\<close> (\<open>EINTR\<close> or not) is at most logged: no channel becomes active.\<close>

definition Poll ::
  "'k os \<Rightarrow> loop \<Rightarrow> int \<Rightarrow> chan list \<Rightarrow> ('k, 'z) pstate_scheme \<Rightarrow>
   timestamp \<times> chan list \<times> ('k, 'z) pstate_scheme" where
  "Poll os l timeout_ms active s =
     (let (r, k1) = sys_epoll_wait os (epoll_fd (pollers s l)) (events_size (pollers s l))
                      timeout_ms (kern s);
          (now, k2) = sys_time os k1;
          s1 = s\<lparr>kern := k2\<rparr>
      in case r of
           Inl e \<Rightarrow> (now, active, s1)
         | Inr evs \<Rightarrow>
             if 0 < length evs then
               let (active', s2) = FillActivechannels evs active s1;
                   s3 = (if length evs = events_size (pollers s2 l)
                         then upd_poller l (\<lambda>p. p\<lparr>events_size := events_size p * 2\<rparr>) s2 else s2)
               in (now, active', s3)
             else (now, active, s1))"

subsection \<open>Consistency of the registration state\<close>

text \<open>
  The channel map, the index each channel carries and the kernel's interest list agree: a
  mapped channel has the descriptor it is mapped at and is added or deleted, an unmapped one
  is new, and the kernel watches exactly the added ones, for their current events.
\<close>

definition poller_ok :: "'k interest \<Rightarrow> loop \<Rightarrow> ('k, 'z) pstate_scheme \<Rightarrow> bool" where
  "poller_ok interest l s \<longleftrightarrow>
     (\<forall>fd c. p_channels (pollers s l) fd = Some c \<longrightarrow>
        ch_fd (chans s c) = fd \<and> ch_loop (chans s c) = l \<and>
        ch_index (chans s c) \<in> {kAdded, kDeleted}) \<and>
     (\<forall>c. ch_loop (chans s c) = l \<longrightarrow>
        ch_index (chans s c) = kNew \<or> p_channels (pollers s l) (ch_fd (chans s c)) = Some c) \<and>
     (\<forall>fd. interest (kern s) (epoll_fd (pollers s l)) fd =
        (case p_channels (pollers s l) fd of
           None \<Rightarrow> None
         | Some c \<Rightarrow> if ch_index (chans s c) = kAdded
                     then Some \<lparr>ev_events = ch_events (chans s c), ev_ptr = c\<rparr> else None))"

lemma poller_ok_mapped:
  assumes "poller_ok interest l s" "p_channels (pollers s l) fd = Some c"
  shows "ch_fd (chans s c) = fd" "ch_loop (chans s c) = l"
    "ch_index (chans s c) = kAdded \<or> ch_index (chans s c) = kDeleted"
  using assms unfolding poller_ok_def by blast+

lemma poller_ok_owned:
  "poller_ok interest l s \<Longrightarrow> ch_loop (chans s c) = l \<Longrightarrow> ch_index (chans s c) \<noteq> kNew \<Longrightarrow>
     p_channels (pollers s l) (ch_fd (chans s c)) = Some c"
  unfolding poller_ok_def by blast

lemma poller_ok_new_or_owned:
  "poller_ok interest l s \<Longrightarrow> ch_loop (chans s c) = l \<Longrightarrow> ch_index (chans s c) = kNew \<or>
     p_channels (pollers s l) (ch_fd (chans s c)) = Some c"
  unfolding poller_ok_def by blast

lemma poller_ok_interest:
  "poller_ok interest l s \<Longrightarrow> interest (kern s) (epoll_fd (pollers s l)) fd =
        (case p_channels (pollers s l) fd of
           None \<Rightarrow> None
         | Some c \<Rightarrow> if ch_index (chans s c) = kAdded
                     then Some \<lparr>ev_events = ch_events (chans s c), ev_ptr = c\<rparr> else None)"
  unfolding poller_ok_def by blast

definition keeps :: "(channel \<Rightarrow> channel) \<Rightarrow> bool" where
  "keeps f \<longleftrightarrow>
     (\<forall>ch. ch_index (f ch) = ch_index ch \<and> ch_fd (f ch) = ch_fd ch \<and> ch_loop (f ch) = ch_loop ch)"

lemma keeps_simps [simp]:
  "keeps add_read" "keeps del_read" "keeps add_write" "keeps del_write" "keeps del_all"
  by (simp_all add: keeps_def)

text \<open>The state the three branches of \<open>UpdateChannel\<close> lead to, kernel apart.\<close>

definition next_index :: "channel \<Rightarrow> int" where
  "next_index ch = (if ch_index ch = kAdded \<and> IsNoneEvent ch then kDeleted else kAdded)"

definition ctl_for :: "channel \<Rightarrow> ctl_op" where
  "ctl_for ch = (if ch_index ch = kNew \<or> ch_index ch = kDeleted then EPOLL_CTL_ADD
                 else if IsNoneEvent ch then EPOLL_CTL_DEL else EPOLL_CTL_MOD)"

lemma index_distinct [simp]:
  "kNew \<noteq> kAdded" "kAdded \<noteq> kNew" "kNew \<noteq> kDeleted" "kDeleted \<noteq> kNew"
  "kAdded \<noteq> kDeleted" "kDeleted \<noteq> kAdded"
  by (simp_all add: channel_index)

lemma UpdateChannel_step:
  assumes call: "sys_epoll_ctl os (epoll_fd (pollers s l)) (ctl_for ch) (ch_fd ch)
            \<lparr>ev_events = ch_events ch, ev_ptr = c\<rparr> (kern s) = (0, k')"
    and ch: "ch = chans s c"
    and mapped: "ch_index ch \<noteq> kNew \<longrightarrow> p_channels (pollers s l) (ch_fd ch) = Some c"
    and index: "ch_index ch \<in> {kNew, kAdded, kDeleted}"
  shows "UpdateChannel os l c s =
     Inr (s\<lparr>kern := k', chans := (chans s)(c := ch\<lparr>ch_index := next_index ch\<rparr>),
            pollers := (pollers s)(l := (pollers s l)
              \<lparr>p_channels := (p_channels (pollers s l))(ch_fd ch \<mapsto> c)\<rparr>)\<rparr>)"
proof -
  have same: "(pollers s)(l := (pollers s l)\<lparr>p_channels := p_channels (pollers s l)\<rparr>) = pollers s"
    by simp
  from mapped have upd: "ch_index ch \<noteq> kNew \<Longrightarrow>
      (p_channels (pollers s l))(ch_fd ch \<mapsto> c) = p_channels (pollers s l)"
    by auto
  consider "ch_index ch = kNew" | "ch_index ch = kDeleted" | "ch_index ch = kAdded" "IsNoneEvent ch"
    | "ch_index ch = kAdded" "\<not> IsNoneEvent ch"
    using index by auto
  then show ?thesis
  proof cases
    case 1
    with call show ?thesis
      by (simp add: UpdateChannel_def Update_def ctl_for_def next_index_def ch upd_chan_def
          upd_poller_def)
  next
    case 2
    with call upd show ?thesis
      by (simp add: UpdateChannel_def Update_def ctl_for_def next_index_def ch upd_chan_def)
  next
    case 3
    with call upd show ?thesis
      by (simp add: UpdateChannel_def Update_def ctl_for_def next_index_def ch upd_chan_def)
  next
    case 4
    with call upd have "(chans s)(c := ch\<lparr>ch_index := kAdded\<rparr>) = chans s"
      by (auto simp: ch)
    with 4 call upd show ?thesis
      by (simp add: UpdateChannel_def Update_def ctl_for_def next_index_def ch)
  qed
qed

definition updated :: "chan \<Rightarrow> ('k, 'z) pstate_scheme \<Rightarrow> ('k, 'z) pstate_scheme \<Rightarrow> bool" where
  "updated c s s' \<longleftrightarrow>
     (let ch = chans s c; l = ch_loop ch in
      chans s' = (chans s)(c := ch\<lparr>ch_index := next_index ch\<rparr>) \<and>
      pollers s' = (pollers s)(l := (pollers s l)
              \<lparr>p_channels := (p_channels (pollers s l))(ch_fd ch \<mapsto> c)\<rparr>) \<and>
      pstate.more s' = pstate.more s)"

text \<open>The table and the kernel's list move together: what one such step leaves behind.\<close>

lemma poller_ok_updated:
  assumes ok: "poller_ok interest l s" and owner: "ch_loop (chans s c) = l" and f: "keeps f"
    and slot: "ch_index (chans s c) = kNew \<longrightarrow> p_channels (pollers s l) (ch_fd (chans s c)) = None"
    and ch: "ch = f (chans s c)" and ev: "ev = \<lparr>ev_events = ch_events ch, ev_ptr = c\<rparr>"
    and int: "interest k' = (interest (kern s))(epoll_fd (pollers s l) :=
        (interest (kern s) (epoll_fd (pollers s l)))(ch_fd ch := ctl_effect (ctl_for ch) ev))"
    and chans: "chans s' = (chans s)(c := ch\<lparr>ch_index := next_index ch\<rparr>)" and kern: "kern s' = k'"
    and pollers: "pollers s' = (pollers s)(l := (pollers s l)\<lparr>p_channels := (p_channels (pollers s l))(ch_fd ch \<mapsto> c)\<rparr>)"
  shows "poller_ok interest l s'"
proof -
  note s' = chans kern pollers
  have keep: "ch_index ch = ch_index (chans s c)" "ch_fd ch = ch_fd (chans s c)" "ch_loop ch = l"
    using f owner by (simp_all add: keeps_def ch)
  from ok owner have mapped: "ch_index ch \<noteq> kNew \<longrightarrow> p_channels (pollers s l) (ch_fd ch) = Some c"
    unfolding keep by (simp add: poller_ok_owned)
  with poller_ok_mapped(3) [OF ok, of "ch_fd ch" c]
  have index: "ch_index ch \<in> {kNew, kAdded, kDeleted}"
    unfolding keep by auto
  show ?thesis
    unfolding poller_ok_def
  proof (intro conjI allI impI)
    fix fd d assume "p_channels (pollers s' l) fd = Some d"
    with poller_ok_mapped [OF ok] show "ch_fd (chans s' d) = fd" "ch_loop (chans s' d) = l"
      "ch_index (chans s' d) \<in> {kAdded, kDeleted}"
      by (auto simp: s' keep next_index_def split: if_splits)
  next
    fix d assume "ch_loop (chans s' d) = l"
    then show "ch_index (chans s' d) = kNew \<or>
        p_channels (pollers s' l) (ch_fd (chans s' d)) = Some d"
      using poller_ok_new_or_owned [OF ok, of d] mapped slot
      by (auto simp: s' keep split: if_splits)
  next
    fix fd
    show "interest (kern s') (epoll_fd (pollers s' l)) fd =
        (case p_channels (pollers s' l) fd of
           None \<Rightarrow> None
         | Some c \<Rightarrow> if ch_index (chans s' c) = kAdded
                     then Some \<lparr>ev_events = ch_events (chans s' c), ev_ptr = c\<rparr> else None)"
      using index poller_ok_interest [OF ok, of fd] poller_ok_mapped(1) [OF ok, of fd c]
      by (auto simp: s' int keep ev ctl_effect_def ctl_for_def next_index_def split: option.split)
  qed
qed

text \<open>The one call of the kernel that an update makes is legal, and succeeds.\<close>

lemma Channel_Update_call:
  assumes law: "epoll_law os interest" and ok: "poller_ok interest l s"
    and owner: "ch_loop (chans s c) = l" and f: "keeps f"
    and slot: "ch_index (chans s c) = kNew \<longrightarrow> p_channels (pollers s l) (ch_fd (chans s c)) = None"
  defines "ch \<equiv> f (chans s c)" and "p \<equiv> pollers s l"
  obtains k' where "sys_epoll_ctl os (epoll_fd p) (ctl_for ch) (ch_fd ch) \<lparr>ev_events = ch_events ch, ev_ptr = c\<rparr> (kern s) = (0, k')"
    "interest k' = (interest (kern s))(epoll_fd p :=
        (interest (kern s) (epoll_fd p))(ch_fd ch := ctl_effect (ctl_for ch) \<lparr>ev_events = ch_events ch, ev_ptr = c\<rparr>))"
    "Channel_Update os c (upd_chan c f s) = Inr ((upd_chan c f s)\<lparr>kern := k',
        chans := (chans (upd_chan c f s))(c := ch\<lparr>ch_index := next_index ch\<rparr>),
        pollers := (pollers (upd_chan c f s))(l := p\<lparr>p_channels := (p_channels p)(ch_fd ch \<mapsto> c)\<rparr>)\<rparr>)"
proof -
  let ?s = "upd_chan c f s"
  have keep: "ch_index ch = ch_index (chans s c)" "ch_fd ch = ch_fd (chans s c)" "ch_loop ch = l"
    using f owner by (simp_all add: keeps_def ch_def)
  from ok owner have mapped: "ch_index ch \<noteq> kNew \<longrightarrow> p_channels p (ch_fd ch) = Some c"
    unfolding keep p_def by (simp add: poller_ok_owned)
  with poller_ok_mapped(3) [OF ok, of "ch_fd ch" c]
  have index: "ch_index ch \<in> {kNew, kAdded, kDeleted}"
    unfolding keep p_def by auto
  have "interest (kern s) (epoll_fd p) (ch_fd ch) =
      (if ch_index ch = kAdded
       then Some \<lparr>ev_events = ch_events (chans s c), ev_ptr = c\<rparr> else None)"
    unfolding p_def poller_ok_interest [OF ok] using mapped slot unfolding keep p_def
    by (cases "ch_index (chans s c) = kNew") simp_all
  then have "ctl_legal (ctl_for ch) (interest (kern s) (epoll_fd p) (ch_fd ch))"
    using index by (auto simp: ctl_legal_def ctl_for_def)
  with law obtain k' where
    call: "sys_epoll_ctl os (epoll_fd p) (ctl_for ch) (ch_fd ch) \<lparr>ev_events = ch_events ch, ev_ptr = c\<rparr> (kern s) = (0, k')"
    and int: "interest k' = (interest (kern s))(epoll_fd p :=
        (interest (kern s) (epoll_fd p))(ch_fd ch := ctl_effect (ctl_for ch) \<lparr>ev_events = ch_events ch, ev_ptr = c\<rparr>))"
    by (rule epoll_law_legal)
  have "UpdateChannel os l c ?s = Inr (?s\<lparr>kern := k',
            chans := (chans ?s)(c := ch\<lparr>ch_index := next_index ch\<rparr>),
            pollers := (pollers ?s)(l := (pollers ?s l)
              \<lparr>p_channels := (p_channels (pollers ?s l))(ch_fd ch \<mapsto> c)\<rparr>)\<rparr>)"
    by (rule UpdateChannel_step) (use call mapped index in \<open>simp_all add: ch_def p_def\<close>)
  then have "Channel_Update os c ?s = Inr (?s\<lparr>kern := k',
        chans := (chans ?s)(c := ch\<lparr>ch_index := next_index ch\<rparr>),
        pollers := (pollers ?s)(l := p\<lparr>p_channels := (p_channels p)(ch_fd ch \<mapsto> c)\<rparr>)\<rparr>)"
    using keep(3) by (simp only: Channel_Update_def ch_def p_def upd_simps fun_upd_same)
  with call int show thesis by (rule that)
qed

lemma Channel_Update_ok:
  assumes law: "epoll_law os interest" and ok: "poller_ok interest l s"
    and owner: "ch_loop (chans s c) = l" and f: "keeps f"
    and slot: "ch_index (chans s c) = kNew \<longrightarrow> p_channels (pollers s l) (ch_fd (chans s c)) = None"
  obtains s' where "Channel_Update os c (upd_chan c f s) = Inr s'" "poller_ok interest l s'"
    "updated c (upd_chan c f s) s'"
    "\<And>ep. ep \<noteq> epoll_fd (pollers s l) \<Longrightarrow> interest (kern s') ep = interest (kern s) ep"
proof -
  let ?s = "upd_chan c f s" and ?p = "pollers s l" and ?ch = "f (chans s c)"
  have keep: "ch_fd ?ch = ch_fd (chans s c)" "ch_loop ?ch = l"
    using f owner by (simp_all add: keeps_def)
  obtain k' where int: "interest k' = (interest (kern s))(epoll_fd ?p :=
        (interest (kern s) (epoll_fd ?p))(ch_fd ?ch := ctl_effect (ctl_for ?ch) \<lparr>ev_events = ch_events ?ch, ev_ptr = c\<rparr>))"
    and run: "Channel_Update os c ?s = Inr (?s\<lparr>kern := k',
        chans := (chans ?s)(c := ?ch\<lparr>ch_index := next_index ?ch\<rparr>),
        pollers := (pollers ?s)(l := ?p\<lparr>p_channels := (p_channels ?p)(ch_fd ?ch \<mapsto> c)\<rparr>)\<rparr>)"
    by (rule Channel_Update_call [OF assms])
  define s' where "s' = ?s\<lparr>kern := k', chans := (chans ?s)(c := ?ch\<lparr>ch_index := next_index ?ch\<rparr>),
            pollers := (pollers ?s)(l := ?p\<lparr>p_channels := (p_channels ?p)(ch_fd ?ch \<mapsto> c)\<rparr>)\<rparr>"
  have "updated c ?s s'"
    by (simp add: updated_def s'_def keep Let_def upd_chan_def)
  moreover have "poller_ok interest l s'"
    by (rule poller_ok_updated [OF ok owner f slot refl refl int])
       (simp_all add: s'_def keep(1) upd_chan_def)
  moreover have "interest (kern s') ep = interest (kern s) ep" if "ep \<noteq> epoll_fd ?p" for ep
    using that by (simp add: s'_def int)
  ultimately show thesis using that run [folded s'_def] by blast
qed

text \<open>The number of the calls of \<open>epoll_ctl\<close> that have failed, as a kernel that counts them would tell it.\<close>

definition counts_failures :: "'k os \<Rightarrow> ('k \<Rightarrow> nat) \<Rightarrow> bool" where
  "counts_failures os fails \<longleftrightarrow>
     (\<forall>ep op fd ev k. fails (snd (sys_epoll_ctl os ep op fd ev k)) =
        (if fst (sys_epoll_ctl os ep op fd ev k) = 0 then fails k else Suc (fails k)))"

lemma counts_success:
  "counts_failures os fails \<Longrightarrow> sys_epoll_ctl os ep op fd ev k = (0, k') \<Longrightarrow> fails k' = fails k"
  unfolding counts_failures_def by (metis fst_conv snd_conv)

lemma Channel_Update_quiet:
  assumes law: "epoll_law os interest" and ok: "poller_ok interest l s"
    and owner: "ch_loop (chans s c) = l" and f: "keeps f"
    and slot: "ch_index (chans s c) = kNew \<longrightarrow> p_channels (pollers s l) (ch_fd (chans s c)) = None"
    and fails: "counts_failures os fails" and run: "Channel_Update os c (upd_chan c f s) = Inr s'"
  shows "fails (kern s') = fails (kern s)"
  by (rule Channel_Update_call [OF law ok owner f slot])
     (use run counts_success [OF fails] in auto)

text \<open>Removal.\<close>

definition removed :: "chan \<Rightarrow> ('k, 'z) pstate_scheme \<Rightarrow> ('k, 'z) pstate_scheme \<Rightarrow> bool" where
  "removed c s s' \<longleftrightarrow>
     (let ch = chans s c; l = ch_loop ch in
      chans s' = (chans s)(c := ch\<lparr>ch_index := kNew\<rparr>) \<and>
      pollers s' = (pollers s)(l := (pollers s l)
              \<lparr>p_channels := (p_channels (pollers s l))(ch_fd ch := None)\<rparr>) \<and>
      pstate.more s' = pstate.more s)"

lemma poller_ok_removed:
  assumes ok: "poller_ok interest l s" and owner: "ch_loop (chans s c) = l"
    and slot: "ch_index (chans s c) = kNew \<longrightarrow> p_channels (pollers s l) (ch_fd (chans s c)) = None"
    and int: "interest (kern s') = (interest (kern s))(epoll_fd (pollers s l) :=
        (interest (kern s) (epoll_fd (pollers s l)))(ch_fd (chans s c) := None))"
    and chans: "chans s' = (chans s)(c := (chans s c)\<lparr>ch_index := kNew\<rparr>)"
    and pollers: "pollers s' = (pollers s)(l := (pollers s l)
        \<lparr>p_channels := (p_channels (pollers s l))(ch_fd (chans s c) := None)\<rparr>)"
  shows "poller_ok interest l s'"
  unfolding poller_ok_def
proof (intro conjI allI impI)
  fix fd d assume "p_channels (pollers s' l) fd = Some d"
  with poller_ok_mapped [OF ok, of fd d] show "ch_fd (chans s' d) = fd" "ch_loop (chans s' d) = l"
    "ch_index (chans s' d) \<in> {kAdded, kDeleted}"
    by (auto simp: chans pollers split: if_splits)
next
  fix d assume "ch_loop (chans s' d) = l"
  then show "ch_index (chans s' d) = kNew \<or>
      p_channels (pollers s' l) (ch_fd (chans s' d)) = Some d"
    using poller_ok_new_or_owned [OF ok, of d] poller_ok_owned [OF ok owner] slot
    by (auto simp: chans pollers split: if_splits)
next
  fix fd
  show "interest (kern s') (epoll_fd (pollers s' l)) fd =
      (case p_channels (pollers s' l) fd of
         None \<Rightarrow> None
       | Some c \<Rightarrow> if ch_index (chans s' c) = kAdded
                   then Some \<lparr>ev_events = ch_events (chans s' c), ev_ptr = c\<rparr> else None)"
    using poller_ok_interest [OF ok, of fd] poller_ok_mapped(1) [OF ok, of fd c]
    by (auto simp: chans pollers int split: option.split)
qed

text \<open>A removal calls the kernel for a channel in its list only, and then the call succeeds.\<close>

lemma Channel_Remove_call:
  assumes law: "epoll_law os interest" and ok: "poller_ok interest l s"
    and owner: "ch_loop (chans s c) = l"
    and slot: "ch_index (chans s c) = kNew \<longrightarrow> p_channels (pollers s l) (ch_fd (chans s c)) = None"
  defines "ch \<equiv> chans s c" and "p \<equiv> pollers s l"
  obtains k' where "k' = kern s \<or>
      sys_epoll_ctl os (epoll_fd p) EPOLL_CTL_DEL (ch_fd ch) \<lparr>ev_events = ch_events ch, ev_ptr = c\<rparr> (kern s) = (0, k')"
    "interest k' = (interest (kern s))(epoll_fd p := (interest (kern s) (epoll_fd p))(ch_fd ch := None))"
    "Channel_Remove os c s = Inr (s\<lparr>kern := k', chans := (chans s)(c := ch\<lparr>ch_index := kNew\<rparr>),
        pollers := (pollers s)(l := p\<lparr>p_channels := (p_channels p)(ch_fd ch := None)\<rparr>)\<rparr>)"
proof -
  have int0: "interest (kern s) (epoll_fd p) (ch_fd ch) =
      (if ch_index ch = kAdded then Some \<lparr>ev_events = ch_events ch, ev_ptr = c\<rparr> else None)"
    unfolding ch_def p_def poller_ok_interest [OF ok] using slot poller_ok_owned [OF ok owner]
    by (cases "ch_index (chans s c) = kNew") simp_all
  show thesis
  proof (cases "ch_index ch = kAdded")
    case True
    with int0 have "ctl_legal EPOLL_CTL_DEL (interest (kern s) (epoll_fd p) (ch_fd ch))"
      by (simp add: ctl_legal_def)
    with law obtain k' where
      call: "sys_epoll_ctl os (epoll_fd p) EPOLL_CTL_DEL (ch_fd ch)
               \<lparr>ev_events = ch_events ch, ev_ptr = c\<rparr> (kern s) = (0, k')"
      and int: "interest k' = (interest (kern s))(epoll_fd p :=
        (interest (kern s) (epoll_fd p))(ch_fd ch := ctl_effect EPOLL_CTL_DEL
           \<lparr>ev_events = ch_events ch, ev_ptr = c\<rparr>))"
      by (rule epoll_law_legal)
    have run: "Channel_Remove os c s = Inr (s\<lparr>kern := k', chans := (chans s)(c := ch\<lparr>ch_index := kNew\<rparr>),
        pollers := (pollers s)(l := p\<lparr>p_channels := (p_channels p)(ch_fd ch := None)\<rparr>)\<rparr>)"
      using True call owner unfolding ch_def p_def
      by (simp add: Channel_Remove_def RemoveChannel_def Update_def Let_def upd_chan_def upd_poller_def)
    have "interest k' = (interest (kern s))(epoll_fd p := (interest (kern s) (epoll_fd p))(ch_fd ch := None))"
      unfolding int by (simp add: ctl_effect_def)
    then show thesis by (rule that [OF disjI2 [OF call] _ run])
  next
    case False
    then have "Channel_Remove os c s = Inr (s\<lparr>kern := kern s, chans := (chans s)(c := ch\<lparr>ch_index := kNew\<rparr>),
        pollers := (pollers s)(l := p\<lparr>p_channels := (p_channels p)(ch_fd ch := None)\<rparr>)\<rparr>)"
      using owner unfolding ch_def p_def
      by (simp add: Channel_Remove_def RemoveChannel_def Let_def upd_chan_def upd_poller_def)
    moreover have "(interest (kern s) (epoll_fd p))(ch_fd ch := None) = interest (kern s) (epoll_fd p)"
      using False int0 by auto
    ultimately show thesis using that [of "kern s"] by simp
  qed
qed

text \<open>
  Removing a channel that owns its slot, or one that is not registered while no other channel
  holds its descriptor, keeps the state consistent.
\<close>

lemma Channel_Remove_ok:
  assumes law: "epoll_law os interest" and ok: "poller_ok interest l s"
    and owner: "ch_loop (chans s c) = l"
    and slot: "ch_index (chans s c) = kNew \<longrightarrow> p_channels (pollers s l) (ch_fd (chans s c)) = None"
  obtains s' where "Channel_Remove os c s = Inr s'" "poller_ok interest l s'" "removed c s s'"
    "\<And>ep. ep \<noteq> epoll_fd (pollers s l) \<Longrightarrow> interest (kern s') ep = interest (kern s) ep"
proof -
  let ?p = "pollers s l" and ?ch = "chans s c"
  obtain k' where int: "interest k' = (interest (kern s))(epoll_fd ?p :=
        (interest (kern s) (epoll_fd ?p))(ch_fd ?ch := None))"
    and step: "Channel_Remove os c s = Inr (s\<lparr>kern := k', chans := (chans s)(c := ?ch\<lparr>ch_index := kNew\<rparr>),
        pollers := (pollers s)(l := ?p\<lparr>p_channels := (p_channels ?p)(ch_fd ?ch := None)\<rparr>)\<rparr>)"
    by (rule Channel_Remove_call [OF assms])
  define s' where "s' = s\<lparr>kern := k', chans := (chans s)(c := ?ch\<lparr>ch_index := kNew\<rparr>),
            pollers := (pollers s)(l := ?p\<lparr>p_channels := (p_channels ?p)(ch_fd ?ch := None)\<rparr>)\<rparr>"
  have "poller_ok interest l s'"
    by (rule poller_ok_removed [OF ok owner slot]) (simp_all add: s'_def int)
  moreover have "removed c s s'"
    by (simp add: removed_def s'_def Let_def owner)
  moreover have "interest (kern s') ep = interest (kern s) ep" if "ep \<noteq> epoll_fd ?p" for ep
    using that by (simp add: s'_def int)
  ultimately show thesis using that step [folded s'_def] by blast
qed

lemma Channel_Remove_quiet:
  assumes law: "epoll_law os interest" and ok: "poller_ok interest l s"
    and owner: "ch_loop (chans s c) = l"
    and slot: "ch_index (chans s c) = kNew \<longrightarrow> p_channels (pollers s l) (ch_fd (chans s c)) = None"
    and fails: "counts_failures os fails" and run: "Channel_Remove os c s = Inr s'"
  shows "fails (kern s') = fails (kern s)"
  by (rule Channel_Remove_call [OF law ok owner slot])
     (use run counts_success [OF fails] in auto)

subsection \<open>All pollers at once\<close>

definition net_ok :: "'k interest \<Rightarrow> ('k, 'z) pstate_scheme \<Rightarrow> bool" where
  "net_ok interest s \<longleftrightarrow> (\<forall>l. poller_ok interest l s) \<and> inj (\<lambda>l. epoll_fd (pollers s l))"

lemma net_okD:
  assumes "net_ok interest s"
  shows "poller_ok interest l s" "epoll_fd (pollers s l) = epoll_fd (pollers s l') \<Longrightarrow> l = l'"
  using assms unfolding net_ok_def by (blast dest: injD)+

lemma poller_ok_other:
  assumes ok: "poller_ok interest l' s" and l': "ch_loop (chans s c) \<noteq> l'"
    and chans: "chans s' = (chans s)(c := ch)" and ch: "ch_loop ch = ch_loop (chans s c)"
    and same: "pollers s' l' = pollers s l'"
    and int: "interest (kern s') (epoll_fd (pollers s l')) = interest (kern s) (epoll_fd (pollers s l'))"
  shows "poller_ok interest l' s'"
proof -
  have other: "p_channels (pollers s l') fd = Some d \<Longrightarrow> d \<noteq> c" for fd d
    using poller_ok_mapped(2) [OF ok] l' by blast
  show ?thesis
    unfolding poller_ok_def same int
  proof (intro conjI allI impI)
    fix fd d assume d: "p_channels (pollers s l') fd = Some d"
    with poller_ok_mapped [OF ok d] other show "ch_fd (chans s' d) = fd"
      "ch_loop (chans s' d) = l'" "ch_index (chans s' d) \<in> {kAdded, kDeleted}"
      by (auto simp: chans)
  next
    fix d assume "ch_loop (chans s' d) = l'"
    with l' ch poller_ok_new_or_owned [OF ok, of d]
    show "ch_index (chans s' d) = kNew \<or> p_channels (pollers s l') (ch_fd (chans s' d)) = Some d"
      by (auto simp: chans split: if_splits)
  next
    fix fd
    show "interest (kern s) (epoll_fd (pollers s l')) fd =
        (case p_channels (pollers s l') fd of
           None \<Rightarrow> None
         | Some c \<Rightarrow> if ch_index (chans s' c) = kAdded
                     then Some \<lparr>ev_events = ch_events (chans s' c), ev_ptr = c\<rparr> else None)"
      using poller_ok_interest [OF ok, of fd] other
      by (auto simp: chans split: option.split)
  qed
qed

lemma Channel_Update_net:
  assumes law: "epoll_law os interest" and ok: "net_ok interest s" and f: "keeps f"
    and slot: "ch_index (chans s c) = kNew \<longrightarrow>
           p_channels (pollers s (ch_loop (chans s c))) (ch_fd (chans s c)) = None"
  obtains s' where "Channel_Update os c (upd_chan c f s) = Inr s'" "net_ok interest s'"
    "updated c (upd_chan c f s) s'"
proof -
  let ?l = "ch_loop (chans s c)"
  obtain s' where run: "Channel_Update os c (upd_chan c f s) = Inr s'"
    and here: "poller_ok interest ?l s'" and upd: "updated c (upd_chan c f s) s'"
    and int: "\<And>ep. ep \<noteq> epoll_fd (pollers s ?l) \<Longrightarrow> interest (kern s') ep = interest (kern s) ep"
    using Channel_Update_ok [OF law net_okD(1) [OF ok] refl f slot] by metis
  have loop: "ch_loop (f (chans s c)) = ?l" using f by (simp add: keeps_def)
  have eps: "epoll_fd (pollers s' l) = epoll_fd (pollers s l)" for l
    using upd loop by (simp add: updated_def Let_def)
  have "poller_ok interest l s'" for l
  proof (cases "l = ?l")
    case False
    have "interest (kern s') (epoll_fd (pollers s l)) = interest (kern s) (epoll_fd (pollers s l))"
      using False net_okD(2) [OF ok] by (intro int) metis
    with False upd loop show ?thesis
      by (intro poller_ok_other [OF net_okD(1) [OF ok], of c l s'
            "(f (chans s c))\<lparr>ch_index := next_index (f (chans s c))\<rparr>"])
         (simp_all add: updated_def Let_def)
  qed (use here in simp)
  moreover have "inj (\<lambda>l. epoll_fd (pollers s' l))"
    using ok by (simp add: eps net_ok_def)
  ultimately show thesis using that run upd by (simp add: net_ok_def)
qed

lemma Channel_Remove_net:
  assumes law: "epoll_law os interest" and ok: "net_ok interest s"
    and slot: "ch_index (chans s c) = kNew \<longrightarrow>
           p_channels (pollers s (ch_loop (chans s c))) (ch_fd (chans s c)) = None"
  obtains s' where "Channel_Remove os c s = Inr s'" "net_ok interest s'" "removed c s s'"
proof -
  let ?l = "ch_loop (chans s c)"
  obtain s' where run: "Channel_Remove os c s = Inr s'"
    and here: "poller_ok interest ?l s'" and rem: "removed c s s'"
    and int: "\<And>ep. ep \<noteq> epoll_fd (pollers s ?l) \<Longrightarrow> interest (kern s') ep = interest (kern s) ep"
    using Channel_Remove_ok [OF law net_okD(1) [OF ok] refl slot] by metis
  have eps: "epoll_fd (pollers s' l) = epoll_fd (pollers s l)" for l
    using rem by (simp add: removed_def Let_def)
  have "poller_ok interest l s'" for l
  proof (cases "l = ?l")
    case False
    have "interest (kern s') (epoll_fd (pollers s l)) = interest (kern s) (epoll_fd (pollers s l))"
      using False net_okD(2) [OF ok] by (intro int) metis
    with False rem show ?thesis
      by (intro poller_ok_other [OF net_okD(1) [OF ok], of c l s' "(chans s c)\<lparr>ch_index := kNew\<rparr>"])
         (simp_all add: removed_def Let_def)
  qed (use here in simp)
  moreover have "inj (\<lambda>l. epoll_fd (pollers s' l))"
    using ok by (simp add: eps net_ok_def)
  ultimately show thesis using that run rem by (simp add: net_ok_def)
qed

text \<open>The kernel is reached through \<open>epoll_ctl\<close> only.\<close>

lemma Update_view:
  assumes "\<And>ep op fd ev k. view (snd (sys_epoll_ctl os ep op fd ev k)) = view k"
    "Update os l op c s = Inr s'"
  shows "view (kern s') = view (kern s)"
  using assms(2) assms(1) [of "epoll_fd (pollers s l)" op]
  by (auto simp: Update_def Let_def case_prod_beta split: if_splits)

lemma UpdateChannel_view:
  assumes view: "\<And>ep op fd ev k. view (snd (sys_epoll_ctl os ep op fd ev k)) = view k"
    and run: "UpdateChannel os l c s = Inr s'"
  shows "view (kern s') = view (kern s)"
  using run Update_view [of view os, OF view]
  by (fastforce simp: UpdateChannel_def Let_def bind_res_Inr split: if_splits)

lemma RemoveChannel_view:
  assumes view: "\<And>ep op fd ev k. view (snd (sys_epoll_ctl os ep op fd ev k)) = view k"
    and run: "RemoveChannel os l c s = Inr s'"
  shows "view (kern s') = view (kern s)"
  using run Update_view [of view os, OF view]
  by (fastforce simp: RemoveChannel_def Let_def bind_res_Inr split: if_splits)

lemma Channel_Update_view:
  assumes "\<And>ep op fd ev k. view (snd (sys_epoll_ctl os ep op fd ev k)) = view k"
    "Channel_Update os c s = Inr s'"
  shows "view (kern s') = view (kern s)"
  using UpdateChannel_view [of view os, OF assms(1)] assms(2) by (simp add: Channel_Update_def)

lemma Channel_Remove_view:
  assumes "\<And>ep op fd ev k. view (snd (sys_epoll_ctl os ep op fd ev k)) = view k"
    "Channel_Remove os c s = Inr s'"
  shows "view (kern s') = view (kern s)"
  using RemoveChannel_view [of view os, OF assms(1)] assms(2) by (simp add: Channel_Remove_def)

text \<open>Whatever the kernel answers, the registration calls leave the rest of the state alone.\<close>

lemma Update_more:
  assumes "Update os l op c s = Inr s'"
  shows "pstate.more s' = pstate.more s" "pollers s' = pollers s" "chans s' = chans s"
  using assms by (auto simp: Update_def Let_def case_prod_beta split: if_splits)

lemma UpdateChannel_more: "UpdateChannel os l c s = Inr s' \<Longrightarrow> pstate.more s' = pstate.more s"
  by (auto simp: UpdateChannel_def Let_def bind_res_Inr dest!: Update_more(1) split: if_splits)

lemma RemoveChannel_more: "RemoveChannel os l c s = Inr s' \<Longrightarrow> pstate.more s' = pstate.more s"
  by (auto simp: RemoveChannel_def Let_def bind_res_Inr dest!: Update_more(1) split: if_splits)

lemma Channel_Update_more: "Channel_Update os c s = Inr s' \<Longrightarrow> pstate.more s' = pstate.more s"
  unfolding Channel_Update_def by (rule UpdateChannel_more)

lemma chan_methods_more:
  "EnableReading os c s = Inr s' \<Longrightarrow> pstate.more s' = pstate.more s"
  "EnableWriting os c s = Inr s' \<Longrightarrow> pstate.more s' = pstate.more s"
  "DisableWriting os c s = Inr s' \<Longrightarrow> pstate.more s' = pstate.more s"
  "DisableAll os c s = Inr s' \<Longrightarrow> pstate.more s' = pstate.more s"
  "Channel_Remove os c s = Inr s' \<Longrightarrow> pstate.more s' = pstate.more s"
  by (auto simp: EnableReading_def EnableWriting_def DisableWriting_def DisableAll_def
      Channel_Remove_def dest: Channel_Update_more RemoveChannel_more)

subsection \<open>Histories of channel operations\<close>

text \<open>The operations of a channel, and a set of channels with descriptors of their own.\<close>

datatype chan_op =
  OpEnableReading | OpDisableReading | OpEnableWriting | OpDisableWriting | OpDisableAll | OpRemove

fun chan_oper :: "'k os \<Rightarrow> chan_op \<Rightarrow> chan \<Rightarrow> ('k, 'z) pstate_scheme \<Rightarrow> ('k, 'z) pstate_scheme res" where
  "chan_oper os OpEnableReading c s = EnableReading os c s"
| "chan_oper os OpDisableReading c s = DisableReading os c s"
| "chan_oper os OpEnableWriting c s = EnableWriting os c s"
| "chan_oper os OpDisableWriting c s = DisableWriting os c s"
| "chan_oper os OpDisableAll c s = DisableAll os c s"
| "chan_oper os OpRemove c s = Channel_Remove os c s"

lemmas chan_methods = EnableReading_def DisableReading_def EnableWriting_def DisableWriting_def
  DisableAll_def

definition reg_ok ::
  "'k os \<Rightarrow> 'k interest \<Rightarrow> loop \<Rightarrow> chan set \<Rightarrow> ('k, 'z) pstate_scheme \<Rightarrow> bool" where
  "reg_ok os interest l C s \<longleftrightarrow>
     epoll_law os interest \<and> poller_ok interest l s \<and>
     (\<forall>c \<in> C. ch_loop (chans s c) = l) \<and>
     (\<forall>c \<in> C. \<forall>d \<in> C. ch_fd (chans s c) = ch_fd (chans s d) \<longrightarrow> c = d) \<and>
     (\<forall>fd c. p_channels (pollers s l) fd = Some c \<longrightarrow> c \<in> C)"

lemma reg_ok_slot:
  assumes "reg_ok os interest l C s" "c \<in> C" "ch_index (chans s c) = kNew"
  shows "p_channels (pollers s l) (ch_fd (chans s c)) = None"
proof (rule ccontr)
  assume "p_channels (pollers s l) (ch_fd (chans s c)) \<noteq> None"
  then obtain d where d: "p_channels (pollers s l) (ch_fd (chans s c)) = Some d" by auto
  with assms have "d \<in> C" "ch_fd (chans s d) = ch_fd (chans s c)" "ch_index (chans s d) \<noteq> kNew"
    using poller_ok_mapped [OF _ d] by (auto simp: reg_ok_def)
  with assms show False unfolding reg_ok_def by metis
qed

text \<open>None of the calls of the kernel fails.\<close>

lemma chan_oper_quiet:
  assumes ok: "reg_ok os interest l C s" and c: "c \<in> C" and run: "chan_oper os p c s = Inr s'"
    and fails: "counts_failures os fails"
  shows "fails (kern s') = fails (kern s)"
proof -
  from ok c have reg: "epoll_law os interest" "poller_ok interest l s" "ch_loop (chans s c) = l"
    by (simp_all add: reg_ok_def)
  have slot: "ch_index (chans s c) = kNew \<longrightarrow> p_channels (pollers s l) (ch_fd (chans s c)) = None"
    using reg_ok_slot [OF ok c] by blast
  note upd = Channel_Update_quiet [OF reg _ slot fails]
  show ?thesis
    using run upd [OF keeps_simps(1)] upd [OF keeps_simps(2)] upd [OF keeps_simps(3)] upd [OF keeps_simps(4)]
      upd [OF keeps_simps(5)] Channel_Remove_quiet [OF reg slot fails]
    by (cases p) (simp_all add: chan_methods)
qed

lemma updated_reg_ok:
  assumes ok: "reg_ok os interest l C s" and c: "c \<in> C" and f: "keeps f"
    and upd: "updated c (upd_chan c f s) s'" and ok': "poller_ok interest l s'"
  shows "reg_ok os interest l C s'"
proof -
  from ok c f have f': "ch_fd (f (chans s c)) = ch_fd (chans s c)" "ch_loop (f (chans s c)) = l"
    by (simp_all add: keeps_def reg_ok_def)
  with upd have "\<forall>d. ch_fd (chans s' d) = ch_fd (chans s d)"
    and "\<forall>d. ch_loop (chans s' d) = ch_loop (chans s d)"
    and "p_channels (pollers s' l) = (p_channels (pollers s l))(ch_fd (chans s c) \<mapsto> c)"
    using ok c by (simp_all add: updated_def Let_def reg_ok_def)
  with ok c ok' show ?thesis by (simp add: reg_ok_def)
qed

text \<open>
  The life of one channel on its own: the index and the events an operation leads to. A removal
  leaves the events alone.
\<close>

fun chan_mask :: "chan_op \<Rightarrow> 32 word \<Rightarrow> 32 word" where
  "chan_mask OpEnableReading ev = ev OR kReadEvent"
| "chan_mask OpDisableReading ev = ev AND NOT kReadEvent"
| "chan_mask OpEnableWriting ev = ev OR kWriteEvent"
| "chan_mask OpDisableWriting ev = ev AND NOT kWriteEvent"
| "chan_mask OpDisableAll ev = kNoneEvent"
| "chan_mask OpRemove ev = ev"

definition chan_spec :: "chan_op \<Rightarrow> fd \<times> int \<times> 32 word \<Rightarrow> fd \<times> int \<times> 32 word" where
  "chan_spec p = (\<lambda>(fd, i, ev).
     if p = OpRemove then (fd, kNew, ev)
     else (fd, if i = kAdded \<and> chan_mask p ev = kNoneEvent then kDeleted else kAdded,
           chan_mask p ev))"

definition chan_view :: "('k, 'z) pstate_scheme \<Rightarrow> chan \<Rightarrow> fd \<times> int \<times> 32 word" where
  "chan_view s c = (ch_fd (chans s c), ch_index (chans s c), ch_events (chans s c))"

lemma update_spec:
  assumes ok: "reg_ok os interest l C s" and c: "c \<in> C" and f: "keeps f"
    and p: "p \<noteq> OpRemove" "ch_events (f (chans s c)) = chan_mask p (ch_events (chans s c))"
  shows "\<exists>s'. Channel_Update os c (upd_chan c f s) = Inr s' \<and> reg_ok os interest l C s' \<and>
     chan_view s' = (chan_view s)(c := chan_spec p (chan_view s c))"
proof -
  from ok c have "epoll_law os interest" "poller_ok interest l s" "ch_loop (chans s c) = l"
    by (simp_all add: reg_ok_def)
  moreover have "ch_index (chans s c) = kNew \<longrightarrow> p_channels (pollers s l) (ch_fd (chans s c)) = None"
    using reg_ok_slot [OF ok c] by blast
  ultimately obtain s' where run: "Channel_Update os c (upd_chan c f s) = Inr s'"
    and "poller_ok interest l s'" and upd: "updated c (upd_chan c f s) s'"
    using Channel_Update_ok [of os interest l s c f] f by blast
  then have "reg_ok os interest l C s'" using updated_reg_ok [OF ok c f] by blast
  moreover have "ch_index (f (chans s c)) = ch_index (chans s c)" "ch_fd (f (chans s c)) = ch_fd (chans s c)"
    using f by (simp_all add: keeps_def)
  then have "chan_view s' = (chan_view s)(c := chan_spec p (chan_view s c))"
    using upd p
    by (auto simp: updated_def Let_def chan_view_def chan_spec_def next_index_def IsNoneEvent_def
        intro!: ext)
  ultimately show ?thesis using run by blast
qed

lemma remove_spec:
  assumes ok: "reg_ok os interest l C s" and c: "c \<in> C"
  shows "\<exists>s'. Channel_Remove os c s = Inr s' \<and> reg_ok os interest l C s' \<and>
     chan_view s' = (chan_view s)(c := chan_spec OpRemove (chan_view s c))"
proof -
  from ok c have "epoll_law os interest" "poller_ok interest l s" "ch_loop (chans s c) = l"
    by (simp_all add: reg_ok_def)
  moreover have "ch_index (chans s c) = kNew \<longrightarrow> p_channels (pollers s l) (ch_fd (chans s c)) = None"
    using reg_ok_slot [OF ok c] by blast
  ultimately obtain s' where run: "Channel_Remove os c s = Inr s'" and rem: "removed c s s'"
    and ok': "poller_ok interest l s'"
    using Channel_Remove_ok [of os interest l s c] by blast
  from rem have "chan_view s' = (chan_view s)(c := chan_spec OpRemove (chan_view s c))"
    by (auto simp: removed_def Let_def chan_view_def chan_spec_def intro!: ext)
  moreover have "reg_ok os interest l C s'"
  proof -
    from rem have "\<forall>d. ch_fd (chans s' d) = ch_fd (chans s d)"
      and "\<forall>d. ch_loop (chans s' d) = ch_loop (chans s d)"
      and "p_channels (pollers s' l) = (p_channels (pollers s l))(ch_fd (chans s c) := None)"
      using ok c by (simp_all add: removed_def Let_def reg_ok_def)
    with ok ok' show ?thesis by (simp add: reg_ok_def)
  qed
  ultimately show ?thesis using run by blast
qed

lemma chan_oper_spec:
  assumes "reg_ok os interest l C s" "c \<in> C"
  shows "\<exists>s'. chan_oper os p c s = Inr s' \<and> reg_ok os interest l C s' \<and>
     chan_view s' = (chan_view s)(c := chan_spec p (chan_view s c))"
proof (cases "p = OpRemove")
  case True
  show ?thesis using remove_spec [OF assms] by (simp only: True chan_oper.simps)
next
  case False
  with update_spec [OF assms, of _ p] show ?thesis
    by (cases p) (simp_all add: chan_methods)
qed

interpretation reg: registry C "reg_ok os interest l C" "chan_oper os" chan_view chan_spec
  for C :: "chan set" and os :: "'k os" and interest :: "'k interest" and l :: loop
  by unfold_locales (rule chan_oper_spec)

text \<open>The same with the number of failed calls, which stays what it is.\<close>

definition reg_quiet ::
  "'k os \<Rightarrow> 'k interest \<Rightarrow> ('k \<Rightarrow> nat) \<Rightarrow> nat \<Rightarrow> loop \<Rightarrow> chan set \<Rightarrow> ('k, 'z) pstate_scheme \<Rightarrow> bool" where
  "reg_quiet os interest fails n l C s \<longleftrightarrow>
     reg_ok os interest l C s \<and> counts_failures os fails \<and> fails (kern s) = n"

lemma chan_oper_counted:
  assumes quiet: "reg_quiet os interest fails n l C s" and c: "c \<in> C"
  shows "\<exists>s'. chan_oper os p c s = Inr s' \<and> reg_quiet os interest fails n l C s' \<and>
     chan_view s' = (chan_view s)(c := chan_spec p (chan_view s c))"
proof -
  from quiet have ok: "reg_ok os interest l C s" and fails: "counts_failures os fails" and n: "fails (kern s) = n"
    by (simp_all add: reg_quiet_def)
  from chan_oper_spec [OF ok c, of p] obtain s' where run: "chan_oper os p c s = Inr s'"
    and ok': "reg_ok os interest l C s'" and view: "chan_view s' = (chan_view s)(c := chan_spec p (chan_view s c))"
    by blast
  have "fails (kern s') = n" using chan_oper_quiet [OF ok c run fails] n by simp
  then show ?thesis using run ok' view fails by (simp add: reg_quiet_def)
qed

interpretation reg_counted: registry C "reg_quiet os interest fails n l C" "chan_oper os" chan_view chan_spec
  for C :: "chan set" and os :: "'k os" and interest :: "'k interest" and fails :: "'k \<Rightarrow> nat" and n :: nat and l :: loop
  by unfold_locales (rule chan_oper_counted)

text \<open>What the kernel watches, read off the channel.\<close>

lemma reg_ok_interest:
  assumes "reg_ok os interest l C s" "c \<in> C"
  shows "interest (kern s) (epoll_fd (pollers s l)) (ch_fd (chans s c)) =
    (if ch_index (chans s c) = kAdded
     then Some \<lparr>ev_events = ch_events (chans s c), ev_ptr = c\<rparr> else None)"
proof -
  from assms have ok: "poller_ok interest l s" and own: "ch_loop (chans s c) = l"
    by (simp_all add: reg_ok_def)
  show ?thesis
    using reg_ok_slot [OF assms] poller_ok_owned [OF ok own] poller_ok_interest [OF ok]
    by (cases "ch_index (chans s c) = kNew") simp_all
qed

end
