(* ===== verification/TaskQueue.thy ===== *)
theory TaskQueue
  imports Prelude
begin

text \<open>
  The interface of a loop's queue of pending functors: producers append one task at a time,
  the loop takes the whole batch. The client's law: over any history, the tasks taken, in
  order, followed by those still pending, are the tasks queued, in order, so that none is
  lost, duplicated or overtaken.
\<close>

locale task_queue =
  fixes pending :: "'q \<Rightarrow> 'a list"
    and push :: "'a \<Rightarrow> 'q \<Rightarrow> 'q"
    and swap :: "'q \<Rightarrow> 'a list \<times> 'q"
  assumes pending_push: "pending (push x q) = pending q @ [x]"
    and swap_batch: "fst (swap q) = pending q"
    and swap_empty: "pending (snd (swap q)) = []"

datatype 'a queue_event = Push 'a | Swap

fun pushed :: "'a queue_event list \<Rightarrow> 'a list" where
  "pushed [] = []"
| "pushed (Push x # es) = x # pushed es"
| "pushed (Swap # es) = pushed es"

fun run_tasks ::
  "('a \<Rightarrow> 'q \<Rightarrow> 'q) \<Rightarrow> ('q \<Rightarrow> 'a list \<times> 'q) \<Rightarrow> 'a queue_event list \<Rightarrow> 'q \<Rightarrow> 'a list \<times> 'q" where
  "run_tasks push swap [] q = ([], q)"
| "run_tasks push swap (Push x # es) q = run_tasks push swap es (push x q)"
| "run_tasks push swap (Swap # es) q =
     (let (batch, q1) = swap q; (rest, q2) = run_tasks push swap es q1 in (batch @ rest, q2))"

context task_queue
begin

lemma run_tasks_fifo:
  "fst (run_tasks push swap es q) @ pending (snd (run_tasks push swap es q)) = pending q @ pushed es"
proof (induction es arbitrary: q)
  case (Cons e es)
  show ?case
  proof (cases e)
    case (Push x)
    with Cons.IH [of "push x q"] show ?thesis by (simp add: pending_push)
  next
    case Swap
    with Cons.IH [of "snd (swap q)"] show ?thesis
      by (simp add: case_prod_beta Let_def swap_batch swap_empty)
  qed
qed simp

end

end
