(* ===== verification/EventLoop.thy ===== *)
theory EventLoop
  imports Poller TaskQueue
begin

text \<open>
  \<open>server/include/event_loop.h\<close> and \<open>server/src/event_loop.cpp\<close>. The state adds to the
  pollers a store of \<open>EventLoop\<close> objects and the thread-local pointer to each thread's loop.
  An operation takes the id \<open>t\<close> of the thread that runs it. What a functor or a channel does
  when it is called belongs to the components above: it is an argument here. The three \<open>fresh\<close>
  fields are the next addresses and thread id to be handed out.
\<close>

subsection \<open>State\<close>

record event_loop =
  el_looping :: bool
  el_quit :: bool
  el_calling :: bool
  el_thread_id :: tid
  el_return_time :: timestamp
  el_wakeup_fd :: fd
  el_wakeup_channel :: chan
  el_active :: "chan list"
  el_pending :: "task list"

record 'k lstate = "'k pstate" +
  evloops :: "loop \<Rightarrow> event_loop"
  thread_loop :: "tid \<Rightarrow> loop option"
  fresh_loop :: loop
  fresh_chan :: chan
  fresh_tid :: tid

definition kPollTimeout :: int where "kPollTimeout = 10000"

definition upd_loop :: "loop \<Rightarrow> (event_loop \<Rightarrow> event_loop) \<Rightarrow> ('k, 'z) lstate_scheme \<Rightarrow> ('k, 'z) lstate_scheme" where
  "upd_loop l f s = s\<lparr>evloops := (evloops s)(l := f (evloops s l))\<rparr>"

lemma upd_loop_simps [simp]:
  "kern (upd_loop l f s) = kern s" "chans (upd_loop l f s) = chans s"
  "pollers (upd_loop l f s) = pollers s"
  "evloops (upd_loop l f s) = (evloops s)(l := f (evloops s l))"
  "thread_loop (upd_loop l f s) = thread_loop s" "fresh_loop (upd_loop l f s) = fresh_loop s"
  "fresh_chan (upd_loop l f s) = fresh_chan s" "fresh_tid (upd_loop l f s) = fresh_tid s"
  "lstate.more (upd_loop l f s) = lstate.more s"
  by (simp_all add: upd_loop_def)

subsection \<open>Wakeup\<close>

text \<open>The eight bytes of \<open>uint64_t one = 1\<close> on a little-endian machine.\<close>

definition one_bytes :: string where
  "one_bytes = CHR 0x01 # replicate 7 (CHR 0x00)"

definition CreateEventFd :: "'k os \<Rightarrow> ('k, 'z) pstate_scheme \<Rightarrow> (fd \<times> ('k, 'z) pstate_scheme) res" where
  "CreateEventFd os s =
     (case sys_eventfd os (kern s) of
        (Inl e, k') \<Rightarrow> Inl ExitFailure
      | (Inr fd, k') \<Rightarrow> Inr (fd, s\<lparr>kern := k'\<rparr>))"

definition WakeUp :: "'k os \<Rightarrow> loop \<Rightarrow> ('k, 'z) lstate_scheme \<Rightarrow> ('k, 'z) lstate_scheme" where
  "WakeUp os l s = s\<lparr>kern := snd (sys_write os (el_wakeup_fd (evloops s l)) one_bytes (kern s))\<rparr>"

text \<open>\<open>EventLoop::HandleRead\<close>, the read callback of the wakeup channel.\<close>

definition Loop_HandleRead :: "'k os \<Rightarrow> loop \<Rightarrow> ('k, 'z) lstate_scheme \<Rightarrow> ('k, 'z) lstate_scheme" where
  "Loop_HandleRead os l s = s\<lparr>kern := snd (sys_read os (el_wakeup_fd (evloops s l)) 8 (kern s))\<rparr>"

subsection \<open>Construction and destruction\<close>

text \<open>
  \<open>l\<close> and \<open>wc\<close> are the addresses of the new loop and of its wakeup channel; \<open>use_poll\<close> says
  whether \<open>MUDUO_USE_POLL\<close> is set.
\<close>

definition EventLoop_ctor ::
  "bool \<Rightarrow> 'k os \<Rightarrow> tid \<Rightarrow> loop \<Rightarrow> chan \<Rightarrow> ('k, 'z) lstate_scheme \<Rightarrow> ('k, 'z) lstate_scheme res" where
  "EventLoop_ctor use_poll os t l wc s =
     bind_res (NewDefaultePoller use_poll os l s) (\<lambda>(has_poller, s).
     bind_res (CreateEventFd os s) (\<lambda>(fd, s).
       let s1 = upd_chan wc (\<lambda>_. Channel l fd) s;
           s2 = upd_loop l (\<lambda>_. \<lparr>el_looping = False, el_quit = False, el_calling = False,
                  el_thread_id = t, el_return_time = 0, el_wakeup_fd = fd,
                  el_wakeup_channel = wc, el_active = [], el_pending = []\<rparr>) s1
       in if thread_loop s2 t \<noteq> None then Inl ExitFailure
          else
            let s3 = s2\<lparr>thread_loop := (thread_loop s2)(t \<mapsto> l)\<rparr>;
                s4 = upd_chan wc (SetReadCallBack (LoopHandleRead l)) s3
            in if has_poller then EnableReading os wc s4 else Inl NullDeref))"

definition EventLoop_dtor ::
  "'k os \<Rightarrow> tid \<Rightarrow> loop \<Rightarrow> ('k, 'z) lstate_scheme \<Rightarrow> ('k, 'z) lstate_scheme res" where
  "EventLoop_dtor os t l s =
     (let wc = el_wakeup_channel (evloops s l) in
      bind_res (DisableAll os wc s) (\<lambda>s.
      bind_res (Channel_Remove os wc s) (\<lambda>s.
      Inr (s\<lparr>kern := sys_close os (el_wakeup_fd (evloops s l)) (kern s),
             thread_loop := (thread_loop s)(t := None)\<rparr>))))"

subsection \<open>Functors\<close>

definition IsInLoopThread :: "tid \<Rightarrow> loop \<Rightarrow> ('k, 'z) lstate_scheme \<Rightarrow> bool" where
  "IsInLoopThread t l s \<longleftrightarrow> el_thread_id (evloops s l) = t"

text \<open>The two critical sections under \<open>mtx_\<close>.\<close>

definition push_pending :: "task \<Rightarrow> event_loop \<Rightarrow> event_loop" where
  "push_pending f el = el\<lparr>el_pending := el_pending el @ [f]\<rparr>"

definition swap_pending :: "event_loop \<Rightarrow> task list \<times> event_loop" where
  "swap_pending el = (el_pending el, el\<lparr>el_pending := []\<rparr>)"

definition QueueInLoop ::
  "'k os \<Rightarrow> tid \<Rightarrow> loop \<Rightarrow> task \<Rightarrow> ('k, 'z) lstate_scheme \<Rightarrow> ('k, 'z) lstate_scheme" where
  "QueueInLoop os t l cb s =
     (let s1 = upd_loop l (push_pending cb) s in
      if \<not> IsInLoopThread t l s1 \<or> el_calling (evloops s1 l) then WakeUp os l s1 else s1)"

text \<open>\<open>run\<close> is the effect of calling the functor \<open>cb\<close> at once.\<close>

definition RunInLoop ::
  "'k os \<Rightarrow> tid \<Rightarrow> loop \<Rightarrow> task \<Rightarrow> (('k, 'z) lstate_scheme \<Rightarrow> ('k, 'z) lstate_scheme res) \<Rightarrow>
   ('k, 'z) lstate_scheme \<Rightarrow> ('k, 'z) lstate_scheme res" where
  "RunInLoop os t l cb run s =
     (if IsInLoopThread t l s then run s else Inr (QueueInLoop os t l cb s))"

definition Quit :: "'k os \<Rightarrow> tid \<Rightarrow> loop \<Rightarrow> ('k, 'z) lstate_scheme \<Rightarrow> ('k, 'z) lstate_scheme" where
  "Quit os t l s =
     (let s1 = upd_loop l (\<lambda>el. el\<lparr>el_quit := True\<rparr>) s in
      if \<not> IsInLoopThread t l s1 then WakeUp os l s1 else s1)"

definition DoPendingFunctors ::
  "(task \<Rightarrow> ('k, 'z) lstate_scheme \<Rightarrow> ('k, 'z) lstate_scheme res) \<Rightarrow> loop \<Rightarrow>
   ('k, 'z) lstate_scheme \<Rightarrow> ('k, 'z) lstate_scheme res" where
  "DoPendingFunctors exec l s =
     (let s1 = upd_loop l (\<lambda>el. el\<lparr>el_calling := True\<rparr>) s;
          functors = fst (swap_pending (evloops s1 l));
          s2 = upd_loop l (\<lambda>el. snd (swap_pending el)) s1
      in bind_res (foldR exec functors s2)
           (\<lambda>s3. Inr (upd_loop l (\<lambda>el. el\<lparr>el_calling := False\<rparr>) s3)))"

subsection \<open>The loop\<close>

definition loop_body ::
  "'k os \<Rightarrow> (chan \<Rightarrow> timestamp \<Rightarrow> ('k, 'z) lstate_scheme \<Rightarrow> ('k, 'z) lstate_scheme res) \<Rightarrow>
   (task \<Rightarrow> ('k, 'z) lstate_scheme \<Rightarrow> ('k, 'z) lstate_scheme res) \<Rightarrow> loop \<Rightarrow>
   ('k, 'z) lstate_scheme \<Rightarrow> ('k, 'z) lstate_scheme res" where
  "loop_body os handle exec l s =
     (let s1 = upd_loop l (\<lambda>el. el\<lparr>el_active := []\<rparr>) s;
          (now, active, s2) = Poll os l kPollTimeout (el_active (evloops s1 l)) s1;
          s3 = upd_loop l (\<lambda>el. el\<lparr>el_return_time := now, el_active := active\<rparr>) s2
      in bind_res (foldR (\<lambda>c. handle c now) active s3) (DoPendingFunctors exec l))"

text \<open>\<open>while (!quit)\<close>; \<open>None\<close> is a loop that is never left.\<close>

partial_function (option) while_not :: "('s \<Rightarrow> bool) \<Rightarrow> ('s \<Rightarrow> 's res) \<Rightarrow> 's \<Rightarrow> 's res option" where
  "while_not quit body s =
     (if quit s then Some (Inr s)
      else case body s of Inl e \<Rightarrow> Some (Inl e) | Inr s' \<Rightarrow> while_not quit body s')"

definition Loop ::
  "'k os \<Rightarrow> (chan \<Rightarrow> timestamp \<Rightarrow> ('k, 'z) lstate_scheme \<Rightarrow> ('k, 'z) lstate_scheme res) \<Rightarrow>
   (task \<Rightarrow> ('k, 'z) lstate_scheme \<Rightarrow> ('k, 'z) lstate_scheme res) \<Rightarrow> loop \<Rightarrow>
   ('k, 'z) lstate_scheme \<Rightarrow> ('k, 'z) lstate_scheme res option" where
  "Loop os handle exec l s =
     while_not (\<lambda>s. el_quit (evloops s l)) (loop_body os handle exec l)
       (upd_loop l (\<lambda>el. el\<lparr>el_looping := True, el_quit := False\<rparr>) s)"

subsection \<open>Forwarding to the poller\<close>

definition Loop_UpdateChannel ::
  "'k os \<Rightarrow> loop \<Rightarrow> chan \<Rightarrow> ('k, 'z) lstate_scheme \<Rightarrow> ('k, 'z) lstate_scheme res" where
  "Loop_UpdateChannel os l c s = UpdateChannel os l c s"

definition Loop_RemoveChannel ::
  "'k os \<Rightarrow> loop \<Rightarrow> chan \<Rightarrow> ('k, 'z) lstate_scheme \<Rightarrow> ('k, 'z) lstate_scheme res" where
  "Loop_RemoveChannel os l c s = RemoveChannel os l c s"

definition HasChennel :: "loop \<Rightarrow> chan \<Rightarrow> ('k, 'z) lstate_scheme \<Rightarrow> bool" where
  "HasChennel l c s = HasChannel l c s"

subsection \<open>The queue of functors\<close>

interpretation tq: task_queue el_pending push_pending swap_pending
  by unfold_locales (simp_all add: push_pending_def swap_pending_def)

end
