(* ===== verification/ByteQueue.thy ===== *)
theory ByteQueue
  imports Prelude
begin

text \<open>
  The interface between a byte buffer and the connection that sends through it: a queue
  of bytes with an append that may run out of room and a consume from the front. The
  client's stream law is proved here once, from the interface alone.
\<close>

locale byte_queue =
  fixes inv :: "'b \<Rightarrow> bool"
    and content :: "'b \<Rightarrow> 'a list"
    and fits :: "nat \<Rightarrow> 'b \<Rightarrow> bool"
    and put :: "'a list \<Rightarrow> 'b \<Rightarrow> 'b res"
    and drain :: "nat \<Rightarrow> 'b \<Rightarrow> 'b"
  assumes put_fits: "inv b \<Longrightarrow> fits (length xs) b \<Longrightarrow>
        \<exists>b'. put xs b = Inr b' \<and> inv b' \<and> content b' = content b @ xs"
    and put_overrun: "inv b \<Longrightarrow> \<not> fits (length xs) b \<Longrightarrow> put xs b = Inl HeapOverrun"
    and drain_inv: "inv b \<Longrightarrow> inv (drain n b)"
    and drain_content: "inv b \<Longrightarrow> content (drain n b) = drop n (content b)"

text \<open>A history of the buffer: bytes put in, and counts of bytes taken out.\<close>

datatype 'a queue_op = Put "'a list" | Drain nat

fun puts :: "'a queue_op list \<Rightarrow> 'a list" where
  "puts [] = []"
| "puts (Put xs # ops) = xs @ puts ops"
| "puts (Drain n # ops) = puts ops"

text \<open>The run returns the bytes taken out, in the order they left, and the final buffer.\<close>

fun run_queue ::
  "('b \<Rightarrow> 'a list) \<Rightarrow> ('a list \<Rightarrow> 'b \<Rightarrow> 'b res) \<Rightarrow> (nat \<Rightarrow> 'b \<Rightarrow> 'b) \<Rightarrow>
   'a queue_op list \<Rightarrow> 'b \<Rightarrow> ('a list \<times> 'b) res" where
  "run_queue content put drain [] b = Inr ([], b)"
| "run_queue content put drain (Put xs # ops) b =
     bind_res (put xs b) (run_queue content put drain ops)"
| "run_queue content put drain (Drain n # ops) b =
     bind_res (run_queue content put drain ops (drain n b))
       (\<lambda>(out, b'). Inr (take n (content b) @ out, b'))"

context byte_queue
begin

lemma put_Inr:
  assumes "inv b" "put xs b = Inr b'"
  shows "fits (length xs) b" "inv b'" "content b' = content b @ xs"
  using assms put_fits [of b xs] put_overrun [of b xs] by (cases "fits (length xs) b"; force)+

lemma put_iff: "inv b \<Longrightarrow> (\<exists>b'. put xs b = Inr b') \<longleftrightarrow> fits (length xs) b"
  using put_fits put_Inr(1) by blast

lemma run_queue_stream:
  assumes "inv b" "run_queue content put drain ops b = Inr (out, b')"
  shows "inv b' \<and> out @ content b' = content b @ puts ops"
  using assms
proof (induction ops arbitrary: b out)
  case (Cons op ops)
  show ?case
  proof (cases op)
    case (Put xs)
    with Cons.prems obtain b1 where b1: "put xs b = Inr b1"
      and rest: "run_queue content put drain ops b1 = Inr (out, b')"
      by (auto simp: bind_res_Inr)
    with Cons.prems Cons.IH [of b1 out] Put put_Inr [of b xs b1] show ?thesis by simp
  next
    case (Drain n)
    with Cons.prems obtain out1 where
      rest: "run_queue content put drain ops (drain n b) = Inr (out1, b')"
      and out: "out = take n (content b) @ out1"
      by (auto simp: bind_res_Inr)
    have "inv b' \<and> out1 @ content b' = drop n (content b) @ puts ops"
      using Cons.IH [OF _ rest] Cons.prems(1) drain_inv drain_content by simp
    then show ?thesis using out Drain by simp
  qed
qed simp

end

end
