(* ===== verification/MBuffer.thy ===== *)
theory MBuffer
  imports Syscalls ByteQueue
begin

text \<open>
  The byte buffer of every connection: \<open>server/include/m_buffer.h\<close> and
  \<open>server/src/m_buffer.cpp\<close>. The vector \<open>buf_\<close> is a list of bytes, the two indices are
  naturals, \<open>buffer_content\<close> is the readable region, and a write past the end of the
  vector is the fault \<open>HeapOverrun\<close>.
\<close>

subsection \<open>State and operations\<close>

record buffer =
  buf :: "char list"
  reader_index :: nat
  writer_index :: nat

definition kCheapPrepend :: nat where "kCheapPrepend = 8"

definition kInitialSize :: nat where "kInitialSize = 1024"

definition Buffer :: "nat \<Rightarrow> buffer" where
  "Buffer initial_size =
     \<lparr>buf = replicate (kCheapPrepend + initial_size) (CHR 0x00),
      reader_index = kCheapPrepend, writer_index = kCheapPrepend\<rparr>"

definition ReadeableBytes :: "buffer \<Rightarrow> nat" where
  "ReadeableBytes b = writer_index b - reader_index b"

definition WriteAbleBytes :: "buffer \<Rightarrow> nat" where
  "WriteAbleBytes b = length (buf b) - writer_index b"

definition PrependableBytes :: "buffer \<Rightarrow> nat" where
  "PrependableBytes b = reader_index b"

text \<open>\<open>Peek()\<close> is a pointer to the byte at \<open>reader_index_\<close>: here the bytes from there on.\<close>

definition Peek :: "buffer \<Rightarrow> char list" where
  "Peek b = drop (reader_index b) (buf b)"

definition RetriveAll :: "buffer \<Rightarrow> buffer" where
  "RetriveAll b = b\<lparr>reader_index := kCheapPrepend, writer_index := kCheapPrepend\<rparr>"

definition Retrive :: "nat \<Rightarrow> buffer \<Rightarrow> buffer" where
  "Retrive len b =
     (if len < ReadeableBytes b then b\<lparr>reader_index := reader_index b + len\<rparr>
      else RetriveAll b)"

text \<open>\<open>std::string(Peek(), len)\<close>, evaluated after \<open>Retrive(len)\<close> as in the source.\<close>

definition RetriveAsString :: "nat \<Rightarrow> buffer \<Rightarrow> (string \<times> buffer) res" where
  "RetriveAsString len b =
     (let b1 = Retrive len b in
      if len \<le> length (Peek b1) then Inr (take len (Peek b1), b1) else Inl HeapOverread)"

definition RetriveAllAsString :: "buffer \<Rightarrow> (string \<times> buffer) res" where
  "RetriveAllAsString b = RetriveAsString (ReadeableBytes b) b"

definition EnsureWriteableBytes :: "nat \<Rightarrow> buffer \<Rightarrow> buffer" where
  "EnsureWriteableBytes len b =
     (if PrependableBytes b + WriteAbleBytes b < len
      then b\<lparr>buf := vec_resize (writer_index b + len) (CHR 0x00) (buf b)\<rparr>
      else
        let readable = ReadeableBytes b in
        b\<lparr>buf := write_at kCheapPrepend (segment (reader_index b) (writer_index b) (buf b)) (buf b),
          reader_index := kCheapPrepend,
          writer_index := kCheapPrepend + readable\<rparr>)"

definition Append :: "string \<Rightarrow> buffer \<Rightarrow> buffer res" where
  "Append data b =
     (let len = length data; b1 = EnsureWriteableBytes len b in
      if writer_index b1 + len \<le> length (buf b1)
      then Inr (b1\<lparr>buf := write_at (writer_index b1) data (buf b1),
                   writer_index := writer_index b1 + len\<rparr>)
      else Inl HeapOverrun)"

text \<open>
  \<open>ReadFd\<close>: one \<open>readv\<close> into the writable region and a 64k stack buffer; what lands in the
  latter is appended. The result is \<open>readv\<close>'s: the byte count, or the errno that the code
  stores in \<open>save_errno\<close> when the count is negative.
\<close>

definition extra_buf_size :: nat where "extra_buf_size = 65536"

definition readv_lens :: "buffer \<Rightarrow> nat list" where
  "readv_lens b =
     (if WriteAbleBytes b < extra_buf_size then [WriteAbleBytes b, extra_buf_size]
      else [WriteAbleBytes b])"

definition ReadFd ::
  "'k os \<Rightarrow> fd \<Rightarrow> buffer \<Rightarrow> 'k \<Rightarrow> ((errno + nat) \<times> buffer \<times> 'k) res" where
  "ReadFd os fd b k =
     (let writerable = WriteAbleBytes b in
      case sys_readv os fd (readv_lens b) k of
        (Inl e, k') \<Rightarrow> Inr (Inl e, b, k')
      | (Inr bytes, k') \<Rightarrow>
          let n = length bytes;
              b1 = b\<lparr>buf := write_at (writer_index b) (take writerable bytes) (buf b)\<rparr>
          in if n \<le> writerable
             then Inr (Inr n, b1\<lparr>writer_index := writer_index b1 + n\<rparr>, k')
             else bind_res (Append (drop writerable bytes) (b1\<lparr>writer_index := length (buf b1)\<rparr>))
                    (\<lambda>b2. Inr (Inr n, b2, k')))"

definition WriteFd :: "'k os \<Rightarrow> fd \<Rightarrow> buffer \<Rightarrow> 'k \<Rightarrow> (errno + nat) \<times> 'k" where
  "WriteFd os fd b k = sys_write os fd (take (ReadeableBytes b) (Peek b)) k"

subsection \<open>Invariant and abstraction\<close>

definition buffer_inv :: "buffer \<Rightarrow> bool" where
  "buffer_inv b \<longleftrightarrow>
     kCheapPrepend \<le> reader_index b \<and> reader_index b \<le> writer_index b \<and>
     writer_index b \<le> length (buf b)"

definition buffer_content :: "buffer \<Rightarrow> string" where
  "buffer_content b = segment (reader_index b) (writer_index b) (buf b)"

text \<open>The lengths \<open>Append\<close> has room for, as the code decides it.\<close>

definition append_fits :: "nat \<Rightarrow> buffer \<Rightarrow> bool" where
  "append_fits n b \<longleftrightarrow>
     PrependableBytes b + WriteAbleBytes b < n \<or>
     n + kCheapPrepend \<le> PrependableBytes b + WriteAbleBytes b"

lemmas buffer_sizes = ReadeableBytes_def WriteAbleBytes_def PrependableBytes_def

lemma length_content [simp]: "buffer_inv b \<Longrightarrow> length (buffer_content b) = ReadeableBytes b"
  by (auto simp: buffer_inv_def buffer_content_def buffer_sizes)

lemma content_empty_iff: "buffer_inv b \<Longrightarrow> ReadeableBytes b = 0 \<longleftrightarrow> buffer_content b = []"
  by (metis length_0_conv length_content)

lemma take_Peek: "buffer_inv b \<Longrightarrow> take (ReadeableBytes b) (Peek b) = buffer_content b"
  by (simp add: Peek_def buffer_content_def segment_def buffer_sizes)

lemma WriteFd_content:
  "buffer_inv b \<Longrightarrow> WriteFd os fd b k = sys_write os fd (buffer_content b) k"
  by (simp add: WriteFd_def take_Peek)

lemma Buffer_inv [simp]: "buffer_inv (Buffer n)"
  by (simp add: buffer_inv_def Buffer_def)

lemma Buffer_content [simp]: "buffer_content (Buffer n) = []"
  by (simp add: buffer_content_def Buffer_def)

lemma Buffer_sizes:
  "PrependableBytes (Buffer n) = kCheapPrepend" "WriteAbleBytes (Buffer n) = n"
  "length (buf (Buffer n)) = kCheapPrepend + n" "reader_index (Buffer n) = kCheapPrepend"
  "ReadeableBytes (Buffer n) = 0"
  by (simp_all add: Buffer_def buffer_sizes)

lemma RetriveAll_inv: "buffer_inv b \<Longrightarrow> buffer_inv (RetriveAll b)"
  by (simp add: buffer_inv_def RetriveAll_def)

lemma RetriveAll_content [simp]: "buffer_content (RetriveAll b) = []"
  by (simp add: buffer_content_def RetriveAll_def)

lemma Retrive_inv: "buffer_inv b \<Longrightarrow> buffer_inv (Retrive n b)"
  by (auto simp: Retrive_def RetriveAll_inv) (auto simp: buffer_inv_def buffer_sizes)

lemma Retrive_content:
  assumes "buffer_inv b"
  shows "buffer_content (Retrive n b) = drop n (buffer_content b)"
proof (cases "n < ReadeableBytes b")
  case True
  then have "reader_index b + n \<le> writer_index b" by (simp add: buffer_sizes)
  with True show ?thesis by (simp add: Retrive_def buffer_content_def drop_segment)
next
  case False
  with assms show ?thesis by (simp add: Retrive_def)
qed

subsection \<open>Room for an append\<close>

lemma EnsureWriteableBytes_inv: "buffer_inv b \<Longrightarrow> buffer_inv (EnsureWriteableBytes n b)"
  by (auto simp: EnsureWriteableBytes_def buffer_inv_def buffer_sizes Let_def)

lemma EnsureWriteableBytes_content:
  assumes "buffer_inv b"
  shows "buffer_content (EnsureWriteableBytes n b) = buffer_content b"
proof (cases "PrependableBytes b + WriteAbleBytes b < n")
  case True
  with assms show ?thesis
    by (simp add: EnsureWriteableBytes_def buffer_content_def buffer_inv_def buffer_sizes
        segment_vec_resize)
next
  case False
  from assms have len: "length (buffer_content b) = writer_index b - reader_index b"
    and "kCheapPrepend + length (buffer_content b) \<le> length (buf b)"
    by (auto simp: buffer_content_def buffer_inv_def)
  then have "segment kCheapPrepend (kCheapPrepend + length (buffer_content b))
       (write_at kCheapPrepend (buffer_content b) (buf b)) = buffer_content b"
    by (intro segment_write_at_same)
  with False show ?thesis
    unfolding len by (simp add: EnsureWriteableBytes_def buffer_content_def buffer_sizes Let_def)
qed

lemma EnsureWriteableBytes_room:
  assumes "buffer_inv b"
  shows "n \<le> WriteAbleBytes (EnsureWriteableBytes n b) \<longleftrightarrow> append_fits n b"
  using assms
  by (auto simp: EnsureWriteableBytes_def append_fits_def buffer_inv_def buffer_sizes Let_def)

lemma write_at_writer:
  assumes "buffer_inv b" "length xs \<le> WriteAbleBytes b"
  defines "b' \<equiv> b\<lparr>buf := write_at (writer_index b) xs (buf b),
                 writer_index := writer_index b + length xs\<rparr>"
  shows "buffer_inv b'" "buffer_content b' = buffer_content b @ xs"
proof -
  from assms have room: "writer_index b + length xs \<le> length (buf b)"
    and ord: "reader_index b \<le> writer_index b"
    by (auto simp: buffer_inv_def buffer_sizes)
  with assms show "buffer_inv b'" by (simp add: buffer_inv_def)
  have "buffer_content b' =
      segment (reader_index b) (writer_index b) (buf b') @
      segment (writer_index b) (writer_index b + length xs) (buf b')"
    using segment_split [OF ord, of "writer_index b + length xs" "buf b'"]
    by (simp add: buffer_content_def b'_def)
  with room show "buffer_content b' = buffer_content b @ xs"
    by (simp add: b'_def segment_write_at_below segment_write_at_same buffer_content_def)
qed

lemma Append_fits:
  assumes "buffer_inv b" "append_fits (length xs) b"
  shows "\<exists>b'. Append xs b = Inr b' \<and> buffer_inv b' \<and> buffer_content b' = buffer_content b @ xs"
proof -
  define b1 where "b1 = EnsureWriteableBytes (length xs) b"
  have inv: "buffer_inv b1" and content: "buffer_content b1 = buffer_content b"
    using assms(1) by (simp_all add: b1_def EnsureWriteableBytes_inv EnsureWriteableBytes_content)
  have room: "length xs \<le> WriteAbleBytes b1"
    using assms by (simp add: b1_def EnsureWriteableBytes_room)
  with inv have "writer_index b1 + length xs \<le> length (buf b1)"
    by (auto simp: buffer_inv_def buffer_sizes)
  then show ?thesis
    using write_at_writer [OF inv room] content by (simp add: Append_def b1_def Let_def)
qed

lemma Append_overrun:
  assumes "buffer_inv b" "\<not> append_fits (length xs) b"
  shows "Append xs b = Inl HeapOverrun"
proof -
  have "buffer_inv (EnsureWriteableBytes (length xs) b)"
    using assms(1) by (rule EnsureWriteableBytes_inv)
  with assms EnsureWriteableBytes_room [OF assms(1), of "length xs"] show ?thesis
    by (auto simp: Append_def Let_def buffer_inv_def buffer_sizes)
qed

interpretation bq: byte_queue buffer_inv buffer_content append_fits Append Retrive
  by unfold_locales (simp_all add: Append_fits Append_overrun Retrive_inv Retrive_content)

lemmas Append_Inr = bq.put_Inr

lemma Append_iff: "buffer_inv b \<Longrightarrow> (\<exists>b'. Append xs b = Inr b') \<longleftrightarrow> append_fits (length xs) b"
  by (rule bq.put_iff)

lemma Append_reader:
  assumes "Append xs b = Inr b'" "reader_index b = kCheapPrepend"
  shows "reader_index b' = kCheapPrepend"
  using assms by (auto simp: Append_def EnsureWriteableBytes_def Let_def split: if_splits)

lemma Append_size:
  assumes "Append xs b = Inr b'" "buffer_inv b"
  shows "length (buf b) \<le> length (buf b')"
  using assms
  by (auto simp: Append_def EnsureWriteableBytes_def buffer_inv_def buffer_sizes Let_def
      split: if_splits)

lemma Retrive_size [simp]: "length (buf (Retrive n b)) = length (buf b)"
  by (simp add: Retrive_def RetriveAll_def)

text \<open>Within the capacity of the vector an append always fits.\<close>

lemma append_fits_capacity:
  assumes "buffer_inv b" "length (buffer_content b) + n + kCheapPrepend \<le> length (buf b)"
  shows "append_fits n b"
  using assms by (auto simp: append_fits_def buffer_inv_def buffer_sizes)

lemma run_queue_capacity:
  assumes "buffer_inv b"
    and "length (buffer_content b) + length (puts ops) + kCheapPrepend \<le> length (buf b)"
  shows "\<exists>out b'. run_queue buffer_content Append Retrive ops b = Inr (out, b')"
  using assms
proof (induction ops arbitrary: b)
  case (Cons op ops)
  show ?case
  proof (cases op)
    case (Put xs)
    with Cons.prems have "append_fits (length xs) b"
      by (intro append_fits_capacity) simp_all
    with Cons.prems(1) obtain b1 where b1: "Append xs b = Inr b1"
      and step: "buffer_inv b1" "buffer_content b1 = buffer_content b @ xs"
      using Append_fits by blast
    have "length (buf b) \<le> length (buf b1)" using b1 Cons.prems(1) by (rule Append_size)
    with Cons.prems(2) step Put
    have "length (buffer_content b1) + length (puts ops) + kCheapPrepend \<le> length (buf b1)"
      by (simp del: length_content)
    with Cons.IH [OF step(1)] Put b1 show ?thesis by simp
  next
    case (Drain n)
    with Cons.prems
    have "length (buffer_content (Retrive n b)) + length (puts ops) + kCheapPrepend
            \<le> length (buf (Retrive n b))"
      by (simp add: Retrive_content del: length_content)
    with Cons.IH [of "Retrive n b"] Cons.prems Drain show ?thesis
      by (auto simp: Retrive_inv)
  qed
qed simp

subsection \<open>Reading from a descriptor\<close>

lemma ReadFd_error: "sys_readv os fd (readv_lens b) k = (Inl e, k') \<Longrightarrow> ReadFd os fd b k = Inr (Inl e, b, k')"
  by (simp add: ReadFd_def)

text \<open>
  \<open>readv\<close> fills the vector first; with it full, \<open>Append\<close> sees no writable byte, so it has
  room for the rest exactly when the rest is longer than the prependable area or at least
  \<open>kCheapPrepend\<close> shorter.
\<close>

definition read_fits :: "nat \<Rightarrow> buffer \<Rightarrow> bool" where
  "read_fits n b \<longleftrightarrow>
     n \<le> WriteAbleBytes b \<or>
     PrependableBytes b < n - WriteAbleBytes b \<or>
     n - WriteAbleBytes b + kCheapPrepend \<le> PrependableBytes b"

lemma ReadFd_bytes:
  assumes inv: "buffer_inv b" and rv: "sys_readv os fd (readv_lens b) k = (Inr bytes, k')"
  shows "if read_fits (length bytes) b
         then \<exists>b'. ReadFd os fd b k = Inr (Inr (length bytes), b', k') \<and> buffer_inv b' \<and>
                   buffer_content b' = buffer_content b @ bytes \<and>
                   (reader_index b = kCheapPrepend \<longrightarrow> reader_index b' = kCheapPrepend)
         else ReadFd os fd b k = Inl HeapOverrun"
proof (cases "length bytes \<le> WriteAbleBytes b")
  case True
  with inv rv show ?thesis
    using write_at_writer [OF inv True] by (simp add: ReadFd_def read_fits_def Let_def)
next
  case False
  let ?w = "WriteAbleBytes b"
  let ?b1 = "b\<lparr>buf := write_at (writer_index b) (take ?w bytes) (buf b),
                writer_index := length (buf b)\<rparr>"
  have room: "writer_index b + ?w = length (buf b)"
    using inv by (simp add: buffer_inv_def buffer_sizes)
  have len: "length (take ?w bytes) = ?w" using False by simp
  have b1: "buffer_inv ?b1" "buffer_content ?b1 = buffer_content b @ take ?w bytes"
    using write_at_writer [OF inv, of "take ?w bytes"] room len by simp_all
  have fits: "append_fits (length (drop ?w bytes)) ?b1 \<longleftrightarrow> read_fits (length bytes) b"
    using False room len by (simp add: append_fits_def read_fits_def buffer_sizes)
  have read: "ReadFd os fd b k =
      bind_res (Append (drop ?w bytes) ?b1) (\<lambda>b2. Inr (Inr (length bytes), b2, k'))"
    using rv False room len by (simp add: ReadFd_def Let_def)
  show ?thesis
  proof (cases "read_fits (length bytes) b")
    case True
    with fits b1(1) obtain b2 where b2: "Append (drop ?w bytes) ?b1 = Inr b2"
      and "buffer_inv b2" "buffer_content b2 = buffer_content ?b1 @ drop ?w bytes"
      using Append_fits by blast
    with b1 read True Append_reader [OF b2] show ?thesis by simp
  next
    case False
    with fits b1(1) read show ?thesis by (simp add: Append_overrun)
  qed
qed

subsection \<open>Retrieving as a string\<close>

lemma RetriveAllAsString_whole:
  assumes "buffer_inv b" "reader_index b = kCheapPrepend"
  shows "RetriveAllAsString b = Inr (buffer_content b, RetriveAll b)"
  using assms
  by (auto simp: RetriveAllAsString_def RetriveAsString_def Retrive_def RetriveAll_def Peek_def
      buffer_content_def segment_def buffer_inv_def buffer_sizes Let_def)

lemma RetriveAll_reader [simp]: "reader_index (RetriveAll b) = kCheapPrepend"
  by (simp add: RetriveAll_def)

end
