(* ===== verification/Socket.thy ===== *)
theory Socket
  imports Syscalls
begin

text \<open>
  \<open>server/include/m_socket.h\<close>, \<open>server/src/m_socket.cpp\<close>, \<open>server/include/address.h\<close> and
  \<open>server/src/address.cpp\<close>. A socket is its descriptor; its methods act on the kernel. The
  address conversions of the C library (\<open>inet_addr\<close>, \<open>inet_ntop\<close>, \<open>htons\<close>, \<open>ntohs\<close>) are
  the parameter \<open>net\<close>.
\<close>

subsection \<open>Sockets\<close>

definition Socket_dtor :: "'k os \<Rightarrow> fd \<Rightarrow> 'k \<Rightarrow> 'k" where
  "Socket_dtor os fd k = sys_close os fd k"

definition BindAddress :: "'k os \<Rightarrow> fd \<Rightarrow> sockaddr_in \<Rightarrow> 'k \<Rightarrow> 'k res" where
  "BindAddress os fd addr k =
     (let (r, k') = sys_bind os fd addr k in if r \<noteq> 0 then Inl ExitFailure else Inr k')"

definition Socket_Listen :: "'k os \<Rightarrow> fd \<Rightarrow> 'k \<Rightarrow> 'k res" where
  "Socket_Listen os fd k =
     (let (r, k') = sys_listen os fd 1024 k in if r \<noteq> 0 then Inl ExitFailure else Inr k')"

text \<open>\<open>Accept\<close>: the descriptor or the errno, and the peer address, set only on success.\<close>

definition Accept :: "'k os \<Rightarrow> fd \<Rightarrow> sockaddr_in \<Rightarrow> 'k \<Rightarrow> (errno + fd) \<times> sockaddr_in \<times> 'k" where
  "Accept os fd peeraddr k =
     (case sys_accept4 os fd k of
        (Inr (connect_fd, addr), k') \<Rightarrow> (Inr connect_fd, addr, k')
      | (Inl e, k') \<Rightarrow> (Inl e, peeraddr, k'))"

definition ShutdownWrite :: "'k os \<Rightarrow> fd \<Rightarrow> 'k \<Rightarrow> 'k" where
  "ShutdownWrite os fd k = snd (sys_shutdown os fd SHUT_RD k)"

definition SetTcpNoDelay :: "'k os \<Rightarrow> fd \<Rightarrow> bool \<Rightarrow> 'k \<Rightarrow> 'k" where
  "SetTcpNoDelay os fd on k = snd (sys_setsockopt os fd TCP_NODELAY (if on then 1 else 0) k)"

definition SetReuseAddr :: "'k os \<Rightarrow> fd \<Rightarrow> bool \<Rightarrow> 'k \<Rightarrow> 'k" where
  "SetReuseAddr os fd on k = snd (sys_setsockopt os fd SO_REUSEADDR (if on then 1 else 0) k)"

definition SetReusePort :: "'k os \<Rightarrow> fd \<Rightarrow> bool \<Rightarrow> 'k \<Rightarrow> 'k" where
  "SetReusePort os fd on k = snd (sys_setsockopt os fd SO_REUSEPORT (if on then 1 else 0) k)"

definition SetKeepAlive :: "'k os \<Rightarrow> fd \<Rightarrow> bool \<Rightarrow> 'k \<Rightarrow> 'k" where
  "SetKeepAlive os fd on k = snd (sys_setsockopt os fd SO_KEEPALIVE (if on then 1 else 0) k)"

subsection \<open>Addresses\<close>

record net_lib =
  inet_addr :: "string \<Rightarrow> 32 word"
  inet_ntop :: "32 word \<Rightarrow> string"
  htons :: "16 word \<Rightarrow> 16 word"
  ntohs :: "16 word \<Rightarrow> 16 word"

definition AF_INET :: nat where "AF_INET = 2"

definition SetAddress :: "net_lib \<Rightarrow> 16 word \<Rightarrow> string \<Rightarrow> sockaddr_in" where
  "SetAddress net port ip =
     \<lparr>sin_family = AF_INET, sin_port = htons net port, sin_addr = inet_addr net ip\<rparr>"

definition ToIp :: "net_lib \<Rightarrow> sockaddr_in \<Rightarrow> string" where
  "ToIp net addr = inet_ntop net (sin_addr addr)"

text \<open>Decimal digits, as \<open>%u\<close> and \<open>%d\<close> print a non-negative number.\<close>

fun decimal :: "nat \<Rightarrow> string" where
  "decimal n = (if n < 10 then [char_of (48 + n)]
                else decimal (n div 10) @ [char_of (48 + n mod 10)])"

definition ToIpPort :: "net_lib \<Rightarrow> sockaddr_in \<Rightarrow> string" where
  "ToIpPort net addr =
     inet_ntop net (sin_addr addr) @ '':'' @ decimal (unat (ntohs net (sin_port addr)))"

definition ToPort :: "net_lib \<Rightarrow> sockaddr_in \<Rightarrow> 16 word" where
  "ToPort net addr = ntohs net (sin_port addr)"

declare decimal.simps [simp del]

text \<open>Decimal printing is injective: reading the digits back gives the number.\<close>

definition undecimal :: "string \<Rightarrow> nat" where
  "undecimal ds = foldl (\<lambda>n d. 10 * n + (of_char d - 48)) 0 ds"

lemma undecimal_snoc [simp]: "undecimal (ds @ [d]) = 10 * undecimal ds + (of_char d - 48)"
  by (simp add: undecimal_def)

lemma undecimal_decimal [simp]: "undecimal (decimal n) = n"
proof (induction n rule: decimal.induct)
  case (1 n)
  show ?case
  proof (cases "n < 10")
    case True
    then show ?thesis by (subst decimal.simps) (simp add: undecimal_def)
  next
    case False
    with 1 show ?thesis by (subst decimal.simps) simp
  qed
qed

lemma decimal_inject [simp]: "decimal m = decimal n \<longleftrightarrow> m = n"
  by (metis undecimal_decimal)

lemma decimal_digits: "d \<in> set (decimal n) \<Longrightarrow> 48 \<le> (of_char d :: nat) \<and> (of_char d :: nat) \<le> 57"
proof (induction n rule: decimal.induct)
  case (1 n)
  then show ?case by (subst (asm) (2) decimal.simps) (auto split: if_splits)
qed

lemma hash_not_digit: "CHR ''#'' \<notin> set (decimal n)"
  using decimal_digits [of "CHR ''#''" n] by auto

end
