(* ===== verification/TcpConnection.thy ===== *)
theory TcpConnection
  imports EventLoop MBuffer Socket
begin

text \<open>
  \<open>server/include/tcp_connection.h\<close> and \<open>server/src/tcp_connection.cpp\<close>: one TCP
  connection, its buffers and its life cycle. The state adds a store of connections to the
  loops. The callbacks a connection calls are given their meaning by the argument \<open>call\<close>
  (or \<open>call_msg\<close>); log lines are left out.
\<close>

subsection \<open>State\<close>

datatype conn_state = kDisconnected | kConnecting | kConnected | kDisconnecting

record tcp_connection =
  tc_loop :: loop
  tc_name :: string
  tc_state :: conn_state
  tc_reading :: bool
  tc_fd :: fd
  tc_channel :: chan
  tc_local_addr :: sockaddr_in
  tc_peer_addr :: sockaddr_in
  tc_conn_cb :: "conn_fn option"
  tc_msg_cb :: "msg_fn option"
  tc_write_complete_cb :: "conn_fn option"
  tc_high_water_mark_cb :: "hwm_fn option"
  tc_close_cb :: "conn_fn option"
  tc_high_water_mark :: nat
  tc_input :: buffer
  tc_output :: buffer

record 'k cstate = "'k lstate" +
  conns :: "conn \<Rightarrow> tcp_connection"

definition upd_conn ::
  "conn \<Rightarrow> (tcp_connection \<Rightarrow> tcp_connection) \<Rightarrow> ('k, 'z) cstate_scheme \<Rightarrow> ('k, 'z) cstate_scheme" where
  "upd_conn c f s = s\<lparr>conns := (conns s)(c := f (conns s c))\<rparr>"

lemma upd_conn_simps [simp]:
  "kern (upd_conn c f s) = kern s" "chans (upd_conn c f s) = chans s"
  "pollers (upd_conn c f s) = pollers s" "evloops (upd_conn c f s) = evloops s"
  "thread_loop (upd_conn c f s) = thread_loop s" "fresh_loop (upd_conn c f s) = fresh_loop s"
  "fresh_chan (upd_conn c f s) = fresh_chan s" "fresh_tid (upd_conn c f s) = fresh_tid s"
  "conns (upd_conn c f s) = (conns s)(c := f (conns s c))"
  "cstate.more (upd_conn c f s) = cstate.more s"
  by (simp_all add: upd_conn_def)

definition IsConnected :: "conn \<Rightarrow> ('k, 'z) cstate_scheme \<Rightarrow> bool" where
  "IsConnected c s \<longleftrightarrow> tc_state (conns s c) = kConnected"

definition set_state :: "conn_state \<Rightarrow> conn \<Rightarrow> ('k, 'z) cstate_scheme \<Rightarrow> ('k, 'z) cstate_scheme" where
  "set_state st c s = upd_conn c (\<lambda>tc. tc\<lparr>tc_state := st\<rparr>) s"

text \<open>The callbacks are set by the owner before the connection is established.\<close>

definition set_connection_cb :: "conn_fn option \<Rightarrow> tcp_connection \<Rightarrow> tcp_connection" where
  [simp]: "set_connection_cb cb tc = tc\<lparr>tc_conn_cb := cb\<rparr>"

definition set_msg_cb :: "msg_fn option \<Rightarrow> tcp_connection \<Rightarrow> tcp_connection" where
  [simp]: "set_msg_cb cb tc = tc\<lparr>tc_msg_cb := cb\<rparr>"

definition set_write_complete_cb :: "conn_fn option \<Rightarrow> tcp_connection \<Rightarrow> tcp_connection" where
  [simp]: "set_write_complete_cb cb tc = tc\<lparr>tc_write_complete_cb := cb\<rparr>"

definition set_high_water_mark_cb :: "hwm_fn option \<Rightarrow> tcp_connection \<Rightarrow> tcp_connection" where
  [simp]: "set_high_water_mark_cb cb tc = tc\<lparr>tc_high_water_mark_cb := cb\<rparr>"

definition set_close_cb :: "conn_fn option \<Rightarrow> tcp_connection \<Rightarrow> tcp_connection" where
  [simp]: "set_close_cb cb tc = tc\<lparr>tc_close_cb := cb\<rparr>"

abbreviation conn_channel :: "('k, 'z) cstate_scheme \<Rightarrow> conn \<Rightarrow> channel" where
  "conn_channel s c \<equiv> chans s (tc_channel (conns s c))"

subsection \<open>Construction and destruction\<close>

definition high_water_mark_default :: nat where
  "high_water_mark_default = 64 * 1024 * 1024"

definition CheckLoopNotNull :: "loop option \<Rightarrow> loop res" where
  "CheckLoopNotNull l = (case l of None \<Rightarrow> Inl ExitFailure | Some l \<Rightarrow> Inr l)"

text \<open>\<open>c\<close> and \<open>ch\<close> are the addresses of the new connection and of its channel.\<close>

definition TcpConnection_ctor ::
  "'k os \<Rightarrow> loop option \<Rightarrow> string \<Rightarrow> fd \<Rightarrow> sockaddr_in \<Rightarrow> sockaddr_in \<Rightarrow> conn \<Rightarrow> chan \<Rightarrow>
   ('k, 'z) cstate_scheme \<Rightarrow> ('k, 'z) cstate_scheme res" where
  "TcpConnection_ctor os lp name sockfd local_addr peer_addr c ch s =
     bind_res (CheckLoopNotNull lp) (\<lambda>l.
       let s1 = upd_chan ch (\<lambda>_. SetErrorCallBack (ConnHandleError c) (SetCloseCallBack (ConnHandleClose c)
                  (SetWriteCallBack (ConnHandleWrite c) (SetReadCallBack (ConnHandleRead c)
                    (Channel l sockfd))))) s;
           s2 = upd_conn c (\<lambda>_. \<lparr>tc_loop = l, tc_name = name, tc_state = kConnecting,
                  tc_reading = True, tc_fd = sockfd, tc_channel = ch,
                  tc_local_addr = local_addr, tc_peer_addr = peer_addr,
                  tc_conn_cb = None, tc_msg_cb = None, tc_write_complete_cb = None,
                  tc_high_water_mark_cb = None, tc_close_cb = None,
                  tc_high_water_mark = high_water_mark_default,
                  tc_input = Buffer kInitialSize, tc_output = Buffer kInitialSize\<rparr>) s1
       in Inr (s2\<lparr>kern := SetKeepAlive os sockfd True (kern s2)\<rparr>))"

text \<open>The destructor logs; then the members go, the socket closing its descriptor.\<close>

definition TcpConnection_dtor :: "'k os \<Rightarrow> conn \<Rightarrow> ('k, 'z) cstate_scheme \<Rightarrow> ('k, 'z) cstate_scheme" where
  "TcpConnection_dtor os c s = s\<lparr>kern := Socket_dtor os (tc_fd (conns s c)) (kern s)\<rparr>"

subsection \<open>Callbacks\<close>

text \<open>Calling an empty \<open>std::function\<close> throws \<open>std::bad_function_call\<close>.\<close>

definition call_conn_fn ::
  "(conn_fn \<Rightarrow> conn \<Rightarrow> 's \<Rightarrow> 's res) \<Rightarrow> conn_fn option \<Rightarrow> conn \<Rightarrow> 's \<Rightarrow> 's res" where
  "call_conn_fn call f c s = (case f of None \<Rightarrow> Inl BadFunctionCall | Some g \<Rightarrow> call g c s)"

definition call_msg_fn ::
  "(msg_fn \<Rightarrow> conn \<Rightarrow> timestamp \<Rightarrow> 's \<Rightarrow> 's res) \<Rightarrow> msg_fn option \<Rightarrow> conn \<Rightarrow> timestamp \<Rightarrow> 's \<Rightarrow> 's res" where
  "call_msg_fn call f c now s = (case f of None \<Rightarrow> Inl BadFunctionCall | Some g \<Rightarrow> call g c now s)"

definition queue_write_complete ::
  "'k os \<Rightarrow> tid \<Rightarrow> conn \<Rightarrow> ('k, 'z) cstate_scheme \<Rightarrow> ('k, 'z) cstate_scheme" where
  "queue_write_complete os t c s =
     (case tc_write_complete_cb (conns s c) of
        None \<Rightarrow> s
      | Some f \<Rightarrow> QueueInLoop os t (tc_loop (conns s c)) (BindConnFn f c) s)"

subsection \<open>Sending\<close>

text \<open>
  The first half of \<open>SendInLoop\<close>: with nothing queued the data goes straight to the socket.
  The result is \<open>nwrote\<close>, \<open>remaining\<close>, \<open>fault_error\<close> and the state.
\<close>

definition send_direct ::
  "'k os \<Rightarrow> tid \<Rightarrow> conn \<Rightarrow> string \<Rightarrow> ('k, 'z) cstate_scheme \<Rightarrow>
   nat \<times> nat \<times> bool \<times> ('k, 'z) cstate_scheme" where
  "send_direct os t c str s =
     (let len = length str in
      if \<not> IsWriting (conn_channel s c) \<and> ReadeableBytes (tc_output (conns s c)) = 0 then
        (case sys_write os (ch_fd (conn_channel s c)) str (kern s) of
           (Inr n, k') \<Rightarrow>
             let s1 = s\<lparr>kern := k'\<rparr>; remaining = len - n
             in (n, remaining, False,
                 if remaining = 0 then queue_write_complete os t c s1 else s1)
         | (Inl e, k') \<Rightarrow>
             (0, len, e \<noteq> EWOULDBLOCK \<and> (e = EPIPE \<or> e = ECONNRESET), s\<lparr>kern := k'\<rparr>))
      else (0, len, False, s))"

text \<open>The second half: what the socket did not take is queued, and \<open>EPOLLOUT\<close> is asked for.\<close>

definition send_buffered ::
  "'k os \<Rightarrow> tid \<Rightarrow> conn \<Rightarrow> string \<Rightarrow> ('k, 'z) cstate_scheme \<Rightarrow> ('k, 'z) cstate_scheme res" where
  "send_buffered os t c rest s =
     (let tc = conns s c; old_len = ReadeableBytes (tc_output tc); remaining = length rest;
          s1 = (if tc_high_water_mark tc \<le> old_len + remaining \<and> old_len < tc_high_water_mark tc
                then QueueInLoop os t (tc_loop tc)
                       (BindHighWaterMark (tc_high_water_mark_cb tc) c (old_len + remaining)) s
                else s)
      in bind_res (Append rest (tc_output (conns s1 c))) (\<lambda>b.
           let s2 = upd_conn c (\<lambda>tc. tc\<lparr>tc_output := b\<rparr>) s1 in
           if \<not> IsWriting (conn_channel s2 c)
           then EnableWriting os (tc_channel (conns s2 c)) s2 else Inr s2))"

definition SendInLoop ::
  "'k os \<Rightarrow> tid \<Rightarrow> conn \<Rightarrow> string \<Rightarrow> ('k, 'z) cstate_scheme \<Rightarrow> ('k, 'z) cstate_scheme res" where
  "SendInLoop os t c str s =
     (if tc_state (conns s c) = kDisconnected then Inr s
      else
        let (nwrote, remaining, fault_error, s1) = send_direct os t c str s in
        if \<not> fault_error \<and> 0 < remaining
        then send_buffered os t c (take remaining (drop nwrote str)) s1
        else Inr s1)"

definition Send ::
  "'k os \<Rightarrow> tid \<Rightarrow> conn \<Rightarrow> string \<Rightarrow> ('k, 'z) cstate_scheme \<Rightarrow> ('k, 'z) cstate_scheme res" where
  "Send os t c msg s =
     (if tc_state (conns s c) = kConnected then
        if IsInLoopThread t (tc_loop (conns s c)) s then SendInLoop os t c msg s
        else RunInLoop os t (tc_loop (conns s c)) (BindSendInLoop c msg) (SendInLoop os t c msg) s
      else Inr s)"

subsection \<open>Shutting down\<close>

definition ShutdownInLoop :: "'k os \<Rightarrow> conn \<Rightarrow> ('k, 'z) cstate_scheme \<Rightarrow> ('k, 'z) cstate_scheme" where
  "ShutdownInLoop os c s =
     (if \<not> IsWriting (conn_channel s c)
      then s\<lparr>kern := ShutdownWrite os (tc_fd (conns s c)) (kern s)\<rparr> else s)"

definition Shutdown ::
  "'k os \<Rightarrow> tid \<Rightarrow> conn \<Rightarrow> ('k, 'z) cstate_scheme \<Rightarrow> ('k, 'z) cstate_scheme res" where
  "Shutdown os t c s =
     (if tc_state (conns s c) = kConnected then
        RunInLoop os t (tc_loop (conns s c)) (BindShutdownInLoop c)
          (\<lambda>s. Inr (ShutdownInLoop os c s)) (set_state kDisconnected c s)
      else Inr s)"

subsection \<open>Event handlers\<close>

definition HandleWrite ::
  "'k os \<Rightarrow> tid \<Rightarrow> conn \<Rightarrow> ('k, 'z) cstate_scheme \<Rightarrow> ('k, 'z) cstate_scheme res" where
  "HandleWrite os t c s =
     (if IsWriting (conn_channel s c) then
        case WriteFd os (tc_fd (conns s c)) (tc_output (conns s c)) (kern s) of
          (Inr n, k') \<Rightarrow>
            if 0 < n then
              let s1 = upd_conn c (\<lambda>tc. tc\<lparr>tc_output := Retrive n (tc_output tc)\<rparr>) (s\<lparr>kern := k'\<rparr>) in
              if ReadeableBytes (tc_output (conns s1 c)) = 0 then
                bind_res (DisableWriting os (tc_channel (conns s1 c)) s1) (\<lambda>s2.
                  let s3 = queue_write_complete os t c s2 in
                  Inr (if tc_state (conns s3 c) = kDisconnecting then ShutdownInLoop os c s3 else s3))
              else Inr s1
            else Inr (s\<lparr>kern := k'\<rparr>)
        | (Inl e, k') \<Rightarrow> Inr (s\<lparr>kern := k'\<rparr>)
      else Inr s)"

definition HandleClose ::
  "'k os \<Rightarrow> (conn_fn \<Rightarrow> conn \<Rightarrow> ('k, 'z) cstate_scheme \<Rightarrow> ('k, 'z) cstate_scheme res) \<Rightarrow> conn \<Rightarrow>
   ('k, 'z) cstate_scheme \<Rightarrow> ('k, 'z) cstate_scheme res" where
  "HandleClose os call c s =
     bind_res (DisableAll os (tc_channel (conns s c)) (set_state kDisconnected c s)) (\<lambda>s.
     bind_res (call_conn_fn call (tc_conn_cb (conns s c)) c s) (\<lambda>s.
     call_conn_fn call (tc_close_cb (conns s c)) c s))"

text \<open>\<open>HandleError\<close> fetches \<open>SO_ERROR\<close> and logs it.\<close>

definition HandleError :: "'k os \<Rightarrow> conn \<Rightarrow> ('k, 'z) cstate_scheme \<Rightarrow> ('k, 'z) cstate_scheme" where
  "HandleError os c s = s\<lparr>kern := snd (sys_so_error os (ch_fd (conn_channel s c)) (kern s))\<rparr>"

definition HandleRead ::
  "'k os \<Rightarrow> (conn_fn \<Rightarrow> conn \<Rightarrow> ('k, 'z) cstate_scheme \<Rightarrow> ('k, 'z) cstate_scheme res) \<Rightarrow>
   (msg_fn \<Rightarrow> conn \<Rightarrow> timestamp \<Rightarrow> ('k, 'z) cstate_scheme \<Rightarrow> ('k, 'z) cstate_scheme res) \<Rightarrow>
   conn \<Rightarrow> timestamp \<Rightarrow> ('k, 'z) cstate_scheme \<Rightarrow> ('k, 'z) cstate_scheme res" where
  "HandleRead os call call_msg c now s =
     bind_res (ReadFd os (tc_fd (conns s c)) (tc_input (conns s c)) (kern s)) (\<lambda>(r, b, k').
       let s1 = upd_conn c (\<lambda>tc. tc\<lparr>tc_input := b\<rparr>) (s\<lparr>kern := k'\<rparr>) in
       case r of
         Inr n \<Rightarrow> if 0 < n then call_msg_fn call_msg (tc_msg_cb (conns s1 c)) c now s1
                  else HandleClose os call c s1
       | Inl e \<Rightarrow> Inr (HandleError os c s1))"

subsection \<open>Life cycle\<close>

definition ConnectionEstablished ::
  "'k os \<Rightarrow> (conn_fn \<Rightarrow> conn \<Rightarrow> ('k, 'z) cstate_scheme \<Rightarrow> ('k, 'z) cstate_scheme res) \<Rightarrow> conn \<Rightarrow>
   ('k, 'z) cstate_scheme \<Rightarrow> ('k, 'z) cstate_scheme res" where
  "ConnectionEstablished os call c s =
     (let s1 = set_state kConnected c s;
          s2 = upd_chan (tc_channel (conns s1 c)) (Tie c) s1
      in bind_res (EnableReading os (tc_channel (conns s2 c)) s2)
           (\<lambda>s. call_conn_fn call (tc_conn_cb (conns s c)) c s))"

definition ConnectDestroyed ::
  "'k os \<Rightarrow> (conn_fn \<Rightarrow> conn \<Rightarrow> ('k, 'z) cstate_scheme \<Rightarrow> ('k, 'z) cstate_scheme res) \<Rightarrow> conn \<Rightarrow>
   ('k, 'z) cstate_scheme \<Rightarrow> ('k, 'z) cstate_scheme res" where
  "ConnectDestroyed os call c s =
     bind_res
       (if tc_state (conns s c) = kConnected
        then bind_res (DisableAll os (tc_channel (conns s c)) (set_state kDisconnected c s))
               (\<lambda>s. call_conn_fn call (tc_conn_cb (conns s c)) c s)
        else Inr s)
       (\<lambda>s. Channel_Remove os (tc_channel (conns s c)) s)"

end
