(* ===== verification/ThreadPool.thy ===== *)
theory ThreadPool
  imports EventLoop Socket
begin

text \<open>
  \<open>server/include/event_loop_thread_pool.h\<close>, \<open>server/src/event_loop_thread_pool.cpp\<close>: the
  threads that run the I/O loops and the round-robin choice of one for each new connection.
\<close>

subsection \<open>State\<close>

record thread_pool =
  tp_base_loop :: loop
  tp_name :: string
  tp_started :: bool
  tp_num_threads :: int
  tp_next :: nat
  tp_threads :: "string list"     \<comment> \<open>the names of \<open>threads_\<close>\<close>
  tp_loops :: "loop list"

definition EventLoopThreadPool :: "loop \<Rightarrow> string \<Rightarrow> thread_pool" where
  "EventLoopThreadPool l name =
     \<lparr>tp_base_loop = l, tp_name = name, tp_started = False, tp_num_threads = 0, tp_next = 0,
      tp_threads = [], tp_loops = []\<rparr>"

definition set_threads_num :: "int \<Rightarrow> thread_pool \<Rightarrow> thread_pool" where
  "set_threads_num num tp = tp\<lparr>tp_num_threads := num\<rparr>"

subsection \<open>Starting the threads\<close>

text \<open>
  \<open>start_loop name s\<close> is \<open>EventLoopThread(cb, name).StartLoop()\<close>: it returns the loop of the
  new thread once that thread has published it.
\<close>

fun start_threads ::
  "(string \<Rightarrow> 's \<Rightarrow> (loop \<times> 's) res) \<Rightarrow> nat \<Rightarrow> nat \<Rightarrow> thread_pool \<times> 's \<Rightarrow> (thread_pool \<times> 's) res" where
  "start_threads start_loop i 0 (tp, s) = Inr (tp, s)"
| "start_threads start_loop i (Suc n) (tp, s) =
     (let name = tp_name tp @ decimal i in
      bind_res (start_loop name s) (\<lambda>(l, s).
        start_threads start_loop (Suc i) n
          (tp\<lparr>tp_threads := tp_threads tp @ [name], tp_loops := tp_loops tp @ [l]\<rparr>, s)))"

definition Pool_Start ::
  "(loop \<Rightarrow> 's \<Rightarrow> 's res) option \<Rightarrow> (string \<Rightarrow> 's \<Rightarrow> (loop \<times> 's) res) \<Rightarrow> thread_pool \<times> 's \<Rightarrow>
   (thread_pool \<times> 's) res" where
  "Pool_Start cb start_loop = (\<lambda>(tp, s).
     let tp1 = tp\<lparr>tp_started := True\<rparr> in
     bind_res (case cb of
                 Some f \<Rightarrow> if tp_num_threads tp1 = 0 then f (tp_base_loop tp1) s else Inr s
               | None \<Rightarrow> Inr s)
       (\<lambda>s. start_threads start_loop 0 (nat (tp_num_threads tp1)) (tp1, s)))"

subsection \<open>Choosing a loop\<close>

definition get_next_loop :: "thread_pool \<Rightarrow> (loop \<times> thread_pool) res" where
  "get_next_loop tp =
     (if tp_loops tp \<noteq> [] then
        if tp_next tp < length (tp_loops tp) then
          let l = tp_loops tp ! tp_next tp; next1 = tp_next tp + 1
          in Inr (l, tp\<lparr>tp_next := (if length (tp_loops tp) \<le> next1 then 0 else next1)\<rparr>)
        else Inl HeapOverread
      else Inr (tp_base_loop tp, tp))"

definition get_loops :: "thread_pool \<Rightarrow> loop list" where
  "get_loops tp = (if tp_loops tp = [] then [tp_base_loop tp] else tp_loops tp)"

text \<open>The loops of \<open>n\<close> successive calls.\<close>

fun next_loops :: "nat \<Rightarrow> thread_pool \<Rightarrow> (loop list \<times> thread_pool) res" where
  "next_loops 0 tp = Inr ([], tp)"
| "next_loops (Suc n) tp =
     bind_res (get_next_loop tp) (\<lambda>(l, tp1).
     bind_res (next_loops n tp1) (\<lambda>(ls, tp2). Inr (l # ls, tp2)))"

definition pool_ok :: "thread_pool \<Rightarrow> bool" where
  "pool_ok tp \<longleftrightarrow> (if tp_loops tp = [] then tp_next tp = 0 else tp_next tp < length (tp_loops tp))"

lemma get_loops_nonempty [simp]: "get_loops tp \<noteq> []"
  by (simp add: get_loops_def)

lemma get_next_loop_ok:
  assumes "pool_ok tp"
  shows "get_next_loop tp =
     Inr (get_loops tp ! tp_next tp,
          tp\<lparr>tp_next := (tp_next tp + 1) mod length (get_loops tp)\<rparr>)"
proof (cases "tp_loops tp = []")
  case True
  with assms show ?thesis
    by (cases tp) (simp add: get_next_loop_def pool_ok_def get_loops_def)
next
  case False
  let ?N = "length (tp_loops tp)"
  have lt: "tp_next tp < ?N" using assms False by (simp add: pool_ok_def)
  then have "(tp_next tp + 1) mod ?N = (if ?N \<le> tp_next tp + 1 then 0 else tp_next tp + 1)"
    by (cases "tp_next tp + 1 = ?N") simp_all
  with False lt show ?thesis
    by (simp add: get_next_loop_def get_loops_def Let_def)
qed

lemma pool_ok_next:
  "pool_ok tp \<Longrightarrow> pool_ok (tp\<lparr>tp_next := n mod length (get_loops tp)\<rparr>)"
  by (simp add: pool_ok_def get_loops_def)

lemma get_loops_next [simp]: "get_loops (tp\<lparr>tp_next := n\<rparr>) = get_loops tp"
  by (simp add: get_loops_def)

lemma start_threads_loops:
  "start_threads f i n (tp, s) = Inr (tp', s') \<Longrightarrow>
     length (tp_loops tp') = length (tp_loops tp) + n \<and>
     tp_threads tp' = tp_threads tp @ map (\<lambda>j. tp_name tp @ decimal j) [i..<i + n] \<and>
     tp_next tp' = tp_next tp \<and> tp_name tp' = tp_name tp"
proof (induction n arbitrary: i tp s)
  case (Suc n)
  then obtain l s1 where
    "start_threads f (Suc i) n (tp\<lparr>tp_threads := tp_threads tp @ [tp_name tp @ decimal i],
       tp_loops := tp_loops tp @ [l]\<rparr>, s1) = Inr (tp', s')"
    by (auto simp: bind_res_Inr Let_def)
  from Suc.IH [OF this] show ?case by (simp add: upt_conv_Cons)
qed simp

lemma next_loops_ok:
  assumes "pool_ok tp"
  shows "next_loops n tp =
     Inr (map (\<lambda>i. get_loops tp ! ((tp_next tp + i) mod length (get_loops tp))) [0..<n],
          tp\<lparr>tp_next := (tp_next tp + n) mod length (get_loops tp)\<rparr>)"
  using assms
proof (induction n arbitrary: tp)
  case 0
  then show ?case by (cases tp) (auto simp: pool_ok_def get_loops_def)
next
  case (Suc n)
  let ?N = "length (get_loops tp)" and ?tp = "tp\<lparr>tp_next := (tp_next tp + 1) mod length (get_loops tp)\<rparr>"
  have first: "tp_next tp mod ?N = tp_next tp"
    using Suc.prems by (auto simp: pool_ok_def get_loops_def split: if_splits)
  have "next_loops n ?tp =
     Inr (map (\<lambda>i. get_loops tp ! ((tp_next tp + Suc i) mod ?N)) [0..<n],
          tp\<lparr>tp_next := (tp_next tp + Suc n) mod ?N\<rparr>)"
    using Suc.IH [OF pool_ok_next [OF Suc.prems], of "tp_next tp + 1"] by (simp add: mod_simps)
  then show ?case
    using first by (simp add: get_next_loop_ok [OF Suc.prems] upt_conv_Cons map_Suc_upt [symmetric]
        del: upt_Suc)
qed

end
