(* ===== verification/Table.thy ===== *)
theory Table
  imports Prelude
begin

text \<open>
  The interface of the program's \<open>std::unordered_map\<close>s: lookup after insertion and after
  erasure. Two of them kept in step, from names to owners and from owners to names, are what
  the chat room relies on; the laws of linking and unlinking a pair are proved here once, from
  the interface alone.
\<close>

locale table =
  fixes lookup :: "'t \<Rightarrow> 'a \<Rightarrow> 'b option"
    and insert :: "'a \<Rightarrow> 'b \<Rightarrow> 't \<Rightarrow> 't"
    and erase :: "'a \<Rightarrow> 't \<Rightarrow> 't"
  assumes lookup_insert: "lookup (insert a b t) = (lookup t)(a \<mapsto> b)"
    and lookup_erase: "lookup (erase a t) = (lookup t)(a := None)"

context table
begin

lemma insert_then_erase: "lookup t a = None \<Longrightarrow> lookup (erase a (insert a b t)) = lookup t"
  by (auto simp: lookup_insert lookup_erase)

lemma erase_other: "x \<noteq> a \<Longrightarrow> lookup (erase a t) x = lookup t x"
  by (simp add: lookup_erase)

end

text \<open>
  Each name but \<open>blank\<close> leads to the owner that bears it and back; \<open>blank\<close> is what an owner without
  a name may carry.
\<close>

definition mutual :: "'a \<Rightarrow> ('a \<Rightarrow> 'b option) \<Rightarrow> ('b \<Rightarrow> 'a option) \<Rightarrow> bool" where
  "mutual blank f g \<longleftrightarrow> (\<forall>a b. f a = Some b \<longleftrightarrow> g b = Some a \<and> a \<noteq> blank)"

lemma mutualD:
  assumes "mutual blank f g"
  shows "f a = Some b \<Longrightarrow> g b = Some a" "f a = Some b \<Longrightarrow> a \<noteq> blank"
    "g b = Some a \<Longrightarrow> a \<noteq> blank \<Longrightarrow> f a = Some b" "f blank = None"
  using assms unfolding mutual_def by (blast, blast, blast, metis not_None_eq)

locale two_way = fwd: table flookup finsert ferase + bwd: table blookup binsert berase
  for flookup :: "'t \<Rightarrow> 'a \<Rightarrow> 'b option"
    and finsert :: "'a \<Rightarrow> 'b \<Rightarrow> 't \<Rightarrow> 't"
    and ferase :: "'a \<Rightarrow> 't \<Rightarrow> 't"
    and blookup :: "'u \<Rightarrow> 'b \<Rightarrow> 'a option"
    and binsert :: "'b \<Rightarrow> 'a \<Rightarrow> 'u \<Rightarrow> 'u"
    and berase :: "'b \<Rightarrow> 'u \<Rightarrow> 'u"

context two_way
begin

lemma link:
  assumes "mutual blank (flookup t) (blookup u)" "a \<noteq> blank" "flookup t a = None"
    and "blookup u b = None \<or> blookup u b = Some blank"
  shows "mutual blank (flookup (finsert a b t)) (blookup (binsert b a u))"
proof -
  from mutualD(3) [OF assms(1)] assms(2,3) have "blookup u y \<noteq> Some a" for y by fastforce
  with assms show ?thesis
    unfolding mutual_def fwd.lookup_insert bwd.lookup_insert by (auto split: if_splits)
qed

lemma unlink:
  assumes "mutual blank (flookup t) (blookup u)" "blookup u b = Some a" "a \<noteq> blank"
  shows "mutual blank (flookup (ferase a t)) (blookup (berase b u))"
proof -
  note here = mutualD(3) [OF assms]
  have "blookup u y = Some a \<longleftrightarrow> y = b" for y
    using mutualD(3) [OF assms(1) _ assms(3), of y] here assms(2) by auto
  moreover have "flookup t x = Some b \<longleftrightarrow> x = a" for x
    using mutualD(1) [OF assms(1), of x b] here assms(2) by auto
  ultimately show ?thesis
    using assms(1) unfolding mutual_def fwd.lookup_erase bwd.lookup_erase by auto
qed

lemma forget:
  assumes "mutual blank (flookup t) (blookup u)" "blookup u b = None \<or> blookup u b = Some blank"
  shows "mutual blank (flookup t) (blookup (berase b u))"
  using assms unfolding mutual_def bwd.lookup_erase by (auto split: if_splits)

lemma touch:
  assumes "mutual blank (flookup t) (blookup u)" "blookup u b = None"
  shows "mutual blank (flookup t) (blookup (binsert b blank u))"
  using assms unfolding mutual_def bwd.lookup_insert by (auto split: if_splits)

text \<open>Linking a new pair and unlinking it again changes nothing.\<close>

lemma link_unlink:
  assumes "flookup t a = None" "blookup u b = None"
  shows "flookup (ferase a (finsert a b t)) = flookup t" "blookup (berase b (binsert b a u)) = blookup u"
  using assms by (simp_all add: fwd.insert_then_erase bwd.insert_then_erase)

end

text \<open>Association lists with one entry per key.\<close>

interpretation al: table map_of AList.update AList.delete
  by unfold_locales (simp_all add: update_conv' delete_conv')

end
