(* ===== verification/TcpServer.thy ===== *)
theory TcpServer
  imports TcpConnection ThreadPool Table
begin

text \<open>
  \<open>server/include/acceptor.h\<close>, \<open>server/src/acceptor.cpp\<close>, \<open>server/include/tcp_server.h\<close> and
  \<open>server/src/tcp_server.cpp\<close>: the listening socket, the table of connections, and their
  creation and removal. \<open>connections_\<close> is an association list with one entry per key, whose
  order stands for the iteration order of the hash table. New objects get their addresses
  from the counters of the state.
\<close>

subsection \<open>State\<close>

record acceptor =
  ac_loop :: loop
  ac_fd :: fd
  ac_channel :: chan
  ac_new_cb :: "accept_fn option"
  ac_listenning :: bool

datatype server_option = kNoReusePort | kReusePort

record tcp_server =
  sv_loop :: loop
  sv_ip_port :: string
  sv_name :: string
  sv_connection_cb :: "conn_fn option"
  sv_message_cb :: "msg_fn option"
  sv_write_complete_cb :: "conn_fn option"
  sv_started :: int
  sv_next_connection_id :: nat
  sv_connections :: "(string \<times> conn) list"

record 'k sstate = "'k cstate" +
  server :: tcp_server
  the_acceptor :: acceptor
  pool :: thread_pool
  fresh_conn :: conn

definition upd_server ::
  "(tcp_server \<Rightarrow> tcp_server) \<Rightarrow> ('k, 'z) sstate_scheme \<Rightarrow> ('k, 'z) sstate_scheme" where
  "upd_server f s = s\<lparr>server := f (server s)\<rparr>"

definition upd_acceptor ::
  "(acceptor \<Rightarrow> acceptor) \<Rightarrow> ('k, 'z) sstate_scheme \<Rightarrow> ('k, 'z) sstate_scheme" where
  "upd_acceptor f s = s\<lparr>the_acceptor := f (the_acceptor s)\<rparr>"

lemma upd_server_simps [simp]:
  "server (upd_server f s) = f (server s)" "conns (upd_server f s) = conns s"
  "chans (upd_server f s) = chans s" "evloops (upd_server f s) = evloops s"
  "pollers (upd_server f s) = pollers s" "kern (upd_server f s) = kern s"
  "pool (upd_server f s) = pool s" "fresh_conn (upd_server f s) = fresh_conn s"
  "fresh_chan (upd_server f s) = fresh_chan s"
  by (simp_all add: upd_server_def)

subsection \<open>Acceptor\<close>

definition CreateNonBlocking :: "'k os \<Rightarrow> 'k \<Rightarrow> (fd \<times> 'k) res" where
  "CreateNonBlocking os k =
     (case sys_socket os k of (Inl e, k') \<Rightarrow> Inl ExitFailure | (Inr fd, k') \<Rightarrow> Inr (fd, k'))"

text \<open>The parameter \<open>reuse_port\<close> is not used: both options are always set.\<close>

definition Acceptor_ctor ::
  "'k os \<Rightarrow> loop \<Rightarrow> sockaddr_in \<Rightarrow> bool \<Rightarrow> ('k, 'z) sstate_scheme \<Rightarrow> ('k, 'z) sstate_scheme res" where
  "Acceptor_ctor os l listen_addr reuse_port s =
     bind_res (CreateNonBlocking os (kern s)) (\<lambda>(fd, k1).
     bind_res (BindAddress os fd listen_addr (SetReusePort os fd True (SetReuseAddr os fd True k1)))
       (\<lambda>k2.
         let ch = fresh_chan s in
         Inr (upd_chan ch (\<lambda>_. SetReadCallBack AcceptorHandleRead (Channel l fd))
               (s\<lparr>kern := k2, fresh_chan := fresh_chan s + 1,
                  the_acceptor := \<lparr>ac_loop = l, ac_fd = fd, ac_channel = ch, ac_new_cb = None,
                                   ac_listenning = False\<rparr>\<rparr>))))"

definition Acceptor_dtor :: "'k os \<Rightarrow> ('k, 'z) sstate_scheme \<Rightarrow> ('k, 'z) sstate_scheme res" where
  "Acceptor_dtor os s =
     bind_res (DisableAll os (ac_channel (the_acceptor s)) s)
       (\<lambda>s. Channel_Remove os (ac_channel (the_acceptor s)) s)"

definition set_new_connection_cb :: "accept_fn option \<Rightarrow> acceptor \<Rightarrow> acceptor" where
  [simp]: "set_new_connection_cb cb a = a\<lparr>ac_new_cb := cb\<rparr>"

definition Acceptor_Listen :: "'k os \<Rightarrow> ('k, 'z) sstate_scheme \<Rightarrow> ('k, 'z) sstate_scheme res" where
  "Acceptor_Listen os s =
     (let s1 = upd_acceptor (\<lambda>a. a\<lparr>ac_listenning := True\<rparr>) s in
      bind_res (Socket_Listen os (ac_fd (the_acceptor s1)) (kern s1)) (\<lambda>k.
        EnableReading os (ac_channel (the_acceptor s1)) (s1\<lparr>kern := k\<rparr>)))"

definition no_addr :: sockaddr_in where
  "no_addr = \<lparr>sin_family = 0, sin_port = 0, sin_addr = 0\<rparr>"

definition Acceptor_HandleRead ::
  "'k os \<Rightarrow> (accept_fn \<Rightarrow> fd \<Rightarrow> sockaddr_in \<Rightarrow> ('k, 'z) sstate_scheme \<Rightarrow> ('k, 'z) sstate_scheme res) \<Rightarrow>
   ('k, 'z) sstate_scheme \<Rightarrow> ('k, 'z) sstate_scheme res" where
  "Acceptor_HandleRead os call_new s =
     (let (r, peeraddr, k') = Accept os (ac_fd (the_acceptor s)) no_addr (kern s);
          s1 = s\<lparr>kern := k'\<rparr>
      in case r of
           Inr connection_fd \<Rightarrow>
             (case ac_new_cb (the_acceptor s1) of
                Some f \<Rightarrow> call_new f connection_fd peeraddr s1
              | None \<Rightarrow> Inr (s1\<lparr>kern := sys_close os connection_fd (kern s1)\<rparr>))
         | Inl e \<Rightarrow> Inr s1)"

subsection \<open>Construction\<close>

definition TcpServer_ctor ::
  "'k os \<Rightarrow> net_lib \<Rightarrow> loop option \<Rightarrow> sockaddr_in \<Rightarrow> string \<Rightarrow> server_option \<Rightarrow>
   ('k, 'z) sstate_scheme \<Rightarrow> ('k, 'z) sstate_scheme res" where
  "TcpServer_ctor os net lp listen_addr name opt s =
     bind_res (CheckLoopNotNull lp) (\<lambda>l.
     bind_res (Acceptor_ctor os l listen_addr (opt = kReusePort) s) (\<lambda>s1.
       Inr (upd_acceptor (set_new_connection_cb (Some FnNewConnection))
             (s1\<lparr>pool := EventLoopThreadPool l name,
                 server := \<lparr>sv_loop = l, sv_ip_port = ToIpPort net listen_addr, sv_name = name,
                   sv_connection_cb = None, sv_message_cb = None, sv_write_complete_cb = None,
                   sv_started = 0, sv_next_connection_id = 1, sv_connections = []\<rparr>\<rparr>))))"

text \<open>What the application sets before \<open>Start\<close>; its init callback is an argument of \<open>Server_Start\<close>.\<close>

definition Server_set_connection_cb :: "conn_fn option \<Rightarrow> tcp_server \<Rightarrow> tcp_server" where
  [simp]: "Server_set_connection_cb cb sv = sv\<lparr>sv_connection_cb := cb\<rparr>"

definition Server_set_msg_cb :: "msg_fn option \<Rightarrow> tcp_server \<Rightarrow> tcp_server" where
  [simp]: "Server_set_msg_cb cb sv = sv\<lparr>sv_message_cb := cb\<rparr>"

definition Server_set_write_complete_cb :: "conn_fn option \<Rightarrow> tcp_server \<Rightarrow> tcp_server" where
  [simp]: "Server_set_write_complete_cb cb sv = sv\<lparr>sv_write_complete_cb := cb\<rparr>"

definition set_thread_num :: "int \<Rightarrow> ('k, 'z) sstate_scheme \<Rightarrow> ('k, 'z) sstate_scheme" where
  [simp]: "set_thread_num num s = s\<lparr>pool := set_threads_num num (pool s)\<rparr>"

definition Server_Start ::
  "'k os \<Rightarrow> tid \<Rightarrow> (loop \<Rightarrow> ('k, 'z) sstate_scheme \<Rightarrow> ('k, 'z) sstate_scheme res) option \<Rightarrow>
   (string \<Rightarrow> ('k, 'z) sstate_scheme \<Rightarrow> (loop \<times> ('k, 'z) sstate_scheme) res) \<Rightarrow>
   ('k, 'z) sstate_scheme \<Rightarrow> ('k, 'z) sstate_scheme res" where
  "Server_Start os t init_cb start_loop s =
     (let was = sv_started (server s); s1 = upd_server (\<lambda>sv. sv\<lparr>sv_started := was + 1\<rparr>) s in
      if was = 0 then
        bind_res (Pool_Start init_cb start_loop (pool s1, s1)) (\<lambda>(tp, s2).
          RunInLoop os t (sv_loop (server s2)) BindListen (Acceptor_Listen os) (s2\<lparr>pool := tp\<rparr>))
      else Inr s1)"

subsection \<open>Connections\<close>

text \<open>\<open>snprintf\<close> into 64 bytes keeps 63 characters.\<close>

definition conn_name :: "tcp_server \<Rightarrow> string" where
  "conn_name sv = sv_name sv @ take 63 (sv_ip_port sv @ ''#'' @ decimal (sv_next_connection_id sv))"

definition NewConnection ::
  "'k os \<Rightarrow> (conn_fn \<Rightarrow> conn \<Rightarrow> ('k, 'z) sstate_scheme \<Rightarrow> ('k, 'z) sstate_scheme res) \<Rightarrow> tid \<Rightarrow>
   fd \<Rightarrow> sockaddr_in \<Rightarrow> ('k, 'z) sstate_scheme \<Rightarrow> ('k, 'z) sstate_scheme res" where
  "NewConnection os call t fd peeraddr s =
     bind_res (get_next_loop (pool s)) (\<lambda>(io_loop, tp).
       let s1 = s\<lparr>pool := tp\<rparr>;
           name = conn_name (server s1);
           s2 = upd_server (\<lambda>sv. sv\<lparr>sv_next_connection_id := sv_next_connection_id sv + 1\<rparr>) s1;
           (r, k') = sys_getsockname os fd (kern s2);
           local = (case r of Inr a \<Rightarrow> a | Inl e \<Rightarrow> no_addr);
           c = fresh_conn s2; ch = fresh_chan s2;
           s3 = s2\<lparr>kern := k', fresh_conn := c + 1, fresh_chan := ch + 1\<rparr>
       in bind_res (TcpConnection_ctor os (Some io_loop) name fd local peeraddr c ch s3) (\<lambda>s4.
            let s5 = upd_server (\<lambda>sv. sv\<lparr>sv_connections := AList.update name c (sv_connections sv)\<rparr>) s4;
                s6 = upd_conn c (\<lambda>tc.
                  set_close_cb (Some FnRemoveConnection)
                  (set_write_complete_cb (sv_write_complete_cb (server s5))
                  (set_msg_cb (sv_message_cb (server s5))
                  (set_connection_cb (sv_connection_cb (server s5)) tc)))) s5
            in RunInLoop os t io_loop (BindConnectionEstablished c)
                 (ConnectionEstablished os call c) s6))"

definition RemoveConnectionInLoop ::
  "'k os \<Rightarrow> tid \<Rightarrow> conn \<Rightarrow> ('k, 'z) sstate_scheme \<Rightarrow> ('k, 'z) sstate_scheme" where
  "RemoveConnectionInLoop os t c s =
     (let s1 = upd_server (\<lambda>sv. sv\<lparr>sv_connections :=
                  AList.delete (tc_name (conns s c)) (sv_connections sv)\<rparr>) s
      in QueueInLoop os t (tc_loop (conns s1 c)) (BindConnectDestroyed c) s1)"

definition RemoveConnection ::
  "'k os \<Rightarrow> tid \<Rightarrow> conn \<Rightarrow> ('k, 'z) sstate_scheme \<Rightarrow> ('k, 'z) sstate_scheme res" where
  "RemoveConnection os t c s =
     RunInLoop os t (sv_loop (server s)) (BindRemoveConnectionInLoop c)
       (\<lambda>s. Inr (RemoveConnectionInLoop os t c s)) s"

text \<open>
  The destructor gives up each reference of the table (\<open>item.second.reset()\<close>) and destroys the
  connection in its loop, through a raw pointer.
\<close>

definition TcpServer_dtor ::
  "'k os \<Rightarrow> (conn_fn \<Rightarrow> conn \<Rightarrow> ('k, 'z) sstate_scheme \<Rightarrow> ('k, 'z) sstate_scheme res) \<Rightarrow> tid \<Rightarrow>
   ('k, 'z) sstate_scheme \<Rightarrow> ('k, 'z) sstate_scheme res" where
  "TcpServer_dtor os call t s =
     foldR (\<lambda>(name, c) s.
         let s1 = upd_server (\<lambda>sv. sv\<lparr>sv_connections := AList.delete name (sv_connections sv)\<rparr>) s
         in RunInLoop os t (tc_loop (conns s1 c)) (BindConnectDestroyedRaw c)
              (ConnectDestroyed os call c) s1) (sv_connections (server s)) s"

end
