(* ===== verification/ChatRoom.thy ===== *)
theory ChatRoom
  imports TcpServer
begin

text \<open>
  \<open>server/example/server.cpp\<close>: the chat room on top of the TCP server. Clients send their
  name first; then a leading byte 20 marks a private message, 21 a message to everybody;
  the server announces 22 (left) and 23 (joined). The two hash maps are association lists
  with one entry per key; \<open>operator[]\<close> inserts a default entry where the source uses it on a
  missing key. \<open>t\<close> is the thread of the I/O loop that runs the callback.
\<close>

subsection \<open>State\<close>

record chat_room =
  name_conn_map :: "(string \<times> conn) list"
  conn_name_map :: "(conn \<times> string) list"

record 'k world = "'k sstate" +
  chat :: chat_room

definition upd_chat :: "(chat_room \<Rightarrow> chat_room) \<Rightarrow> ('k, 'z) world_scheme \<Rightarrow> ('k, 'z) world_scheme" where
  "upd_chat f s = s\<lparr>chat := f (chat s)\<rparr>"

definition char20 :: char where "char20 = CHR 0x14"
definition char21 :: char where "char21 = CHR 0x15"
definition char22 :: char where "char22 = CHR 0x16"
definition char23 :: char where "char23 = CHR 0x17"

text \<open>\<open>m[k]\<close> of a map with a default value.\<close>

definition map_index :: "'v \<Rightarrow> 'a \<Rightarrow> ('a \<times> 'v) list \<Rightarrow> 'v \<times> ('a \<times> 'v) list" where
  "map_index d k m = (case map_of m k of Some v \<Rightarrow> (v, m) | None \<Rightarrow> (d, AList.update k d m))"

text \<open>\<open>conn_name_map_[conn]\<close>\<close>

definition index_conn_name :: "conn \<Rightarrow> ('k, 'z) world_scheme \<Rightarrow> string \<times> ('k, 'z) world_scheme" where
  "index_conn_name c s =
     (let (v, m) = map_index [] c (conn_name_map (chat s))
      in (v, upd_chat (\<lambda>r. r\<lparr>conn_name_map := m\<rparr>) s))"

subsection \<open>Tests\<close>

definition IsNewClient :: "conn \<Rightarrow> ('k, 'z) world_scheme \<Rightarrow> bool \<times> ('k, 'z) world_scheme" where
  "IsNewClient c s = (let (name, s1) = index_conn_name c s in (name = [], s1))"

definition IsNewName :: "string \<Rightarrow> ('k, 'z) world_scheme \<Rightarrow> bool" where
  "IsNewName name s \<longleftrightarrow> map_of (name_conn_map (chat s)) name = None"

definition first_byte_is :: "char \<Rightarrow> buffer \<Rightarrow> bool res" where
  "first_byte_is ch b = (case Peek b of [] \<Rightarrow> Inl HeapOverread | x # _ \<Rightarrow> Inr (x = ch))"

definition IsPrivateChat :: "buffer \<Rightarrow> bool res" where
  "IsPrivateChat b = first_byte_is char20 b"

definition IsGroupChat :: "buffer \<Rightarrow> bool res" where
  "IsGroupChat b = first_byte_is char21 b"

subsection \<open>Broadcasts\<close>

definition BroadcastNoSelf ::
  "'k os \<Rightarrow> tid \<Rightarrow> conn \<Rightarrow> string \<Rightarrow> ('k, 'z) world_scheme \<Rightarrow> ('k, 'z) world_scheme res" where
  "BroadcastNoSelf os t c msg s =
     foldR (\<lambda>(name, d) s. if d \<noteq> c then Send os t d msg s else Inr s) (name_conn_map (chat s)) s"

definition Broadcast ::
  "'k os \<Rightarrow> tid \<Rightarrow> string \<Rightarrow> ('k, 'z) world_scheme \<Rightarrow> ('k, 'z) world_scheme res" where
  "Broadcast os t msg s =
     foldR (\<lambda>(name, d) s. Send os t d msg s) (name_conn_map (chat s)) s"

subsection \<open>Login and exit\<close>

definition all_user_name :: "string \<Rightarrow> ('k, 'z) world_scheme \<Rightarrow> string" where
  "all_user_name name s =
     concat (map (\<lambda>(n, d). c_str n @ ''+'') (name_conn_map (chat s))) @ name @ ''+''"

definition UserLogin ::
  "'k os \<Rightarrow> tid \<Rightarrow> conn \<Rightarrow> string \<Rightarrow> ('k, 'z) world_scheme \<Rightarrow> ('k, 'z) world_scheme res" where
  "UserLogin os t c name s =
     bind_res (Send os t c (all_user_name name s) s) (\<lambda>s.
       if IsNewName name s then
         bind_res (BroadcastNoSelf os t c (char23 # c_str name) s) (\<lambda>s.
           Inr (upd_chat (\<lambda>r. r\<lparr>conn_name_map := AList.update c name (conn_name_map r),
                               name_conn_map := AList.update name c (name_conn_map r)\<rparr>) s))
       else Shutdown os t c s)"

definition UserExit ::
  "'k os \<Rightarrow> tid \<Rightarrow> conn \<Rightarrow> ('k, 'z) world_scheme \<Rightarrow> ('k, 'z) world_scheme res" where
  "UserExit os t c s =
     (let (name, s1) = index_conn_name c s in
      if name \<noteq> [] then
        bind_res (BroadcastNoSelf os t c (char22 # c_str name) s1) (\<lambda>s.
          Inr (upd_chat (\<lambda>r. r\<lparr>name_conn_map := AList.delete name (name_conn_map r),
                              conn_name_map := AList.delete c (conn_name_map r)\<rparr>) s))
      else Inr (upd_chat (\<lambda>r. r\<lparr>conn_name_map := AList.delete c (conn_name_map r)\<rparr>) s1))"

definition OnConnection ::
  "'k os \<Rightarrow> tid \<Rightarrow> conn \<Rightarrow> ('k, 'z) world_scheme \<Rightarrow> ('k, 'z) world_scheme res" where
  "OnConnection os t c s = (if IsConnected c s then Inr s else UserExit os t c s)"

subsection \<open>Messages\<close>

text \<open>
  \<open>while (buf[begin] != 20) dest_name += buf[begin++];\<close>. Index \<open>size()\<close> reads the
  terminating NUL, any index beyond it is outside the string.
\<close>

function scan_dest :: "string \<Rightarrow> nat \<Rightarrow> string \<Rightarrow> (string \<times> nat) res" where
  "scan_dest str begin dest_name =
     (if length str < begin then Inl HeapOverread
      else
        let ch = (if begin = length str then CHR 0x00 else str ! begin) in
        if ch = char20 then Inr (dest_name, begin)
        else scan_dest str (begin + 1) (dest_name @ [ch]))"
  by pat_completeness auto
termination
  by (relation "measure (\<lambda>(str, begin, dest_name). length str + 1 - begin)") auto

declare scan_dest.simps [simp del]

text \<open>\<open>buffer.RetriveAllAsString()\<close> on the connection's input buffer.\<close>

definition retrieve_input ::
  "conn \<Rightarrow> ('k, 'z) cstate_scheme \<Rightarrow> (string \<times> ('k, 'z) cstate_scheme) res" where
  "retrieve_input c s =
     bind_res (RetriveAllAsString (tc_input (conns s c)))
       (\<lambda>(str, b). Inr (str, upd_conn c (\<lambda>tc. tc\<lparr>tc_input := b\<rparr>) s))"

text \<open>
  The log line after the send evaluates \<open>name_conn_map_[source_name.c_str()]->get_fd()\<close>: a
  sender that is not in the map would be a null pointer there.
\<close>

definition SendPrivateMsg ::
  "'k os \<Rightarrow> tid \<Rightarrow> conn \<Rightarrow> ('k, 'z) world_scheme \<Rightarrow> ('k, 'z) world_scheme res" where
  "SendPrivateMsg os t c s =
     bind_res (retrieve_input c s) (\<lambda>(whole, s).
       let str = c_str whole in
       bind_res (scan_dest str 1 []) (\<lambda>(dest_name, begin).
         let (source_name, s) = index_conn_name c s;
             msg = [char20] @ c_str source_name @ [char20] @ drop (begin + 1) str
         in case map_of (name_conn_map (chat s)) (c_str dest_name) of
              None \<Rightarrow> Inr s
            | Some d \<Rightarrow>
                bind_res (Send os t d msg s) (\<lambda>s.
                  if map_of (name_conn_map (chat s)) (c_str source_name) = None
                  then Inl NullDeref else Inr s)))"

text \<open>\<open>append(buf.c_str() + 1, buf.size() - 1)\<close> of an empty string throws \<open>std::length_error\<close>.\<close>

definition SendGroupMsg ::
  "'k os \<Rightarrow> tid \<Rightarrow> conn \<Rightarrow> ('k, 'z) world_scheme \<Rightarrow> ('k, 'z) world_scheme res" where
  "SendGroupMsg os t c s =
     (let (source_name, s) = index_conn_name c s in
      bind_res (retrieve_input c s) (\<lambda>(str, s).
        if str = [] then Inl LengthError
        else Broadcast os t ([char21] @ c_str source_name @ [char21] @ drop 1 str) s))"

definition ReadCb ::
  "'k os \<Rightarrow> tid \<Rightarrow> conn \<Rightarrow> timestamp \<Rightarrow> ('k, 'z) world_scheme \<Rightarrow> ('k, 'z) world_scheme res" where
  "ReadCb os t c now s =
     (let (new, s) = IsNewClient c s in
      if new then
        bind_res (retrieve_input c s) (\<lambda>(name, s). UserLogin os t c (c_str name) s)
      else
        bind_res (IsPrivateChat (tc_input (conns s c))) (\<lambda>private.
          if private then SendPrivateMsg os t c s
          else
            bind_res (IsGroupChat (tc_input (conns s c))) (\<lambda>group.
              if group then SendGroupMsg os t c s else Inr s)))"

subsection \<open>The two maps as one\<close>

interpretation names: two_way map_of AList.update AList.delete map_of AList.update AList.delete
  by unfold_locales

text \<open>
  A chat room is consistent when both maps have one entry per key, every name leads to the
  connection that bears it and back, and no name is empty or contains a NUL.
\<close>

definition chat_ok :: "chat_room \<Rightarrow> bool" where
  "chat_ok r \<longleftrightarrow>
     distinct (map fst (name_conn_map r)) \<and> distinct (map fst (conn_name_map r)) \<and>
     mutual [] (map_of (name_conn_map r)) (map_of (conn_name_map r)) \<and>
     (\<forall>n \<in> dom (map_of (name_conn_map r)). CHR 0x00 \<notin> set n)"

lemma chat_ok_link:
  assumes "chat_ok r" "map_of (name_conn_map r) n = None" "n \<noteq> []" "CHR 0x00 \<notin> set n"
    and "map_of (conn_name_map r) c = None \<or> map_of (conn_name_map r) c = Some []"
  shows "chat_ok (r\<lparr>conn_name_map := AList.update c n (conn_name_map r),
                   name_conn_map := AList.update n c (name_conn_map r)\<rparr>)"
  using assms names.link [of "[]" "name_conn_map r" "conn_name_map r" n c]
  unfolding chat_ok_def by (simp add: distinct_update update_conv')

lemma chat_ok_unlink:
  assumes "chat_ok r" "map_of (conn_name_map r) c = Some n" "n \<noteq> []"
  shows "chat_ok (r\<lparr>name_conn_map := AList.delete n (name_conn_map r),
                   conn_name_map := AList.delete c (conn_name_map r)\<rparr>)"
  using assms names.unlink [of "[]" "name_conn_map r" "conn_name_map r" c n]
  unfolding chat_ok_def by (simp add: distinct_delete delete_conv')

lemma chat_ok_forget:
  assumes "chat_ok r" "map_of (conn_name_map r) c = None \<or> map_of (conn_name_map r) c = Some []"
  shows "chat_ok (r\<lparr>conn_name_map := AList.delete c (conn_name_map r)\<rparr>)"
  using assms names.forget [of "[]" "name_conn_map r" "conn_name_map r" c]
  unfolding chat_ok_def by (simp add: distinct_delete delete_conv')

text \<open>\<open>conn_name_map_[conn]\<close> on the state.\<close>

definition name_of :: "conn \<Rightarrow> chat_room \<Rightarrow> string" where
  "name_of c r = (case map_of (conn_name_map r) c of None \<Rightarrow> [] | Some n \<Rightarrow> n)"

definition touched :: "conn \<Rightarrow> chat_room \<Rightarrow> chat_room" where
  "touched c r =
     (if map_of (conn_name_map r) c = None
      then r\<lparr>conn_name_map := AList.update c [] (conn_name_map r)\<rparr> else r)"

lemma index_conn_name_touched: "index_conn_name c s = (name_of c (chat s), upd_chat (touched c) s)"
  by (cases "chat s")
     (auto simp: index_conn_name_def map_index_def name_of_def touched_def upd_chat_def Let_def
       split: option.split)

lemma chat_ok_touched: "chat_ok r \<Longrightarrow> chat_ok (touched c r)"
  using names.touch [of "[]" "name_conn_map r" "conn_name_map r" c]
  by (auto simp: chat_ok_def touched_def distinct_update)

lemma touched_simps [simp]:
  "name_conn_map (touched c r) = name_conn_map r" "name_of d (touched c r) = name_of d r"
  by (auto simp: touched_def name_of_def update_conv')

lemma upd_chat_simps [simp]:
  "chat (upd_chat f s) = f (chat s)" "conns (upd_chat f s) = conns s" "kern (upd_chat f s) = kern s"
  "chans (upd_chat f s) = chans s" "pollers (upd_chat f s) = pollers s"
  "evloops (upd_chat f s) = evloops s" "server (upd_chat f s) = server s"
  by (simp_all add: upd_chat_def)

subsection \<open>Sending leaves the maps alone\<close>

lemma world_more:
  assumes "cstate.more s' = cstate.more s"
  shows "chat s' = chat s" "server s' = server s"
  using assms by (cases s, cases s', simp)+

end
