(* ===== verification/Threads.thy ===== *)
theory Threads
  imports EventLoop Socket
begin

text \<open>
  \<open>server/include/timestamp.h\<close>, \<open>server/src/timestamp.cpp\<close>, \<open>server/include/logger.h\<close>,
  \<open>server/src/logger.cpp\<close>, \<open>server/include/current_thread.h\<close>,
  \<open>server/src/current_thread.cpp\<close>, \<open>server/include/m_thread.h\<close>, \<open>server/src/m_thread.cpp\<close>,
  \<open>server/include/event_loop_thread.h\<close> and \<open>server/src/event_loop_thread.cpp\<close>: time stamps,
  log lines, thread ids and the thread that runs a loop.
\<close>

subsection \<open>Time stamps\<close>

text \<open>\<open>localtime\<close> is a parameter; the fields are those of \<open>struct tm\<close>.\<close>

record tm =
  tm_year :: int
  tm_mon :: int
  tm_mday :: int
  tm_hour :: int
  tm_min :: int
  tm_sec :: int

definition pad :: "char \<Rightarrow> nat \<Rightarrow> string \<Rightarrow> string" where
  "pad ch n str = replicate (n - length str) ch @ str"

text \<open>\<open>%d\<close> of a number, which may be negative. The zeros of \<open>%02d\<close> would come after the sign, but a
  negative number fills the two places already.\<close>

definition signed_decimal :: "int \<Rightarrow> string" where
  "signed_decimal i = (if i < 0 then CHR ''-'' # decimal (nat (- i)) else decimal (nat i))"

definition Timestamp_Now :: "'k os \<Rightarrow> 'k \<Rightarrow> timestamp \<times> 'k" where
  "Timestamp_Now os k = sys_time os k"

definition Timestamp_ToString :: "(timestamp \<Rightarrow> tm) \<Rightarrow> timestamp \<Rightarrow> string" where
  "Timestamp_ToString localtime ts =
     (let tm = localtime ts; two = (\<lambda>i. pad (CHR ''0'') 2 (signed_decimal i)) in
      take 127 (pad (CHR '' '') 4 (signed_decimal (tm_year tm + 1900)) @ ''/'' @ two (tm_mon tm + 1) @
        ''/'' @ two (tm_mday tm) @ '' '' @ two (tm_hour tm) @ '':'' @ two (tm_min tm) @ '':'' @
        two (tm_sec tm)))"

subsection \<open>Log lines\<close>

datatype log_level = kInfo | kError | kFatal | kDebug

text \<open>The enumerators count from 0, and \<open>log_level_\<close> is an \<open>int\<close>: before the first \<open>SetLogLevel\<close> it has
  whatever value it has, and another value than the four prints no tag.\<close>

primrec level_code :: "log_level \<Rightarrow> int" where
  "level_code kInfo = 0"
| "level_code kError = 1"
| "level_code kFatal = 2"
| "level_code kDebug = 3"

record logger =
  log_level :: int
  log_out :: "string list"

definition SetLogLevel :: "log_level \<Rightarrow> logger \<Rightarrow> logger" where
  "SetLogLevel level lg = lg\<lparr>log_level := level_code level\<rparr>"

definition level_tag :: "int \<Rightarrow> string" where
  "level_tag level =
     (if level = level_code kInfo then ''[INFO]''
      else if level = level_code kDebug then ''[DEBUG]''
      else if level = level_code kError then ''[ERROR]''
      else if level = level_code kFatal then ''[FATAL]''
      else [])"

text \<open>\<open>now\<close> is \<open>Timestamp::Now().ToString()\<close>.\<close>

definition Log :: "string \<Rightarrow> string \<Rightarrow> logger \<Rightarrow> logger" where
  "Log now msg lg =
     lg\<lparr>log_out := log_out lg @
          [level_tag (log_level lg) @ ''time: '' @ now @ '' '' @ msg @ [CHR 0x0A]]\<rparr>"

text \<open>The macro: at most 1023 characters of the message, and \<open>exit(-1)\<close> after a fatal one.\<close>

definition LOG_ORIGIN :: "log_level \<Rightarrow> string \<Rightarrow> string \<Rightarrow> logger \<Rightarrow> logger res" where
  "LOG_ORIGIN level now msg lg =
     (let lg1 = Log now (take 1023 msg) (SetLogLevel level lg)
      in if level = kFatal then Inl ExitFailure else Inr lg1)"

subsection \<open>Thread ids\<close>

text \<open>\<open>t_cache_tid\<close> is 0 until the first call; \<open>gettid\<close> is what the kernel answers.\<close>

definition CacheTid :: "tid \<Rightarrow> tid \<Rightarrow> tid" where
  "CacheTid gettid t_cache_tid = (if t_cache_tid = 0 then gettid else t_cache_tid)"

definition Tid :: "tid \<Rightarrow> tid \<Rightarrow> tid \<times> tid" where
  "Tid gettid t_cache_tid =
     (let cache = (if t_cache_tid = 0 then CacheTid gettid t_cache_tid else t_cache_tid)
      in (cache, cache))"

subsection \<open>Threads\<close>

record thread =
  th_started :: bool
  th_joined :: bool
  th_tid :: tid
  th_name :: string

text \<open>
  \<open>name_ = num\<close> assigns an \<open>int\<close> to a string: the string becomes the one character of that
  code. The text formatted into \<open>buf\<close> is not used.
\<close>

definition SetDefaultName :: "nat \<Rightarrow> thread \<Rightarrow> nat \<times> thread" where
  "SetDefaultName num_created th =
     (let num = num_created + 1
      in (num, if th_name th = [] then th\<lparr>th_name := [char_of num]\<rparr> else th))"

definition Thread_ctor :: "nat \<Rightarrow> string \<Rightarrow> nat \<times> thread" where
  "Thread_ctor num_created name =
     SetDefaultName num_created
       \<lparr>th_started = False, th_joined = False, th_tid = 0, th_name = name\<rparr>"

text \<open>\<open>Start\<close> returns once the new thread has stored its id (the semaphore).\<close>

definition Thread_Start :: "tid \<Rightarrow> thread \<Rightarrow> thread" where
  "Thread_Start new_tid th = th\<lparr>th_started := True, th_tid := new_tid\<rparr>"

definition Thread_Join :: "thread \<Rightarrow> thread" where
  "Thread_Join th = th\<lparr>th_joined := True\<rparr>"

text \<open>The destructor detaches a thread that was started and not joined.\<close>

definition Thread_detaches :: "thread \<Rightarrow> bool" where
  "Thread_detaches th \<longleftrightarrow> th_started th \<and> \<not> th_joined th"

subsection \<open>The thread of a loop\<close>

text \<open>
  \<open>StartLoop\<close> as its caller sees it: the new thread, with the next free id, constructs its
  loop, runs the init callback and publishes the loop; then \<open>StartLoop\<close> returns it.
\<close>

definition StartLoop ::
  "bool \<Rightarrow> 'k os \<Rightarrow> (loop \<Rightarrow> ('k, 'z) lstate_scheme \<Rightarrow> ('k, 'z) lstate_scheme res) option \<Rightarrow> string \<Rightarrow>
   ('k, 'z) lstate_scheme \<Rightarrow> (loop \<times> ('k, 'z) lstate_scheme) res" where
  "StartLoop use_poll os cb name s =
     (let l = fresh_loop s; wc = fresh_chan s; t = fresh_tid s;
          s1 = s\<lparr>fresh_loop := l + 1, fresh_chan := wc + 1, fresh_tid := t + 1\<rparr>
      in bind_res (EventLoop_ctor use_poll os t l wc s1) (\<lambda>s2.
         bind_res (case cb of None \<Rightarrow> Inr s2 | Some f \<Rightarrow> f l s2) (\<lambda>s3. Inr (l, s3))))"

end
