(* ===== verification/World.thy ===== *)
theory World
  imports ChatRoom Threads
begin

text \<open>
  The whole server program: the meaning of every function object (theory \<open>Callbacks\<close>), one
  iteration of a loop over it, and \<open>main\<close> of \<open>server/example/server.cpp\<close>.
\<close>

subsection \<open>Function objects\<close>

definition call_conn :: "'k os \<Rightarrow> tid \<Rightarrow> conn_fn \<Rightarrow> conn \<Rightarrow> ('k, 'z) world_scheme \<Rightarrow> ('k, 'z) world_scheme res" where
  "call_conn os t f c s =
     (case f of
        FnOnConnection \<Rightarrow> OnConnection os t c s
      | FnRemoveConnection \<Rightarrow> RemoveConnection os t c s)"

definition call_msg :: "'k os \<Rightarrow> tid \<Rightarrow> msg_fn \<Rightarrow> conn \<Rightarrow> timestamp \<Rightarrow> ('k, 'z) world_scheme \<Rightarrow> ('k, 'z) world_scheme res" where
  "call_msg os t f c now s = (case f of FnReadCb \<Rightarrow> ReadCb os t c now s)"

definition call_accept ::
  "'k os \<Rightarrow> tid \<Rightarrow> accept_fn \<Rightarrow> fd \<Rightarrow> sockaddr_in \<Rightarrow> ('k, 'z) world_scheme \<Rightarrow> ('k, 'z) world_scheme res" where
  "call_accept os t f fd addr s =
     (case f of FnNewConnection \<Rightarrow> NewConnection os (call_conn os t) t fd addr s)"

definition call_chan ::
  "'k os \<Rightarrow> tid \<Rightarrow> chan_cb \<Rightarrow> timestamp \<Rightarrow> ('k, 'z) world_scheme \<Rightarrow> ('k, 'z) world_scheme res" where
  "call_chan os t cb now s =
     (case cb of
        LoopHandleRead l \<Rightarrow> Inr (Loop_HandleRead os l s)
      | AcceptorHandleRead \<Rightarrow> Acceptor_HandleRead os (call_accept os t) s
      | ConnHandleRead c \<Rightarrow> HandleRead os (call_conn os t) (call_msg os t) c now s
      | ConnHandleWrite c \<Rightarrow> HandleWrite os t c s
      | ConnHandleClose c \<Rightarrow> HandleClose os (call_conn os t) c s
      | ConnHandleError c \<Rightarrow> Inr (HandleError os c s))"

text \<open>\<open>hwm\<close> is what an application's high-water-mark callback would do.\<close>

definition exec_task ::
  "'k os \<Rightarrow> (hwm_fn \<Rightarrow> conn \<Rightarrow> nat \<Rightarrow> ('k, 'z) world_scheme \<Rightarrow> ('k, 'z) world_scheme res) \<Rightarrow> tid \<Rightarrow>
   task \<Rightarrow> ('k, 'z) world_scheme \<Rightarrow> ('k, 'z) world_scheme res" where
  "exec_task os hwm t f s =
     (case f of
        BindSendInLoop c msg \<Rightarrow> SendInLoop os t c msg s
      | BindShutdownInLoop c \<Rightarrow> Inr (ShutdownInLoop os c s)
      | BindConnectionEstablished c \<Rightarrow> ConnectionEstablished os (call_conn os t) c s
      | BindConnectDestroyed c \<Rightarrow> ConnectDestroyed os (call_conn os t) c s
      | BindConnectDestroyedRaw c \<Rightarrow> ConnectDestroyed os (call_conn os t) c s
      | BindRemoveConnectionInLoop c \<Rightarrow> Inr (RemoveConnectionInLoop os t c s)
      | BindConnFn g c \<Rightarrow> call_conn os t g c s
      | BindHighWaterMark g c n \<Rightarrow>
          (case g of None \<Rightarrow> Inl BadFunctionCall | Some g \<Rightarrow> hwm g c n s)
      | BindListen \<Rightarrow> Acceptor_Listen os s)"

subsection \<open>Lifetimes\<close>

text \<open>The functors that hold a \<open>TcpConnectionPtr\<close>, as opposed to a bare \<open>this\<close>.\<close>

definition task_owns :: "conn \<Rightarrow> task \<Rightarrow> bool" where
  "task_owns c f =
     (case f of
        BindConnectionEstablished d \<Rightarrow> d = c
      | BindConnectDestroyed d \<Rightarrow> d = c
      | BindRemoveConnectionInLoop d \<Rightarrow> d = c
      | BindConnFn g d \<Rightarrow> d = c
      | BindHighWaterMark g d n \<Rightarrow> d = c
      | _ \<Rightarrow> False)"

text \<open>
  \<open>tie_.lock()\<close> succeeds while some \<open>shared_ptr\<close> to the connection exists: in the server's
  table, in the chat room's maps, or in a functor waiting in some loop (\<open>running\<close> are those of
  the batch being executed).
\<close>

definition conn_alive :: "loop list \<Rightarrow> task list \<Rightarrow> conn \<Rightarrow> ('k, 'z) world_scheme \<Rightarrow> bool" where
  "conn_alive ls running c s \<longleftrightarrow>
     c \<in> snd ` set (sv_connections (server s)) \<or>
     c \<in> snd ` set (name_conn_map (chat s)) \<or> c \<in> fst ` set (conn_name_map (chat s)) \<or>
     list_ex (task_owns c) running \<or>
     list_ex (\<lambda>l. list_ex (task_owns c) (el_pending (evloops s l))) ls"

subsection \<open>One iteration of a loop, and main\<close>

text \<open>The loops of the program: that of \<open>main\<close> and those of the pool.\<close>

definition world_loops :: "('k, 'z) world_scheme \<Rightarrow> loop list" where
  "world_loops s = sv_loop (server s) # tp_loops (pool s)"

definition handle_channel ::
  "'k os \<Rightarrow> tid \<Rightarrow> chan \<Rightarrow> timestamp \<Rightarrow> ('k, 'z) world_scheme \<Rightarrow> ('k, 'z) world_scheme res" where
  "handle_channel os t c now s =
     HandleEvent (\<lambda>c s. conn_alive (world_loops s) [] c s) (call_chan os t) (chans s c) now s"

definition world_iteration ::
  "'k os \<Rightarrow> (hwm_fn \<Rightarrow> conn \<Rightarrow> nat \<Rightarrow> ('k, 'z) world_scheme \<Rightarrow> ('k, 'z) world_scheme res) \<Rightarrow> loop \<Rightarrow>
   ('k, 'z) world_scheme \<Rightarrow> ('k, 'z) world_scheme res" where
  "world_iteration os hwm l s =
     (let t = el_thread_id (evloops s l)
      in loop_body os (handle_channel os t) (exec_task os hwm t) l s)"

definition ChatRoomServer_ctor ::
  "'k os \<Rightarrow> net_lib \<Rightarrow> loop \<Rightarrow> sockaddr_in \<Rightarrow> string \<Rightarrow> ('k, 'z) world_scheme \<Rightarrow> ('k, 'z) world_scheme res" where
  "ChatRoomServer_ctor os net l addr name s =
     bind_res (TcpServer_ctor os net (Some l) addr name kNoReusePort s) (\<lambda>s1.
       let s2 = upd_chat (\<lambda>_. \<lparr>name_conn_map = [], conn_name_map = []\<rparr>) s1;
           s3 = upd_server (Server_set_connection_cb (Some FnOnConnection)) s2;
           s4 = upd_server (Server_set_msg_cb (Some FnReadCb)) s3
       in Inr (set_thread_num 3 s4))"

text \<open>\<open>main\<close> up to \<open>loop.Loop()\<close>; \<open>fresh_loop s\<close> is the address of its loop.\<close>

definition main_init ::
  "bool \<Rightarrow> 'k os \<Rightarrow> net_lib \<Rightarrow> tid \<Rightarrow> ('k, 'z) world_scheme \<Rightarrow> ('k, 'z) world_scheme res" where
  "main_init use_poll os net t s =
     (let l = fresh_loop s; wc = fresh_chan s;
          s0 = s\<lparr>fresh_loop := l + 1, fresh_chan := wc + 1\<rparr>
      in bind_res (EventLoop_ctor use_poll os t l wc s0) (\<lambda>s1.
         bind_res (ChatRoomServer_ctor os net l (SetAddress net 12345 ''127.0.0.1'') ''server#0'' s1)
           (Server_Start os t None (StartLoop use_poll os None))))"

definition main_program ::
  "bool \<Rightarrow> 'k os \<Rightarrow> net_lib \<Rightarrow>
   (hwm_fn \<Rightarrow> conn \<Rightarrow> nat \<Rightarrow> ('k, 'z) world_scheme \<Rightarrow> ('k, 'z) world_scheme res) \<Rightarrow> tid \<Rightarrow>
   ('k, 'z) world_scheme \<Rightarrow> ('k, 'z) world_scheme res option" where
  "main_program use_poll os net hwm t s =
     (case main_init use_poll os net t s of
        Inl e \<Rightarrow> Some (Inl e)
      | Inr s2 \<Rightarrow> Loop os (handle_channel os t) (exec_task os hwm t) (fresh_loop s) s2)"

end
