(* ===== verification/DemoKernel.thy ===== *)
theory DemoKernel
  imports Syscalls
begin

text \<open>
  A small kernel that obeys the laws of theory \<open>Syscalls\<close>: it shows that the laws can hold,
  and the examples run on it. Sockets accept at most \<open>dk_cap\<close> bytes a call, but always one, reads deliver
  the chunks of \<open>dk_inbox\<close>, \<open>epoll_wait\<close> and \<open>accept4\<close> replay scripts, and \<open>dk_halves\<close> records
  the calls of \<open>shutdown\<close>, \<open>dk_failures\<close> counts the calls of \<open>epoll_ctl\<close> that it has refused.
\<close>

record demo =
  dk_wire :: "fd \<Rightarrow> string"
  dk_interest :: "fd \<Rightarrow> fd \<Rightarrow> epoll_event option"
  dk_cap :: nat
  dk_inbox :: "string list"
  dk_ready :: "epoll_event list list"
  dk_incoming :: "(fd \<times> sockaddr_in) list"
  dk_next :: fd
  dk_halves :: "(fd \<times> shut_how) list"
  dk_failures :: nat

definition demo_kernel :: "nat \<Rightarrow> demo" where
  "demo_kernel cap =
     \<lparr>dk_wire = (\<lambda>_. []), dk_interest = (\<lambda>_ _. None), dk_cap = cap, dk_inbox = [],
      dk_ready = [], dk_incoming = [], dk_next = 3, dk_halves = [], dk_failures = 0\<rparr>"

definition demo_open :: "demo \<Rightarrow> (errno + fd) \<times> demo" where
  "demo_open k = (Inr (dk_next k), k\<lparr>dk_next := dk_next k + 1\<rparr>)"

definition demo_epoll :: "demo \<Rightarrow> (errno + fd) \<times> demo" where
  "demo_epoll k =
     (Inr (dk_next k), k\<lparr>dk_next := dk_next k + 1, dk_interest := (dk_interest k)(dk_next k := \<lambda>_. None)\<rparr>)"

definition demo_ctl :: "fd \<Rightarrow> ctl_op \<Rightarrow> fd \<Rightarrow> epoll_event \<Rightarrow> demo \<Rightarrow> int \<times> demo" where
  "demo_ctl ep op fd ev k =
     (if ctl_legal op (dk_interest k ep fd)
      then (0, k\<lparr>dk_interest := (dk_interest k)(ep := (dk_interest k ep)(fd := ctl_effect op ev))\<rparr>)
      else (-1, k\<lparr>dk_failures := dk_failures k + 1\<rparr>))"

definition demo_write :: "fd \<Rightarrow> string \<Rightarrow> demo \<Rightarrow> (errno + nat) \<times> demo" where
  "demo_write fd d k =
     (let cap = max 1 (dk_cap k)
      in (Inr (min cap (length d)),
          k\<lparr>dk_wire := (dk_wire k)(fd := dk_wire k fd @ take cap d)\<rparr>))"

definition demo_readv :: "fd \<Rightarrow> nat list \<Rightarrow> demo \<Rightarrow> (errno + string) \<times> demo" where
  "demo_readv fd lens k =
     (case dk_inbox k of
        [] \<Rightarrow> (Inl EWOULDBLOCK, k)
      | bs # rest \<Rightarrow> (Inr (take (sum_list lens) bs), k\<lparr>dk_inbox := rest\<rparr>))"

definition demo_os :: "demo os" where
  "demo_os =
     \<lparr>sys_epoll_create = demo_epoll,
      sys_epoll_ctl = demo_ctl,
      sys_epoll_wait = (\<lambda>ep n timeout k. case dk_ready k of
          [] \<Rightarrow> (Inr [], k) | evs # rest \<Rightarrow> (Inr (take n evs), k\<lparr>dk_ready := rest\<rparr>)),
      sys_eventfd = demo_open,
      sys_readv = demo_readv,
      sys_read = (\<lambda>fd n k. (Inr (replicate n (CHR 0x00)), k)),
      sys_write = demo_write,
      sys_shutdown = (\<lambda>fd how k. (0, k\<lparr>dk_halves := dk_halves k @ [(fd, how)]\<rparr>)),
      sys_setsockopt = (\<lambda>fd opt v k. (0, k)),
      sys_so_error = (\<lambda>fd k. (Inr 0, k)),
      sys_socket = demo_open,
      sys_bind = (\<lambda>fd addr k. (0, k)),
      sys_listen = (\<lambda>fd n k. (0, k)),
      sys_accept4 = (\<lambda>fd k. case dk_incoming k of
          [] \<Rightarrow> (Inl EWOULDBLOCK, k) | c # rest \<Rightarrow> (Inr c, k\<lparr>dk_incoming := rest\<rparr>)),
      sys_getsockname = (\<lambda>fd k. (Inr \<lparr>sin_family = 2, sin_port = 0, sin_addr = 0\<rparr>, k)),
      sys_close = (\<lambda>fd k. k),
      sys_time = (\<lambda>k. (0, k))\<rparr>"

lemmas demo_calls = demo_os_def demo_open_def demo_ctl_def demo_write_def demo_readv_def

lemma demo_os_simps [simp]:
  "sys_epoll_create demo_os = demo_epoll" "sys_epoll_ctl demo_os = demo_ctl"
  "sys_eventfd demo_os = demo_open" "sys_readv demo_os = demo_readv"
  "sys_write demo_os = demo_write" "sys_socket demo_os = demo_open"
  "sys_shutdown demo_os = (\<lambda>fd how k. (0, k\<lparr>dk_halves := dk_halves k @ [(fd, how)]\<rparr>))"
  by (simp_all add: demo_os_def)

lemma take_min_length: "take (min n (length d)) d = take n d"
  by (cases "n \<le> length d") (simp_all add: min_absorb1 min_absorb2)

lemma demo_laws: "kernel_laws demo_os dk_wire dk_interest"
  unfolding kernel_laws_def readv_law_def write_law_def epoll_law_def quiet_law_def
  by (auto simp: demo_calls take_min_length Let_def split: list.split)

lemma demo_epoll_law: "epoll_law demo_os dk_interest"
  by (rule kernel_lawsD(3) [OF demo_laws])

end
