(* ===== verification/BufferCorrect.thy ===== *)
theory BufferCorrect
  imports MBuffer DemoKernel
begin

text \<open>
  What the byte buffer guarantees, and where it does not: the stream law of the output side,
  the exact lengths an append overruns the vector for, reading from a socket, and the
  conversions to strings on the input side.
\<close>

subsection \<open>The output side\<close>

text \<open>C26. Whatever appends and retrievals a buffer goes through, as long as none overruns: the
  bytes taken out, followed by what is still readable, are what was readable at first followed
  by what was appended, in order, none lost and none doubled; and the indices stay in order.\<close>

theorem buffer_stream:
  assumes "buffer_inv b"
    and "run_queue buffer_content Append Retrive ops b = Inr (out, b')"
  shows "out @ buffer_content b' = buffer_content b @ puts ops \<and> buffer_inv b'"
  using bq.run_queue_stream [OF assms] by blast

definition demo_ops :: "char queue_op list" where
  "demo_ops = [Put ''abcd'', Drain 3, Put ''efghijklmn'', Drain 2, Put ''op'']"

theorem buffer_stream_witness:
  "case run_queue buffer_content Append Retrive demo_ops (Buffer 16) of
     Inl e \<Rightarrow> False
   | Inr (out, b') \<Rightarrow>
       out = ''abcde'' \<and> buffer_content b' = ''fghijklmnop'' \<and>
       out @ buffer_content b' = buffer_content (Buffer 16) @ puts demo_ops \<and> buffer_inv b'"
proof -
  have "case run_queue buffer_content Append Retrive demo_ops (Buffer 16) of
     Inl e \<Rightarrow> False
   | Inr (out, b') \<Rightarrow> out = ''abcde'' \<and> buffer_content b' = ''fghijklmnop''"
    by code_simp
  then show ?thesis
    using buffer_stream [OF Buffer_inv, of demo_ops 16] by (auto split: sum.splits)
qed

text \<open>C27. \<open>Append\<close> on a well-formed buffer: with room in the prependable and writable bytes,
  the eight reserved ones not counted, or with so much data that the vector grows, the data is
  appended to the content; for the lengths in between, which \<open>EnsureWriteableBytes\<close> takes to fit,
  the copy runs past the end of the vector.\<close>

theorem Append_exact:
  assumes "buffer_inv b"
  shows "if length xs + kCheapPrepend \<le> PrependableBytes b + WriteAbleBytes b
            \<or> PrependableBytes b + WriteAbleBytes b < length xs
         then \<exists>b'. Append xs b = Inr b' \<and> buffer_inv b' \<and> buffer_content b' = buffer_content b @ xs
         else Append xs b = Inl HeapOverrun"
  using Append_fits [OF assms, of xs] Append_overrun [OF assms, of xs]
  by (auto simp: append_fits_def)

theorem Append_exact_witness:
  "Append (replicate 1030 (CHR ''x'')) (Buffer kInitialSize) = Inl HeapOverrun \<and>
   (\<exists>b'. Append (replicate 1024 (CHR ''x'')) (Buffer kInitialSize) = Inr b' \<and>
         buffer_content b' = replicate 1024 (CHR ''x'')) \<and>
   (\<exists>b'. Append (replicate 1033 (CHR ''x'')) (Buffer kInitialSize) = Inr b' \<and>
         buffer_content b' = replicate 1033 (CHR ''x''))"
  using Append_exact [OF Buffer_inv, of "replicate 1030 (CHR ''x'')" kInitialSize]
    Append_exact [OF Buffer_inv, of "replicate 1024 (CHR ''x'')" kInitialSize]
    Append_exact [OF Buffer_inv, of "replicate 1033 (CHR ''x'')" kInitialSize]
  by (auto simp: Buffer_sizes kInitialSize_def kCheapPrepend_def)

text \<open>As long as what is queued, and all that will be appended, fits in the vector beside the
  eight reserved bytes, no history of appends and retrievals overruns it or grows it.\<close>

theorem history_within_capacity:
  assumes "buffer_inv b"
    and "length (buffer_content b) + length (puts ops) + kCheapPrepend \<le> length (buf b)"
  shows "\<exists>out b'. run_queue buffer_content Append Retrive ops b = Inr (out, b') \<and>
           out @ buffer_content b' = buffer_content b @ puts ops"
proof -
  obtain r where "run_queue buffer_content Append Retrive ops b = Inr r"
    using run_queue_capacity [OF assms] by blast
  then show ?thesis
    using bq.run_queue_stream [OF assms(1), of ops] by (cases r) auto
qed

theorem history_within_capacity_witness:
  "\<exists>out b'. run_queue buffer_content Append Retrive demo_ops (Buffer 16) = Inr (out, b') \<and>
      out @ buffer_content b' = ''abcdefghijklmnop''"
  using history_within_capacity [OF Buffer_inv, of 16 demo_ops]
  by (simp add: demo_ops_def Buffer_sizes kCheapPrepend_def)

subsection \<open>Reading from a socket\<close>

text \<open>C28. \<open>ReadFd\<close> with \<open>readv\<close> delivering \<open>bytes\<close>: they are appended to the content and counted,
  whatever part of them had to go through the stack buffer, except when between one and eight
  bytes more than the prependable area minus eight spill over: then the append of the spilled
  bytes overruns the vector.\<close>

theorem ReadFd_exact:
  assumes "buffer_inv b" and "sys_readv os fd (readv_lens b) k = (Inr bytes, k')"
  shows "if length bytes \<le> WriteAbleBytes b
            \<or> length bytes - WriteAbleBytes b + kCheapPrepend \<le> PrependableBytes b
            \<or> PrependableBytes b < length bytes - WriteAbleBytes b
         then \<exists>b'. ReadFd os fd b k = Inr (Inr (length bytes), b', k') \<and> buffer_inv b' \<and>
                   buffer_content b' = buffer_content b @ bytes
         else ReadFd os fd b k = Inl HeapOverrun"
  using ReadFd_bytes [OF assms] by (auto simp: read_fits_def)

text \<open>A kernel whose next \<open>readv\<close> has \<open>n\<close> bytes: 1024 fit, 1025 overrun, 1033 make it grow.\<close>

definition demo_input :: "nat \<Rightarrow> demo" where
  "demo_input n = (demo_kernel 0)\<lparr>dk_inbox := [replicate n (CHR ''x'')]\<rparr>"

lemma demo_input_readv:
  "n \<le> 65536 \<Longrightarrow> sys_readv demo_os fd (readv_lens (Buffer kInitialSize)) (demo_input n) =
     (Inr (replicate n (CHR ''x'')), demo_kernel 0)"
  by (simp add: demo_calls demo_input_def demo_kernel_def readv_lens_def Buffer_sizes
      kInitialSize_def extra_buf_size_def min_absorb2)

theorem ReadFd_exact_witness:
  "ReadFd demo_os 5 (Buffer kInitialSize) (demo_input 1025) = Inl HeapOverrun \<and>
   (\<exists>b'. ReadFd demo_os 5 (Buffer kInitialSize) (demo_input 1024) =
           Inr (Inr 1024, b', demo_kernel 0) \<and> buffer_content b' = replicate 1024 (CHR ''x'')) \<and>
   (\<exists>b'. ReadFd demo_os 5 (Buffer kInitialSize) (demo_input 1033) =
           Inr (Inr 1033, b', demo_kernel 0) \<and> buffer_content b' = replicate 1033 (CHR ''x''))"
  using ReadFd_exact [OF Buffer_inv demo_input_readv, of 1025 5]
    ReadFd_exact [OF Buffer_inv demo_input_readv, of 1024 5]
    ReadFd_exact [OF Buffer_inv demo_input_readv, of 1033 5]
  by (auto simp: Buffer_sizes kInitialSize_def kCheapPrepend_def)

subsection \<open>Strings out of the buffer\<close>

lemma content_segment_room:
  "buffer_inv b \<Longrightarrow> kCheapPrepend + ReadeableBytes b \<le> length (buf b)"
  by (auto simp: buffer_inv_def buffer_sizes)

text \<open>C29. \<open>RetriveAsString\<close> moves the read index before it copies: asked for fewer bytes than
  are readable it returns the bytes that follow them (and reads past the vector when there are
  not that many), and asked for all of them it returns what lies at the start of the vector,
  which is the content only if nothing was retrieved before.\<close>

theorem RetriveAsString_exact:
  assumes "buffer_inv b"
  shows "(if len < ReadeableBytes b
          then RetriveAsString len b =
                 (if reader_index b + 2 * len \<le> length (buf b)
                  then Inr (segment (reader_index b + len) (reader_index b + 2 * len) (buf b),
                            b\<lparr>reader_index := reader_index b + len\<rparr>)
                  else Inl HeapOverread)
          else RetriveAllAsString b =
                 Inr (segment kCheapPrepend (kCheapPrepend + ReadeableBytes b) (buf b),
                      RetriveAll b)) \<and>
         (reader_index b = kCheapPrepend \<longrightarrow>
            RetriveAllAsString b = Inr (buffer_content b, RetriveAll b))"
proof -
  have "RetriveAllAsString b =
      Inr (segment kCheapPrepend (kCheapPrepend + ReadeableBytes b) (buf b), RetriveAll b)"
    using content_segment_room [OF assms]
    by (simp add: RetriveAllAsString_def RetriveAsString_def Retrive_def Peek_def segment_def
        RetriveAll_def Let_def)
  moreover have "RetriveAsString len b =
      (if reader_index b + 2 * len \<le> length (buf b)
       then Inr (segment (reader_index b + len) (reader_index b + 2 * len) (buf b),
                 b\<lparr>reader_index := reader_index b + len\<rparr>)
       else Inl HeapOverread)" if "len < ReadeableBytes b"
  proof -
    have "len \<le> length (buf b) - (reader_index b + len) \<longleftrightarrow> reader_index b + 2 * len \<le> length (buf b)"
      using that assms by (auto simp: buffer_inv_def buffer_sizes)
    then show ?thesis
      using that by (simp add: RetriveAsString_def Retrive_def Peek_def segment_def Let_def)
  qed
  ultimately show ?thesis using RetriveAllAsString_whole [OF assms] by simp
qed

definition demo_abcdef :: buffer where
  "demo_abcdef = \<lparr>buf = replicate 8 (CHR 0x00) @ ''abcdef..'', reader_index = 8,
                  writer_index = 14\<rparr>"

theorem RetriveAsString_exact_witness:
  "RetriveAsString 2 demo_abcdef = Inr (''cd'', demo_abcdef\<lparr>reader_index := 10\<rparr>) \<and>
   RetriveAllAsString (Retrive 2 demo_abcdef) = Inr (''abcd'', RetriveAll demo_abcdef) \<and>
   buffer_content (Retrive 2 demo_abcdef) = ''cdef''"
proof -
  have inv: "buffer_inv demo_abcdef" "buffer_inv (Retrive 2 demo_abcdef)" by code_simp+
  have vals: "ReadeableBytes demo_abcdef = 6" "ReadeableBytes (Retrive 2 demo_abcdef) = 4"
    "RetriveAll (Retrive 2 demo_abcdef) = RetriveAll demo_abcdef"
    "segment 10 12 (buf demo_abcdef) = ''cd''" "segment 8 12 (buf (Retrive 2 demo_abcdef)) = ''abcd''"
    "reader_index demo_abcdef = 8" "length (buf demo_abcdef) = 16"
    "buffer_content (Retrive 2 demo_abcdef) = ''cdef''"
    by code_simp+
  show ?thesis
    using RetriveAsString_exact [OF inv(1), of 2] RetriveAsString_exact [OF inv(2), of 9]
    by (simp add: vals kCheapPrepend_def)
qed

subsection \<open>The input side\<close>

text \<open>
  The input buffer of a connection sees reads from the socket and, in the message callback,
  \<open>RetriveAllAsString\<close>. The run returns the bytes \<open>readv\<close> delivered and the strings taken.
\<close>

datatype input_event = Readable | TakeAll

definition delivered :: "(errno + string) \<times> 'k \<Rightarrow> string" where
  "delivered r = (case fst r of Inl e \<Rightarrow> [] | Inr bytes \<Rightarrow> bytes)"

fun run_input ::
  "'k os \<Rightarrow> fd \<Rightarrow> input_event list \<Rightarrow> buffer \<Rightarrow> 'k \<Rightarrow> (string \<times> string \<times> buffer \<times> 'k) res" where
  "run_input os fd [] b k = Inr ([], [], b, k)"
| "run_input os fd (Readable # evs) b k =
     bind_res (ReadFd os fd b k) (\<lambda>(r, b1, k1).
     bind_res (run_input os fd evs b1 k1) (\<lambda>(recv, taken, b2, k2).
       Inr (delivered (sys_readv os fd (readv_lens b) k) @ recv, taken, b2, k2)))"
| "run_input os fd (TakeAll # evs) b k =
     bind_res (RetriveAllAsString b) (\<lambda>(str, b1).
     bind_res (run_input os fd evs b1 k) (\<lambda>(recv, taken, b2, k2).
       Inr (recv, str @ taken, b2, k2)))"

lemma ReadFd_delivered:
  assumes "buffer_inv b" "reader_index b = kCheapPrepend" "ReadFd os fd b k = Inr (r, b1, k1)"
  shows "buffer_inv b1" "reader_index b1 = kCheapPrepend"
    "buffer_content b1 = buffer_content b @ delivered (sys_readv os fd (readv_lens b) k)"
proof -
  obtain res k' where rv: "sys_readv os fd (readv_lens b) k = (res, k')" by fastforce
  have "buffer_inv b1 \<and> reader_index b1 = kCheapPrepend \<and>
    buffer_content b1 = buffer_content b @ delivered (sys_readv os fd (readv_lens b) k)"
  proof (cases res)
    case (Inl e)
    with rv assms show ?thesis by (simp add: ReadFd_error delivered_def)
  next
    case (Inr bytes)
    then show ?thesis
      using ReadFd_bytes [OF assms(1), of os fd k bytes k'] rv assms(2,3)
      by (auto simp: delivered_def split: if_splits)
  qed
  then show "buffer_inv b1" "reader_index b1 = kCheapPrepend"
    "buffer_content b1 = buffer_content b @ delivered (sys_readv os fd (readv_lens b) k)" by auto
qed

lemma run_input_bytes:
  "run_input os fd evs b k = Inr (recv, taken, b', k') \<Longrightarrow> buffer_inv b \<Longrightarrow>
     reader_index b = kCheapPrepend \<Longrightarrow>
     taken @ buffer_content b' = buffer_content b @ recv \<and> buffer_inv b' \<and>
     reader_index b' = kCheapPrepend"
proof (induction evs arbitrary: b k recv taken)
  case (Cons ev evs)
  show ?case
  proof (cases ev)
    case Readable
    with Cons.prems obtain r b1 k1 recv1 where step: "ReadFd os fd b k = Inr (r, b1, k1)"
      and rest: "run_input os fd evs b1 k1 = Inr (recv1, taken, b', k')"
      and recv: "recv = delivered (sys_readv os fd (readv_lens b) k) @ recv1"
      by (auto simp: bind_res_Inr)
    note one = ReadFd_delivered [OF Cons.prems(2,3) step]
    from Cons.IH [OF rest one(1,2)] show ?thesis by (simp add: recv one(3))
  next
    case TakeAll
    with Cons.prems obtain recv1 taken1 where
      rest: "run_input os fd evs (RetriveAll b) k = Inr (recv, taken1, b', k')"
      and taken: "taken = buffer_content b @ taken1"
      by (auto simp: bind_res_Inr RetriveAllAsString_whole)
    from Cons.IH [OF rest] Cons.prems show ?thesis by (simp add: taken RetriveAll_inv)
  qed
qed simp

text \<open>On the input side of a new connection, which takes whole buffers only, the strings the
  message callback gets are the bytes the socket delivered, in order, none lost and none
  doubled: the callback has seen all but what the buffer still holds.\<close>

theorem input_stream:
  assumes "run_input os fd evs (Buffer n) k = Inr (recv, taken, b', k')"
  shows "recv = taken @ buffer_content b'"
  using run_input_bytes [OF assms] by (simp add: Buffer_sizes)

theorem input_stream_witness:
  "let k = (demo_kernel 0)\<lparr>dk_inbox := [''hey '', ''you'']\<rparr>;
       run = run_input demo_os 5 [Readable, TakeAll, Readable] (Buffer 4) k in
   (\<exists>b' k'. run = Inr (''hey you'', ''hey '', b', k')) \<and>
   (\<forall>b' k'. run = Inr (''hey you'', ''hey '', b', k') \<longrightarrow>
       ''hey you'' = ''hey '' @ buffer_content b')"
proof -
  let ?k = "(demo_kernel 0)\<lparr>dk_inbox := [''hey '', ''you'']\<rparr>"
  have b8: "Buffer 4 =
      \<lparr>buf = [CHR 0x00, CHR 0x00, CHR 0x00, CHR 0x00, CHR 0x00, CHR 0x00,
         CHR 0x00, CHR 0x00, CHR 0x00, CHR 0x00, CHR 0x00, CHR 0x00],
       reader_index = 8, writer_index = 8\<rparr>"
    by code_simp
  have "\<exists>b' k'. run_input demo_os 5 [Readable, TakeAll, Readable] (Buffer 4) ?k =
      Inr (''hey you'', ''hey '', b', k')"
    by (simp add: demo_calls delivered_def ReadFd_def RetriveAllAsString_def RetriveAsString_def
        Retrive_def RetriveAll_def Peek_def b8 buffer_sizes kCheapPrepend_def write_at_def
        readv_lens_def extra_buf_size_def demo_kernel_def Let_def)
  then show ?thesis
    using input_stream [of demo_os 5 "[Readable, TakeAll, Readable]" 4 ?k] by (auto simp: Let_def)
qed

end
