(* ===== verification/PollerCorrect.thy ===== *)
theory PollerCorrect
  imports Poller DemoKernel
begin

text \<open>
  What the channels and their poller guarantee: the order of the callbacks of one event, the
  agreement of the kernel's interest list with the channels over any history of channel
  operations, and what a poll stores.
\<close>

subsection \<open>Dispatch\<close>

text \<open>The callbacks an event runs are exactly those set for the reported bits, in the order
  close (\<open>EPOLLHUP\<close> without \<open>EPOLLIN\<close>), error, read (\<open>EPOLLIN\<close> or \<open>EPOLLPRI\<close>), write, each once
  and each on the state its predecessor left, the first fault ending them; none of them runs
  when the tied connection is gone.\<close>

theorem HandleEvent_order:
  "HandleEvent alive call ch t s =
     (if ch_tied ch \<and> (case ch_tie ch of None \<Rightarrow> True | Some c \<Rightarrow> \<not> alive c s) then Inr s
      else foldR (\<lambda>f. call f t) (dispatched ch) s)"
  by (simp add: HandleEvent_def HandleEventWithGuard_dispatched split: option.split)

subsection \<open>Registration\<close>

text \<open>C14. Channels with descriptors of their own can be enabled, disabled and removed in any order
  and any number of times: none ends the process, none makes the kernel refuse an \<open>epoll_ctl\<close> (a
  refusal of a deletion would only be logged; a kernel that counts its refusals counts none), and
  afterwards the kernel watches each of them, for the events and with the pointer, exactly as the
  history of this one channel says.\<close>

theorem registry_refines:
  fixes s :: "('k, 'z) pstate_scheme"
  assumes ok: "reg_ok os interest l C s" "snd ` set ops \<subseteq> C" and fails: "counts_failures os fails"
  shows "\<exists>s'. run_registry (chan_oper os) ops s = Inr s' \<and> poller_ok interest l s' \<and>
    fails (kern s') = fails (kern s) \<and>
    (\<forall>c \<in> C. case fold chan_spec (ops_on c ops) (chan_view s c) of
        (fd, index, events) \<Rightarrow>
          fd = ch_fd (chans s c) \<and>
          interest (kern s') (epoll_fd (pollers s' l)) fd =
            (if index = kAdded then Some \<lparr>ev_events = events, ev_ptr = c\<rparr> else None))"
proof -
  have "reg_quiet os interest fails (fails (kern s)) l C s" using ok(1) fails by (simp add: reg_quiet_def)
  from reg_counted.run_refines [OF this ok(2)] obtain s' where s': "run_registry (chan_oper os) ops s = Inr s'" "reg_ok os interest l C s'"
    "chan_view s' = (\<lambda>c. fold chan_spec (ops_on c ops) (chan_view s c))" and quiet: "fails (kern s') = fails (kern s)"
    by (auto simp: reg_quiet_def)
  have fd: "fst (fold chan_spec ps v) = fst v" for ps and v :: "fd \<times> int \<times> 32 word"
    by (induction ps arbitrary: v) (simp_all add: chan_spec_def split: prod.split)
  have per: "case fold chan_spec (ops_on c ops) (chan_view s c) of
        (fd, index, events) \<Rightarrow>
          fd = ch_fd (chans s c) \<and>
          interest (kern s') (epoll_fd (pollers s' l)) fd =
            (if index = kAdded then Some \<lparr>ev_events = events, ev_ptr = c\<rparr> else None)"
    if "c \<in> C" for c
    using reg_ok_interest [OF s'(2) that] fd [of "ops_on c ops" "chan_view s c"] fun_cong [OF s'(3), of c]
    by (cases "fold chan_spec (ops_on c ops) (chan_view s c)") (simp add: chan_view_def)
  have "poller_ok interest l s'" using s'(2) by (simp add: reg_ok_def)
  then show ?thesis by (intro exI [of _ s'] conjI ballI s'(1) quiet per)
qed

text \<open>Two channels of loop 0, on descriptors 5 and 6; every other address belongs to loop 1.\<close>

definition demo_pstate :: "demo pstate" where
  "demo_pstate =
     \<lparr>kern = demo_kernel 100,
      chans = (\<lambda>c. if c = 0 then Channel 0 5 else if c = 1 then Channel 0 6 else Channel 1 0),
      pollers = (\<lambda>l. \<lparr>epoll_fd = int l + 100, p_channels = Map.empty, events_size = 16\<rparr>)\<rparr>"

lemma demo_reg_ok: "reg_ok demo_os dk_interest 0 {0, 1} demo_pstate"
  unfolding reg_ok_def poller_ok_def
  by (simp add: demo_epoll_law demo_pstate_def demo_kernel_def Channel_def kNew_def)

theorem registry_refines_witness:
  "\<exists>s'. run_registry (chan_oper demo_os)
      [(OpEnableReading, 0), (OpEnableReading, 1), (OpDisableAll, 0), (OpEnableWriting, 1),
       (OpRemove, 0), (OpRemove, 0)] demo_pstate = Inr s' \<and>
     dk_failures (kern s') = 0 \<and>
     dk_interest (kern s') (epoll_fd (pollers s' 0)) 5 = None \<and>
     dk_interest (kern s') (epoll_fd (pollers s' 0)) 6 = Some \<lparr>ev_events = 7, ev_ptr = 1\<rparr>"
proof -
  have fails: "counts_failures demo_os dk_failures" by (simp add: counts_failures_def demo_ctl_def)
  show ?thesis
    using registry_refines [OF demo_reg_ok _ fails, of "[(OpEnableReading, 0), (OpEnableReading, 1),
        (OpDisableAll, 0), (OpEnableWriting, 1), (OpRemove, 0), (OpRemove, 0)]"]
    by (auto simp: chan_spec_def chan_view_def demo_pstate_def demo_kernel_def Channel_def channel_index channel_events)
qed

subsection \<open>Polling\<close>

lemma FillActivechannels_all:
  "FillActivechannels evs active s =
     (active @ map ev_ptr evs, fold (\<lambda>ev. upd_chan (ev_ptr ev) (set_revents (ev_events ev))) evs s)"
  by (induction evs arbitrary: active s) simp_all

definition reported :: "epoll_event list \<Rightarrow> chan \<Rightarrow> channel \<Rightarrow> channel" where
  "reported evs c ch =
     (if c \<in> ev_ptr ` set evs
      then set_revents (ev_events (last (filter (\<lambda>ev. ev_ptr ev = c) evs))) ch else ch)"

lemma fold_set_revents:
  fixes evs :: "epoll_event list" and s :: "('k, 'z) pstate_scheme"
  defines "s' \<equiv> fold (\<lambda>ev. upd_chan (ev_ptr ev) (set_revents (ev_events ev))) evs s"
  shows "chans s' = (\<lambda>c. reported evs c (chans s c))" "kern s' = kern s" "pollers s' = pollers s"
    "pstate.more s' = pstate.more s"
  unfolding s'_def
  by (induction evs rule: rev_induct) (auto simp: reported_def set_revents_def intro!: ext)

text \<open>A poll that the kernel answers with \<open>evs\<close> makes exactly their channels active, in the
  kernel's order, after those already listed; each of them holds the last events reported for
  it and no other channel changes; the room for the next answer doubles exactly when this one
  was full. An error of \<open>epoll_wait\<close> makes no channel active and changes none.\<close>

theorem Poll_exact:
  "case Poll os l timeout active s of (now, active', s') \<Rightarrow>
     (case fst (sys_epoll_wait os (epoll_fd (pollers s l)) (events_size (pollers s l)) timeout
             (kern s)) of
        Inl e \<Rightarrow> active' = active \<and> chans s' = chans s \<and> pollers s' = pollers s
      | Inr evs \<Rightarrow>
          active' = active @ map ev_ptr evs \<and>
          chans s' = (\<lambda>c. reported evs c (chans s c)) \<and>
          pollers s' = (pollers s)(l := (pollers s l)\<lparr>events_size :=
            (if evs \<noteq> [] \<and> length evs = events_size (pollers s l)
             then 2 * events_size (pollers s l) else events_size (pollers s l))\<rparr>)) \<and>
     pstate.more s' = pstate.more s"
proof -
  have same: "(pollers s)(l := (pollers s l)\<lparr>events_size := events_size (pollers s l)\<rparr>) = pollers s"
    by simp
  have none: "(\<lambda>c. reported [] c (chans s c)) = chans s" by (simp add: reported_def)
  show ?thesis
    by (simp add: Poll_def Let_def FillActivechannels_all fold_set_revents same none mult.commute
        split: prod.split sum.split)
qed

end
