(* ===== verification/LoopCorrect.thy ===== *)
theory LoopCorrect
  imports EventLoop DemoKernel
begin

text \<open>
  What one thread can rely on of its event loop: its construction, the \<open>Quit\<close> that comes too early,
  and what becomes of functors that are queued while the pending ones run.
\<close>

subsection \<open>Construction\<close>

text \<open>A loop constructed on fresh descriptors in a thread that has none is the thread's loop,
  idle, and its poller watches the event descriptor for reading, with the callback that reads
  it; a second loop in one thread ends the process, and so does, by a null pointer, a process
  started with \<open>MUDUO_USE_POLL\<close> set.\<close>

theorem EventLoop_ctor_branches:
  assumes law: "epoll_law os interest"
    and ep: "sys_epoll_create os (kern s) = (Inr ep, k1)"
    and efd: "sys_eventfd os (if use_poll then kern s else k1) = (Inr efd, k2)"
    and new: "interest k2 ep efd = None"
  shows "if thread_loop s t \<noteq> None then EventLoop_ctor use_poll os t l wc s = Inl ExitFailure
    else if use_poll then EventLoop_ctor use_poll os t l wc s = Inl NullDeref
    else \<exists>s'. EventLoop_ctor use_poll os t l wc s = Inr s' \<and> thread_loop s' = (thread_loop s)(t \<mapsto> l) \<and>
      el_thread_id (evloops s' l) = t \<and> el_pending (evloops s' l) = [] \<and>
      \<not> el_quit (evloops s' l) \<and> el_wakeup_fd (evloops s' l) = efd \<and>
      ch_read_cb (chans s' wc) = Some (LoopHandleRead l) \<and>
      p_channels (pollers s' l) = [efd \<mapsto> wc] \<and>
      interest (kern s') ep efd = Some \<lparr>ev_events = kReadEvent, ev_ptr = wc\<rparr>"
proof -
  have legal: "ctl_legal EPOLL_CTL_ADD (interest k2 ep efd)" using new by (simp add: ctl_legal_def)
  obtain k3 where ctl: "sys_epoll_ctl os ep EPOLL_CTL_ADD efd \<lparr>ev_events = kReadEvent, ev_ptr = wc\<rparr> k2 = (0, k3)"
    and int: "interest k3 = (interest k2)(ep := (interest k2 ep)
        (efd := ctl_effect EPOLL_CTL_ADD \<lparr>ev_events = kReadEvent, ev_ptr = wc\<rparr>))"
    using epoll_law_legal [OF law legal] by metis
  show ?thesis
    using ep efd ctl
    by (auto simp: EventLoop_ctor_def NewDefaultePoller_def EpollPoller_def CreateEventFd_def Let_def
        EnableReading_def Channel_Update_def UpdateChannel_def Update_def Channel_def add_read_def
        int ctl_effect_def upd_loop_def upd_chan_def upd_poller_def kNew_def)
qed

definition demo_lstate :: "demo lstate" where
  "demo_lstate =
     \<lparr>kern = demo_kernel 100, chans = (\<lambda>_. Channel 9 0),
      pollers = (\<lambda>l. \<lparr>epoll_fd = - int l - 2, p_channels = Map.empty, events_size = 16\<rparr>),
      evloops = (\<lambda>_. \<lparr>el_looping = False, el_quit = False, el_calling = False, el_thread_id = 0,
        el_return_time = 0, el_wakeup_fd = -1, el_wakeup_channel = 0, el_active = [],
        el_pending = []\<rparr>),
      thread_loop = (\<lambda>_. None), fresh_loop = 0, fresh_chan = 0, fresh_tid = 2\<rparr>"

lemma demo_lstate_simps [simp]:
  "kern demo_lstate = demo_kernel 100" "thread_loop demo_lstate = (\<lambda>_. None)"
  by (simp_all add: demo_lstate_def)

lemma demo_open_fresh:
  "demo_open (demo_kernel n) = (Inr 3, (demo_kernel n)\<lparr>dk_next := 4\<rparr>)"
  "demo_open ((demo_kernel n)\<lparr>dk_next := 4\<rparr>) = (Inr 4, (demo_kernel n)\<lparr>dk_next := 5\<rparr>)"
  "demo_epoll (demo_kernel n) = (Inr 3, (demo_kernel n)\<lparr>dk_next := 4\<rparr>)"
  by (simp_all add: demo_open_def demo_epoll_def demo_kernel_def fun_eq_iff)

theorem EventLoop_ctor_branches_witness:
  "(\<exists>s'. EventLoop_ctor False demo_os 1 0 0 demo_lstate = Inr s' \<and>
      thread_loop s' = [1 \<mapsto> 0] \<and> dk_interest (kern s') 3 4 = Some \<lparr>ev_events = 3, ev_ptr = 0\<rparr>) \<and>
   EventLoop_ctor False demo_os 1 1 1 (demo_lstate\<lparr>thread_loop := [1 \<mapsto> 0]\<rparr>) = Inl ExitFailure \<and>
   EventLoop_ctor True demo_os 1 0 0 demo_lstate = Inl NullDeref"
  using EventLoop_ctor_branches [OF demo_epoll_law, of demo_lstate 3 "(demo_kernel 100)\<lparr>dk_next := 4\<rparr>"
      False 4 "(demo_kernel 100)\<lparr>dk_next := 5\<rparr>" 1 0 0]
    EventLoop_ctor_branches [OF demo_epoll_law, of "demo_lstate\<lparr>thread_loop := [1 \<mapsto> 0]\<rparr>" 3
      "(demo_kernel 100)\<lparr>dk_next := 4\<rparr>" False 4 "(demo_kernel 100)\<lparr>dk_next := 5\<rparr>" 1 1 1]
    EventLoop_ctor_branches [OF demo_epoll_law, of demo_lstate 3 "(demo_kernel 100)\<lparr>dk_next := 4\<rparr>"
      True 3 "(demo_kernel 100)\<lparr>dk_next := 4\<rparr>" 1 0 0]
  by (auto simp: demo_open_fresh) (auto simp: demo_kernel_def channel_events)

subsection \<open>Running\<close>

text \<open>A \<open>Quit\<close> that comes before \<open>Loop\<close> is lost: \<open>Loop\<close> clears the flag on entry, so that it does
  what it does without the call (in the loop's own thread, where \<open>Quit\<close> writes no wakeup).\<close>

theorem quit_before_loop_lost:
  "Loop os handle exec l (Quit os (el_thread_id (evloops s l)) l s) = Loop os handle exec l s"
  by (simp add: Loop_def Quit_def IsInLoopThread_def upd_loop_def)

subsection \<open>Pending functors\<close>

lemma foldR_pending:
  assumes "\<And>f s1 s2. exec f s1 = Inr s2 \<Longrightarrow> el_pending (evloops s2 l) = el_pending (evloops s1 l) @ requeued f"
  shows "foldR exec fs s = Inr s' \<Longrightarrow>
    el_pending (evloops s' l) = el_pending (evloops s l) @ concat (map requeued fs)"
proof (induction fs arbitrary: s)
  case (Cons f fs)
  then obtain s1 where s1: "exec f s = Inr s1" "foldR exec fs s1 = Inr s'" by (auto simp: bind_res_Inr)
  with Cons.IH [OF s1(2)] assms [OF s1(1)] show ?case by simp
qed simp

text \<open>\<open>DoPendingFunctors\<close> runs the functors that were pending when it swapped the queue and no
  other: whatever these queue in turn (\<open>requeued f\<close>) is pending afterwards, in that order, for the
  next iteration, so that one call always ends; and \<open>calling_pending_functors_\<close> is clear again.\<close>

theorem DoPendingFunctors_batch:
  assumes "\<And>f s1 s2. exec f s1 = Inr s2 \<Longrightarrow> el_pending (evloops s2 l) = el_pending (evloops s1 l) @ requeued f"
    and "DoPendingFunctors exec l s = Inr s'"
  shows "el_pending (evloops s' l) = concat (map requeued (el_pending (evloops s l))) \<and>
         \<not> el_calling (evloops s' l)"
proof -
  let ?fs = "el_pending (evloops s l)"
  let ?s1 = "upd_loop l (\<lambda>el. el\<lparr>el_calling := True\<rparr>) s"
  define s2 where "s2 = upd_loop l (\<lambda>el. snd (swap_pending el)) ?s1"
  have "el_pending (evloops s2 l) = []" by (simp add: s2_def tq.swap_empty)
  moreover have "fst (swap_pending (evloops ?s1 l)) = ?fs" by (simp add: tq.swap_batch)
  then obtain s3 where "foldR exec ?fs s2 = Inr s3"
    and s': "s' = upd_loop l (\<lambda>el. el\<lparr>el_calling := False\<rparr>) s3"
    using assms(2) unfolding DoPendingFunctors_def Let_def bind_res_Inr s2_def [symmetric] by auto
  ultimately show ?thesis using foldR_pending [OF assms(1), where fs = ?fs and s = s2 and s' = s3] by simp
qed

text \<open>Two functors, each of which queues another one.\<close>

definition demo_requeue :: "task \<Rightarrow> demo lstate \<Rightarrow> demo lstate res" where
  "demo_requeue f s =
     Inr (case f of BindConnectDestroyed c \<Rightarrow> QueueInLoop demo_os 0 0 BindListen s | _ \<Rightarrow> s)"

definition demo_two_pending :: "demo lstate" where
  "demo_two_pending =
     QueueInLoop demo_os 0 0 (BindShutdownInLoop 1) (QueueInLoop demo_os 0 0 (BindConnectDestroyed 1) demo_lstate)"

theorem DoPendingFunctors_batch_witness:
  "\<exists>s'. DoPendingFunctors demo_requeue 0 demo_two_pending = Inr s' \<and>
        el_pending (evloops s' 0) = [BindListen]"
proof -
  have requeued: "demo_requeue f s1 = Inr s2 \<Longrightarrow>
      el_pending (evloops s2 0) = el_pending (evloops s1 0) @
        (case f of BindConnectDestroyed c \<Rightarrow> [BindListen] | _ \<Rightarrow> [])" for f s1 s2
    by (auto simp: demo_requeue_def QueueInLoop_def WakeUp_def push_pending_def Let_def split: task.splits)
  have pending: "el_pending (evloops demo_two_pending 0) = [BindConnectDestroyed 1, BindShutdownInLoop 1]"
    by (simp add: demo_two_pending_def QueueInLoop_def WakeUp_def push_pending_def IsInLoopThread_def
        demo_lstate_def)
  then obtain s' where "DoPendingFunctors demo_requeue 0 demo_two_pending = Inr s'"
    by (simp add: DoPendingFunctors_def swap_pending_def demo_requeue_def Let_def)
  with DoPendingFunctors_batch [where exec = demo_requeue, OF requeued] pending show ?thesis by fastforce
qed

end
