(* ===== verification/LoopThreads.thy ===== *)
theory LoopThreads
  imports EventLoop
begin

text \<open>
  The interleavings of one event loop: its own thread, which runs \<open>EventLoop::Loop\<close>, and any
  number of other threads that call \<open>QueueInLoop\<close> and \<open>Quit\<close>
  (\<open>server/src/event_loop.cpp\<close>). A step is one access to shared memory: a critical section
  under \<open>mtx_\<close>, a store to an atomic flag, one \<open>read\<close> or \<open>write\<close> of the eventfd. The counter
  of the eventfd is \<open>ls_efd\<close> (the kernel adds what is written and a read clears it); the
  object is the \<open>event_loop\<close> of theory \<open>EventLoop\<close>, changed by the same critical sections.
\<close>

subsection \<open>State\<close>

text \<open>
  Where the loop's thread is: before \<open>Loop\<close>, at its two stores, at the test of \<open>quit_\<close>, in
  \<open>epoll_wait\<close>, among the handlers (with the wakeup channel still to be read or not), before
  the swap in \<open>DoPendingFunctors\<close>, running the batch, between the push and the wakeup of a
  functor that queues another, and after the loop.
\<close>

datatype loop_pc =
    PcBefore
  | PcEnter
  | PcCheck
  | PcPoll
  | PcHandle bool
  | PcSwap
  | PcRun "task list"
  | PcRunWake "task list"
  | PcExit

text \<open>A caller thread is idle, or has made its store and still has to write to the eventfd.\<close>

datatype caller_pc = CIdle | CPushed | CQuit

record loop_sys =
  ls_el :: event_loop
  ls_efd :: nat
  ls_pc :: loop_pc
  ls_caller :: "tid \<Rightarrow> caller_pc"
  ls_queued :: "task list"    \<comment> \<open>ghost: the functors queued so far\<close>
  ls_done :: "task list"      \<comment> \<open>ghost: the functors run so far\<close>
  ls_quits :: nat             \<comment> \<open>ghost: completed calls of \<open>Quit\<close>\<close>

definition initial_loop :: "tid \<Rightarrow> loop_sys" where
  "initial_loop t =
     \<lparr>ls_el = \<lparr>el_looping = False, el_quit = False, el_calling = False, el_thread_id = t,
        el_return_time = 0, el_wakeup_fd = 0, el_wakeup_channel = 0, el_active = [],
        el_pending = []\<rparr>,
      ls_efd = 0, ls_pc = PcBefore, ls_caller = (\<lambda>_. CIdle),
      ls_queued = [], ls_done = [], ls_quits = 0\<rparr>"

definition batch :: "loop_pc \<Rightarrow> task list" where
  "batch pc = (case pc of PcRun fs \<Rightarrow> fs | PcRunWake fs \<Rightarrow> fs | _ \<Rightarrow> [])"

subsection \<open>Steps\<close>

inductive loop_step :: "loop_sys \<Rightarrow> loop_sys \<Rightarrow> bool" where
  \<comment> \<open>\<open>Loop\<close>: the stores to \<open>looping_\<close> and \<open>quit_\<close>, the test, the poll\<close>
  set_looping: "ls_pc s = PcBefore \<Longrightarrow>
     loop_step s (s\<lparr>ls_el := (ls_el s)\<lparr>el_looping := True\<rparr>, ls_pc := PcEnter\<rparr>)"
| clear_quit: "ls_pc s = PcEnter \<Longrightarrow>
     loop_step s (s\<lparr>ls_el := (ls_el s)\<lparr>el_quit := False\<rparr>, ls_pc := PcCheck\<rparr>)"
| go_on: "ls_pc s = PcCheck \<Longrightarrow> \<not> el_quit (ls_el s) \<Longrightarrow> loop_step s (s\<lparr>ls_pc := PcPoll\<rparr>)"
| leave: "ls_pc s = PcCheck \<Longrightarrow> el_quit (ls_el s) \<Longrightarrow> loop_step s (s\<lparr>ls_pc := PcExit\<rparr>)"
| poll_returns: "ls_pc s = PcPoll \<Longrightarrow> loop_step s (s\<lparr>ls_pc := PcHandle (0 < ls_efd s)\<rparr>)"
  \<comment> \<open>the handlers: \<open>EventLoop::HandleRead\<close>, a handler that queues a functor or quits\<close>
| read_wakeup: "ls_pc s = PcHandle True \<Longrightarrow> loop_step s (s\<lparr>ls_efd := 0, ls_pc := PcHandle False\<rparr>)"
| handler_queues: "ls_pc s = PcHandle w \<Longrightarrow>
     loop_step s (s\<lparr>ls_el := push_pending f (ls_el s), ls_queued := ls_queued s @ [f]\<rparr>)"
| handler_quits: "ls_pc s = PcHandle w \<Longrightarrow>
     loop_step s (s\<lparr>ls_el := (ls_el s)\<lparr>el_quit := True\<rparr>, ls_quits := Suc (ls_quits s)\<rparr>)"
  \<comment> \<open>\<open>DoPendingFunctors\<close>\<close>
| start_calling: "ls_pc s = PcHandle False \<Longrightarrow>
     loop_step s (s\<lparr>ls_el := (ls_el s)\<lparr>el_calling := True\<rparr>, ls_pc := PcSwap\<rparr>)"
| swap: "ls_pc s = PcSwap \<Longrightarrow> swap_pending (ls_el s) = (fs, el) \<Longrightarrow>
     loop_step s (s\<lparr>ls_el := el, ls_pc := PcRun fs\<rparr>)"
| functor_runs: "ls_pc s = PcRun (f # fs) \<Longrightarrow>
     loop_step s (s\<lparr>ls_pc := PcRun fs, ls_done := ls_done s @ [f]\<rparr>)"
| functor_queues: "ls_pc s = PcRun fs \<Longrightarrow>
     loop_step s (s\<lparr>ls_el := push_pending f (ls_el s), ls_queued := ls_queued s @ [f],
                    ls_pc := PcRunWake fs\<rparr>)"
| functor_wakes: "ls_pc s = PcRunWake fs \<Longrightarrow>
     loop_step s (s\<lparr>ls_efd := ls_efd s + 1, ls_pc := PcRun fs\<rparr>)"
| functor_quits: "ls_pc s = PcRun fs \<Longrightarrow>
     loop_step s (s\<lparr>ls_el := (ls_el s)\<lparr>el_quit := True\<rparr>, ls_quits := Suc (ls_quits s)\<rparr>)"
| end_calling: "ls_pc s = PcRun [] \<Longrightarrow>
     loop_step s (s\<lparr>ls_el := (ls_el s)\<lparr>el_calling := False\<rparr>, ls_pc := PcCheck\<rparr>)"
  \<comment> \<open>other threads: \<open>QueueInLoop\<close>, \<open>Quit\<close>, each followed by \<open>WakeUp\<close>\<close>
| caller_queues: "t \<noteq> el_thread_id (ls_el s) \<Longrightarrow> ls_caller s t = CIdle \<Longrightarrow>
     loop_step s (s\<lparr>ls_el := push_pending f (ls_el s), ls_queued := ls_queued s @ [f],
                    ls_caller := (ls_caller s)(t := CPushed)\<rparr>)"
| caller_quits: "t \<noteq> el_thread_id (ls_el s) \<Longrightarrow> ls_caller s t = CIdle \<Longrightarrow>
     loop_step s (s\<lparr>ls_el := (ls_el s)\<lparr>el_quit := True\<rparr>,
                    ls_caller := (ls_caller s)(t := CQuit)\<rparr>)"
| caller_wakes: "ls_caller s t = CPushed \<Longrightarrow>
     loop_step s (s\<lparr>ls_efd := ls_efd s + 1, ls_caller := (ls_caller s)(t := CIdle)\<rparr>)"
| quitter_wakes: "ls_caller s t = CQuit \<Longrightarrow>
     loop_step s (s\<lparr>ls_efd := ls_efd s + 1, ls_caller := (ls_caller s)(t := CIdle),
                    ls_quits := Suc (ls_quits s)\<rparr>)"

inductive loop_reach :: "loop_sys \<Rightarrow> bool" where
  start: "loop_reach (initial_loop t)"
| step: "loop_reach s \<Longrightarrow> loop_step s s' \<Longrightarrow> loop_reach s'"

subsection \<open>Invariants\<close>

text \<open>
  A functor can only wait while somebody is bound to wake the poll: outside the handlers and
  the swap, a non-empty queue comes with a positive counter or with a thread that is about
  to write to it.
\<close>

definition wake_coming :: "loop_sys \<Rightarrow> bool" where
  "wake_coming s \<longleftrightarrow>
     0 < ls_efd s \<or> (\<exists>t. ls_caller s t = CPushed) \<or> (\<exists>fs. ls_pc s = PcRunWake fs)"

definition may_wait :: "loop_pc \<Rightarrow> bool" where
  "may_wait pc \<longleftrightarrow> (case pc of PcHandle False \<Rightarrow> False | PcSwap \<Rightarrow> False | _ \<Rightarrow> True)"

definition wakeup_inv :: "loop_sys \<Rightarrow> bool" where
  "wakeup_inv s \<longleftrightarrow> (may_wait (ls_pc s) \<longrightarrow> el_pending (ls_el s) \<noteq> [] \<longrightarrow> wake_coming s)"

definition fifo_inv :: "loop_sys \<Rightarrow> bool" where
  "fifo_inv s \<longleftrightarrow> ls_queued s = ls_done s @ batch (ls_pc s) @ el_pending (ls_el s)"

definition quit_inv :: "loop_sys \<Rightarrow> bool" where
  "quit_inv s \<longleftrightarrow> (ls_pc s = PcPoll \<longrightarrow> el_quit (ls_el s) \<longrightarrow>
     0 < ls_efd s \<or> (\<exists>t. ls_caller s t = CQuit))"

definition woken_inv :: "loop_sys \<Rightarrow> bool" where
  "woken_inv s \<longleftrightarrow> (ls_pc s = PcHandle True \<longrightarrow> 0 < ls_efd s)"

lemma push_pending_simps [simp]:
  "el_pending (push_pending f el) = el_pending el @ [f]" "el_quit (push_pending f el) = el_quit el"
  "el_calling (push_pending f el) = el_calling el"
  by (simp_all add: push_pending_def)

text \<open>The queue through its interface, and the flag the swap leaves alone.\<close>

lemma swap_pendingD:
  "swap_pending el = (fs, el') \<Longrightarrow> fs = el_pending el \<and> el_pending el' = [] \<and>
     el_quit el' = el_quit el"
  using tq.swap_batch [of el] tq.swap_empty [of el] by (auto simp: swap_pending_def)

lemmas loop_inv_defs = wakeup_inv_def wake_coming_def may_wait_def batch_def

lemma wakeup_inv_step: "loop_step s s' \<Longrightarrow> woken_inv s \<Longrightarrow> wakeup_inv s \<Longrightarrow> wakeup_inv s'"
  by (induction rule: loop_step.induct)
     (auto simp: loop_inv_defs woken_inv_def dest: swap_pendingD split: loop_pc.splits bool.splits,
      (metis caller_pc.distinct)+)

lemma woken_inv_step: "loop_step s s' \<Longrightarrow> woken_inv s \<Longrightarrow> woken_inv s'"
  by (induction rule: loop_step.induct) (auto simp: woken_inv_def)

lemma fifo_inv_step: "loop_step s s' \<Longrightarrow> fifo_inv s \<Longrightarrow> fifo_inv s'"
  by (induction rule: loop_step.induct) (auto simp: fifo_inv_def batch_def dest: swap_pendingD)

lemma quit_inv_step: "loop_step s s' \<Longrightarrow> quit_inv s \<Longrightarrow> quit_inv s'"
  by (induction rule: loop_step.induct) (auto simp: quit_inv_def dest: swap_pendingD,
     metis caller_pc.distinct)

lemma loop_reach_inv: "loop_reach s \<Longrightarrow> woken_inv s \<and> wakeup_inv s \<and> fifo_inv s \<and> quit_inv s"
proof (induction rule: loop_reach.induct)
  case (start t)
  show ?case
    by (simp add: initial_loop_def woken_inv_def wakeup_inv_def fifo_inv_def quit_inv_def batch_def)
next
  case (step s s')
  then show ?case
    by (blast intro: woken_inv_step wakeup_inv_step fifo_inv_step quit_inv_step)
qed


subsection \<open>What the callers can rely on\<close>

lemma loop_steps_trans: "loop_step\<^sup>*\<^sup>* s s' \<Longrightarrow> loop_reach s \<Longrightarrow> loop_reach s'"
  by (induction rule: rtranclp_induct) (auto intro: loop_reach.step)

text \<open>A run that queues a functor from thread 7 while the loop of thread 1 polls.\<close>

lemma demo_start: "loop_reach (initial_loop 1)"
  by (rule loop_reach.start)

lemmas demo_looping = loop_reach.step [OF demo_start loop_step.set_looping, simplified]
lemmas demo_entered = loop_reach.step [OF demo_looping [simplified initial_loop_def, simplified]
    loop_step.clear_quit, simplified]
lemmas demo_checked = loop_reach.step [OF demo_entered loop_step.go_on, simplified]
lemmas demo_queued = loop_reach.step [OF demo_checked loop_step.caller_queues, of 7 BindListen, simplified]

text \<open>C15. No wakeup is lost: a loop that sits in \<open>epoll_wait\<close> with functors pending has a
  readable eventfd, or some thread still is between its push and its write to the eventfd.\<close>

theorem no_lost_wakeup:
  assumes "loop_reach s" "ls_pc s = PcPoll" "el_pending (ls_el s) \<noteq> []"
  shows "0 < ls_efd s \<or> (\<exists>t. ls_caller s t = CPushed)"
  using loop_reach_inv [OF assms(1)] assms(2,3)
  by (auto simp: loop_inv_defs)

theorem no_lost_wakeup_witness:
  "\<exists>s. loop_reach s \<and> ls_pc s = PcPoll \<and> el_pending (ls_el s) = [BindListen] \<and> ls_efd s = 0 \<and>
       (0 < ls_efd s \<or> (\<exists>t. ls_caller s t = CPushed))"
  by (intro exI conjI, rule demo_queued)
     (use no_lost_wakeup [OF demo_queued] in \<open>simp_all add: push_pending_def\<close>)

text \<open>C16. Functors run exactly once and in the order they were queued, whoever queued them:
  what was queued is what ran, then the rest of the batch, then the pending queue.\<close>

theorem functors_fifo:
  assumes "loop_reach s"
  shows "ls_queued s = ls_done s @ batch (ls_pc s) @ el_pending (ls_el s)"
  using loop_reach_inv [OF assms] by (simp add: fifo_inv_def)

theorem functors_fifo_witness:
  "\<exists>s. loop_reach s \<and> ls_queued s = [BindListen] \<and>
       ls_queued s = ls_done s @ batch (ls_pc s) @ el_pending (ls_el s)"
  by (intro exI conjI, rule demo_queued) (use functors_fifo [OF demo_queued] in simp_all)

text \<open>A quit is not slept through: a loop that sits in \<open>epoll_wait\<close> with \<open>quit_\<close> set has a
  readable eventfd or a quitter that is about to write to it.\<close>

theorem quit_wakes:
  assumes "loop_reach s" "ls_pc s = PcPoll" "el_quit (ls_el s)"
  shows "0 < ls_efd s \<or> (\<exists>t. ls_caller s t = CQuit)"
  using loop_reach_inv [OF assms(1)] assms(2,3) by (simp add: quit_inv_def)

lemmas demo_quitting = loop_reach.step [OF demo_checked loop_step.caller_quits, of 7, simplified]

theorem quit_wakes_witness:
  "\<exists>s. loop_reach s \<and> ls_pc s = PcPoll \<and> el_quit (ls_el s) \<and> ls_efd s = 0 \<and>
       (0 < ls_efd s \<or> (\<exists>t. ls_caller s t = CQuit))"
  by (intro exI conjI, rule demo_quitting) (use quit_wakes [OF demo_quitting] in simp_all)

subsection \<open>A quit before the loop\<close>

text \<open>
  Once a loop runs without \<open>quit_\<close> and nobody is in \<open>Quit\<close>, only a further \<open>Quit\<close> ends it.
\<close>

definition going_on :: "nat \<Rightarrow> loop_sys \<Rightarrow> bool" where
  "going_on n s \<longleftrightarrow>
     ls_quits s = n \<and> (\<forall>t. ls_caller s t \<noteq> CQuit) \<longrightarrow>
     \<not> el_quit (ls_el s) \<and> ls_pc s \<notin> {PcBefore, PcEnter, PcExit}"

lemma going_on_step:
  assumes "loop_step s s'" "going_on n s" "n \<le> ls_quits s"
  shows "going_on n s' \<and> n \<le> ls_quits s'"
  using assms
  by (induction rule: loop_step.induct)
     (auto simp: going_on_def dest: swap_pendingD split: if_splits, (metis caller_pc.distinct)+)

lemma going_on_steps:
  "loop_step\<^sup>*\<^sup>* s s' \<Longrightarrow> going_on n s \<Longrightarrow> n \<le> ls_quits s \<Longrightarrow> going_on n s' \<and> n \<le> ls_quits s'"
  by (induction rule: rtranclp_induct) (auto dest: going_on_step)

lemmas demo_early = loop_reach.step [OF demo_start [unfolded initial_loop_def] loop_step.caller_quits, of 7, simplified]
lemmas demo_early_woken = loop_reach.step [OF demo_early loop_step.quitter_wakes, of 7, simplified]
lemmas demo_early_looping = loop_reach.step [OF demo_early_woken loop_step.set_looping, simplified]
lemmas demo_early_lost = loop_reach.step [OF demo_early_looping loop_step.clear_quit, simplified]

text \<open>A \<open>Quit\<close> that completes before the loop's thread has entered \<open>Loop\<close> is lost for good: there
  is such a run after which the loop is never left, however it goes on, unless somebody calls
  \<open>Quit\<close> again.\<close>

theorem early_quit_lost:
  "\<exists>s. loop_reach s \<and> ls_quits s = 1 \<and> ls_pc s = PcCheck \<and> (\<forall>t. ls_caller s t = CIdle) \<and>
     \<not> el_quit (ls_el s) \<and>
     (\<forall>s'. loop_step\<^sup>*\<^sup>* s s' \<longrightarrow> ls_quits s' = 1 \<longrightarrow> (\<forall>t. ls_caller s' t \<noteq> CQuit) \<longrightarrow>
        ls_pc s' \<noteq> PcExit)"
proof -
  define s where "s = \<lparr>ls_el = \<lparr>el_looping = True, el_quit = False, el_calling = False,
        el_thread_id = 1, el_return_time = 0, el_wakeup_fd = 0, el_wakeup_channel = 0,
        el_active = [], el_pending = []\<rparr>,
      ls_efd = 1, ls_pc = PcCheck, ls_caller = (\<lambda>_. CIdle)(7 := CIdle), ls_queued = [], ls_done = [],
      ls_quits = 1\<rparr>"
  have "loop_reach s" using demo_early_lost by (simp add: s_def)
  moreover have "going_on 1 s" "ls_quits s = 1" "ls_pc s = PcCheck" "\<forall>t. ls_caller s t = CIdle"
    "\<not> el_quit (ls_el s)"
    by (simp_all add: going_on_def s_def)
  ultimately show ?thesis
    using going_on_steps [of s _ 1] by (intro exI [of _ s]) (auto simp: going_on_def)
qed

text \<open>Such a run, and its loop a step later, polling with the quit forgotten.\<close>

theorem early_quit_lost_witness:
  "\<exists>s. loop_reach s \<and> ls_quits s = 1 \<and> loop_step s (s\<lparr>ls_pc := PcPoll\<rparr>) \<and>
       loop_step\<^sup>*\<^sup>* s (s\<lparr>ls_pc := PcPoll\<rparr>) \<and> ls_pc (s\<lparr>ls_pc := PcPoll\<rparr>) \<noteq> PcExit"
proof -
  obtain s where s: "loop_reach s" "ls_quits s = 1" "ls_pc s = PcCheck" "\<forall>t. ls_caller s t = CIdle"
    "\<not> el_quit (ls_el s)"
    and never: "\<And>s'. loop_step\<^sup>*\<^sup>* s s' \<Longrightarrow> ls_quits s' = 1 \<Longrightarrow> \<forall>t. ls_caller s' t \<noteq> CQuit \<Longrightarrow>
      ls_pc s' \<noteq> PcExit"
    using early_quit_lost by auto
  have step: "loop_step s (s\<lparr>ls_pc := PcPoll\<rparr>)" by (rule loop_step.go_on [OF s(3,5)])
  then have "ls_pc (s\<lparr>ls_pc := PcPoll\<rparr>) \<noteq> PcExit"
    by (intro never r_into_rtranclp) (simp_all add: s)
  with s step show ?thesis by (intro exI [of _ s]) auto
qed

end
