(* ===== verification/ConnStream.thy ===== *)
theory ConnStream
  imports TcpConnection
begin

text \<open>
  The sending side of a connection as a byte stream: what the socket has accepted followed
  by what the output buffer holds. \<open>SendInLoop\<close> appends to the stream, \<open>HandleWrite\<close> moves its
  middle, and nothing else of the connection, its loop or other connections is disturbed.
\<close>

subsection \<open>Frame conditions of the layers below\<close>

lemma conns_lower [simp]:
  "conns (upd_chan ch f s) = conns s" "conns (upd_poller l g s) = conns s"
  "conns (upd_loop l h s) = conns s"
  "cstate.more (upd_chan ch f s) = cstate.more s" "cstate.more (upd_poller l g s) = cstate.more s"
  "cstate.more (upd_loop l h s) = cstate.more s"
  by (simp_all add: upd_chan_def upd_poller_def upd_loop_def)

lemma evloops_lower [simp]:
  "evloops (upd_chan ch f s) = evloops s" "evloops (upd_poller l g s) = evloops s"
  by (simp_all add: upd_chan_def upd_poller_def)

lemma more_upper:
  fixes s s' :: "('k, 'z) cstate_scheme"
  assumes "pstate.more s' = pstate.more s"
  shows "evloops s' = evloops s" "conns s' = conns s" "cstate.more s' = cstate.more s"
    "lstate.more s' = lstate.more s" "thread_loop s' = thread_loop s"
  using assms by (cases s, cases s', simp)+

lemma QueueInLoop_frame [simp]:
  "chans (QueueInLoop os t l f s) = chans s" "pollers (QueueInLoop os t l f s) = pollers s"
  "lstate.more (QueueInLoop os t l f s) = lstate.more s"
  "evloops (QueueInLoop os t l f s) = (evloops s)(l := push_pending f (evloops s l))"
  by (simp_all add: QueueInLoop_def WakeUp_def Let_def)

lemma QueueInLoop_conns [simp]:
  "conns (QueueInLoop os t l f s) = conns s"
  "cstate.more (QueueInLoop os t l f s) = cstate.more s"
  by (simp_all add: QueueInLoop_def WakeUp_def Let_def)

lemma QueueInLoop_kernel:
  assumes "kernel_laws os wire interest"
  shows "interest (kern (QueueInLoop os t l f s)) = interest (kern s)"
    and "fd \<noteq> el_wakeup_fd (evloops s l) \<Longrightarrow> wire (kern (QueueInLoop os t l f s)) fd = wire (kern s) fd"
  using assms
  by (simp_all add: QueueInLoop_def WakeUp_def Let_def push_pending_def kernel_lawsD write_other)

text \<open>A state with the same pollers, channels and interest lists is as consistent.\<close>

lemma net_ok_cong:
  assumes "net_ok interest s" "pollers s' = pollers s" "chans s' = chans s"
    "interest (kern s') = interest (kern s)"
  shows "net_ok interest s'"
  unfolding net_ok_def poller_ok_def assms(2-4)
  using assms(1) unfolding net_ok_def poller_ok_def .

lemma net_ok_QueueInLoop:
  "kernel_laws os wire interest \<Longrightarrow> net_ok interest s \<Longrightarrow> net_ok interest (QueueInLoop os t l f s)"
  by (rule net_ok_cong [of interest s]) (simp_all add: QueueInLoop_kernel)

subsection \<open>A connection in service\<close>

definition stream :: "('k \<Rightarrow> fd \<Rightarrow> string) \<Rightarrow> conn \<Rightarrow> ('k, 'z) cstate_scheme \<Rightarrow> string" where
  "stream wire c s = wire (kern s) (tc_fd (conns s c)) @ buffer_content (tc_output (conns s c))"

text \<open>The size of the output buffer's vector.\<close>

definition out_size :: "conn \<Rightarrow> ('k, 'z) cstate_scheme \<Rightarrow> nat" where
  "out_size c s = length (buf (tc_output (conns s c)))"

definition conn_ready :: "conn \<Rightarrow> ('k, 'z) cstate_scheme \<Rightarrow> bool" where
  "conn_ready c s \<longleftrightarrow>
     buffer_inv (tc_output (conns s c)) \<and>
     ch_fd (conn_channel s c) = tc_fd (conns s c) \<and>
     ch_loop (conn_channel s c) = tc_loop (conns s c) \<and>
     ch_index (conn_channel s c) \<noteq> kNew \<and>
     (\<forall>l. tc_fd (conns s c) \<noteq> el_wakeup_fd (evloops s l))"

text \<open>What an operation of connection \<open>c\<close> that only sends leaves as it was.\<close>

definition send_frame :: "('k \<Rightarrow> fd \<Rightarrow> string) \<Rightarrow> conn \<Rightarrow> ('k, 'z) cstate_scheme \<Rightarrow> ('k, 'z) cstate_scheme \<Rightarrow> bool" where
  "send_frame wire c s s' \<longleftrightarrow>
     (\<exists>b. conns s' = (conns s)(c := (conns s c)\<lparr>tc_output := b\<rparr>)) \<and>
     (\<forall>ch. ch \<noteq> tc_channel (conns s c) \<longrightarrow> chans s' ch = chans s ch) \<and>
     (\<forall>fd. fd \<noteq> tc_fd (conns s c) \<longrightarrow> (\<forall>l. fd \<noteq> el_wakeup_fd (evloops s l)) \<longrightarrow>
        wire (kern s') fd = wire (kern s) fd) \<and>
     (\<forall>l. el_wakeup_fd (evloops s' l) = el_wakeup_fd (evloops s l) \<and>
          el_thread_id (evloops s' l) = el_thread_id (evloops s l)) \<and>
     cstate.more s' = cstate.more s"

lemma send_frame_refl: "send_frame wire c s s"
  unfolding send_frame_def by (intro conjI exI [of _ "tc_output (conns s c)"]) simp_all

lemma send_frame_trans:
  assumes "send_frame wire c s s1" "send_frame wire c s1 s2"
  shows "send_frame wire c s s2"
proof -
  from assms(1) obtain b where b: "conns s1 = (conns s)(c := (conns s c)\<lparr>tc_output := b\<rparr>)"
    by (auto simp: send_frame_def)
  then have "tc_channel (conns s1 c) = tc_channel (conns s c)" "tc_fd (conns s1 c) = tc_fd (conns s c)"
    by simp_all
  with assms b show ?thesis by (simp add: send_frame_def)
qed

lemma stream_other:
  assumes "send_frame wire c s s'" "conn_ready d s" "d \<noteq> c" "tc_fd (conns s d) \<noteq> tc_fd (conns s c)"
  shows "stream wire d s' = stream wire d s"
  using assms by (auto simp: stream_def send_frame_def conn_ready_def)

lemma conn_ready_other:
  assumes "send_frame wire c s s'" "conn_ready d s" "d \<noteq> c"
    "tc_channel (conns s d) \<noteq> tc_channel (conns s c)"
  shows "conn_ready d s'"
  using assms by (auto simp: send_frame_def conn_ready_def)

text \<open>The single steps of sending: a call on the socket, a task for a loop, a new output buffer.\<close>

lemma kern_step:
  assumes "conn_ready c s" "\<And>fd. fd \<noteq> tc_fd (conns s c) \<Longrightarrow> wire k' fd = wire (kern s) fd"
  shows "send_frame wire c s (s\<lparr>kern := k'\<rparr>)" "conn_ready c (s\<lparr>kern := k'\<rparr>)"
  using assms unfolding send_frame_def conn_ready_def
  by (auto intro!: exI [of _ "tc_output (conns s c)"])

lemma queue_step:
  assumes laws: "kernel_laws os wire interest" and net: "net_ok interest s" and ready: "conn_ready c s"
    and s1: "s1 = (if P then QueueInLoop os t l f s else s)"
  shows "net_ok interest s1" "conn_ready c s1" "send_frame wire c s s1" "conns s1 = conns s" "chans s1 = chans s"
    "wire (kern s1) (tc_fd (conns s c)) = wire (kern s) (tc_fd (conns s c))"
proof -
  have fd: "\<And>l. tc_fd (conns s c) \<noteq> el_wakeup_fd (evloops s l)"
    using ready by (simp add: conn_ready_def)
  then show "wire (kern s1) (tc_fd (conns s c)) = wire (kern s) (tc_fd (conns s c))"
    by (simp add: s1 QueueInLoop_kernel [OF laws])
  show "net_ok interest s1" using net by (simp add: s1 net_ok_QueueInLoop [OF laws])
  show "conns s1 = conns s" "chans s1 = chans s" by (simp_all add: s1)
  then show "conn_ready c s1"
    using ready by (auto simp: conn_ready_def s1 push_pending_def)
  show "send_frame wire c s s1"
    unfolding send_frame_def
    by (auto simp: s1 push_pending_def QueueInLoop_kernel [OF laws] intro!: exI [of _ "tc_output (conns s c)"])
qed

lemma output_step:
  assumes net: "net_ok interest s" and ready: "conn_ready c s" and b: "buffer_inv b"
    and s1: "s1 = upd_conn c (\<lambda>tc. tc\<lparr>tc_output := b\<rparr>) s"
  shows "net_ok interest s1" "conn_ready c s1" "send_frame wire c s s1"
    "stream wire c s1 = wire (kern s) (tc_fd (conns s c)) @ buffer_content b"
proof -
  show "net_ok interest s1" by (rule net_ok_cong [OF net]) (simp_all add: s1)
  show "conn_ready c s1" using ready b by (simp add: conn_ready_def s1)
  show "send_frame wire c s s1" unfolding send_frame_def by (auto simp: s1)
  show "stream wire c s1 = wire (kern s) (tc_fd (conns s c)) @ buffer_content b" by (simp add: stream_def s1)
qed

subsection \<open>The two halves of SendInLoop\<close>

text \<open>What \<open>SendInLoop\<close> has to queue: \<open>None\<close> when it drops the message (\<open>fault_error\<close>).\<close>

definition send_rest :: "'k os \<Rightarrow> conn \<Rightarrow> string \<Rightarrow> ('k, 'z) cstate_scheme \<Rightarrow> string option" where
  "send_rest os c str s =
     (if \<not> IsWriting (conn_channel s c) \<and> buffer_content (tc_output (conns s c)) = [] then
        (case fst (sys_write os (tc_fd (conns s c)) str (kern s)) of
           Inr n \<Rightarrow> Some (drop n str)
         | Inl e \<Rightarrow> if e = EPIPE \<or> e = ECONNRESET then None else Some str)
      else Some str)"

lemma queue_write_complete_frame:
  assumes laws: "kernel_laws os wire interest" and ready: "conn_ready c s"
    and s'_def: "s' = queue_write_complete os t c s"
  shows "send_frame wire c s s'" "conns s' = conns s" "chans s' = chans s" "pollers s' = pollers s"
    "interest (kern s') = interest (kern s)" "stream wire c s' = stream wire c s" "conn_ready c s'"
proof -
  have fd: "\<And>l. tc_fd (conns s c) \<noteq> el_wakeup_fd (evloops s l)"
    using ready by (metis conn_ready_def)
  show "conns s' = conns s" "chans s' = chans s" "pollers s' = pollers s"
    "interest (kern s') = interest (kern s)" "stream wire c s' = stream wire c s" "conn_ready c s'"
    using laws ready fd
    by (simp_all add: s'_def queue_write_complete_def stream_def conn_ready_def QueueInLoop_kernel
        push_pending_def split: option.split)
  show "send_frame wire c s s'"
    unfolding send_frame_def
    using laws by (auto simp: s'_def queue_write_complete_def QueueInLoop_kernel push_pending_def
        intro!: exI [of _ "tc_output (conns s c)"] split: option.split)
qed

text \<open>What the first attempt to write has done: how much of the message is on its way.\<close>

definition direct_sent ::
  "'k os \<Rightarrow> ('k \<Rightarrow> fd \<Rightarrow> string) \<Rightarrow> 'k interest \<Rightarrow> conn \<Rightarrow> string \<Rightarrow> nat \<Rightarrow> nat \<Rightarrow> bool \<Rightarrow>
    ('k, 'z) cstate_scheme \<Rightarrow> ('k, 'z) cstate_scheme \<Rightarrow> bool" where
  "direct_sent os wire interest c str nwrote remaining fault s s1 \<longleftrightarrow>
     send_frame wire c s s1 \<and> conn_ready c s1 \<and> conns s1 = conns s \<and> chans s1 = chans s \<and>
     pollers s1 = pollers s \<and> interest (kern s1) = interest (kern s) \<and>
     send_rest os c str s = (if fault then None else Some (take remaining (drop nwrote str))) \<and>
     (\<not> fault \<longrightarrow> remaining = length (take remaining (drop nwrote str))) \<and>
     stream wire c s1 = stream wire c s @ take nwrote str \<and>
     (fault \<longrightarrow> nwrote = 0) \<and> nwrote + remaining = length str \<and>
     (nwrote = 0 \<or> buffer_content (tc_output (conns s c)) = [])"

lemma send_direct_sent:
  assumes laws: "kernel_laws os wire interest" and ready: "conn_ready c s"
    and run: "send_direct os t c str s = (nwrote, remaining, fault, s1)"
  shows "direct_sent os wire interest c str nwrote remaining fault s s1"
proof -
  let ?fd = "tc_fd (conns s c)"
  let ?direct = "\<not> IsWriting (conn_channel s c) \<and> ReadeableBytes (tc_output (conns s c)) = 0"
  have inv: "buffer_inv (tc_output (conns s c))" and fd: "ch_fd (conn_channel s c) = ?fd"
    using ready by (simp_all add: conn_ready_def)
  note empty = content_empty_iff [OF inv]
  consider "\<not> ?direct" | n k' where "?direct" "sys_write os ?fd str (kern s) = (Inr n, k')"
    | e k' where "?direct" "sys_write os ?fd str (kern s) = (Inl e, k')"
    by (cases "sys_write os ?fd str (kern s)"; cases "fst (sys_write os ?fd str (kern s))") auto
  then show ?thesis
  proof cases
    case 1
    with run have "nwrote = 0" "remaining = length str" "\<not> fault" "s1 = s"
      by (auto simp: send_direct_def)
    with 1 ready empty show ?thesis by (auto simp: direct_sent_def send_frame_refl send_rest_def)
  next
    case (2 n k')
    note w = write_lawD(1) [OF kernel_lawsD(2) [OF laws] 2(2)]
    have k': "interest k' = interest (kern s)"
      using kernel_lawsD(7) [OF laws, of ?fd str "kern s"] 2(2) by simp
    let ?s = "s\<lparr>kern := k'\<rparr>"
    have f: "send_frame wire c s ?s" "conn_ready c ?s" using w by (intro kern_step [OF ready]; simp)+
    have vals: "nwrote = n" "remaining = length str - n" "\<not> fault"
      "s1 = (if length str - n = 0 then queue_write_complete os t c ?s else ?s)"
      using run 2 fd by (auto simp: send_direct_def Let_def)
    have st: "stream wire c ?s = stream wire c s @ take n str"
      using w 2(1) empty by (simp add: stream_def)
    show ?thesis
    proof (cases "length str - n = 0")
      case True
      with vals queue_write_complete_frame [OF laws f(2) refl, of t] f(1) st w k' 2 empty show ?thesis
        by (auto simp: direct_sent_def send_rest_def intro: send_frame_trans)
    next
      case False
      with vals f st w k' 2 empty show ?thesis by (auto simp: direct_sent_def send_rest_def)
    qed
  next
    case (3 e k')
    have w: "wire k' = wire (kern s)" by (rule write_lawD(2) [OF kernel_lawsD(2) [OF laws] 3(2)])
    have k': "interest k' = interest (kern s)"
      using kernel_lawsD(7) [OF laws, of ?fd str "kern s"] 3(2) by simp
    have f: "send_frame wire c s (s\<lparr>kern := k'\<rparr>)" "conn_ready c (s\<lparr>kern := k'\<rparr>)"
      using w by (intro kern_step [OF ready]; simp)+
    have "nwrote = 0" "remaining = length str" "s1 = s\<lparr>kern := k'\<rparr>"
      "fault \<longleftrightarrow> e \<noteq> EWOULDBLOCK \<and> (e = EPIPE \<or> e = ECONNRESET)"
      using run 3 fd by (auto simp: send_direct_def Let_def)
    with f w k' 3 empty show ?thesis
      by (auto simp: direct_sent_def send_rest_def stream_def EWOULDBLOCK_def EPIPE_def ECONNRESET_def)
  qed
qed

lemma send_direct_stream:
  assumes laws: "kernel_laws os wire interest" and ready: "conn_ready c s"
    and run: "send_direct os t c str s = (nwrote, remaining, fault, s1)"
  shows "send_frame wire c s s1" "conn_ready c s1" "conns s1 = conns s" "chans s1 = chans s"
    "pollers s1 = pollers s" "interest (kern s1) = interest (kern s)"
    "send_rest os c str s = (if fault then None else Some (take remaining (drop nwrote str)))"
    "\<not> fault \<longrightarrow> remaining = length (take remaining (drop nwrote str))"
    "stream wire c s1 = stream wire c s @ take nwrote str"
    "fault \<longrightarrow> nwrote = 0" "nwrote + remaining = length str"
    "nwrote = 0 \<or> buffer_content (tc_output (conns s c)) = []"
  using send_direct_sent [OF laws ready run] unfolding direct_sent_def by blast+

text \<open>\<open>EnableWriting\<close>, \<open>DisableWriting\<close> and the like on a connection in service.\<close>

lemma next_index_not_new [simp]: "next_index ch \<noteq> kNew"
  by (simp add: next_index_def)

lemma conn_update:
  assumes laws: "kernel_laws os wire interest" and net: "net_ok interest s"
    and ready: "conn_ready c s" and f: "keeps f"
  obtains s' where "Channel_Update os (tc_channel (conns s c)) (upd_chan (tc_channel (conns s c)) f s) = Inr s'"
    "net_ok interest s'" "conn_ready c s'" "send_frame wire c s s'" "conns s' = conns s"
    "stream wire c s' = stream wire c s" "wire (kern s') = wire (kern s)"
    "ch_events (conn_channel s' c) = ch_events (f (conn_channel s c))"
    "evloops s' = evloops s"
proof -
  let ?ch = "tc_channel (conns s c)"
  let ?s = "upd_chan ?ch f s"
  have "ch_index (chans s ?ch) \<noteq> kNew" using ready by (simp add: conn_ready_def)
  then obtain s' where run: "Channel_Update os ?ch ?s = Inr s'" and net': "net_ok interest s'"
    and upd: "updated ?ch ?s s'"
    using Channel_Update_net [OF kernel_lawsD(3) [OF laws] net f, of ?ch] by blast
  have "pstate.more s' = pstate.more s" using upd by (simp add: updated_def Let_def)
  note more = more_upper [OF this]
  have chans: "chans s' = (chans s)(?ch := (f (chans s ?ch))\<lparr>ch_index := next_index (f (chans s ?ch))\<rparr>)"
    using upd by (simp add: updated_def Let_def)
  have wire: "wire (kern s') = wire (kern s)"
    using Channel_Update_view [OF kernel_lawsD(6) [OF laws] run] by simp
  have keep: "ch_fd (f (chans s ?ch)) = ch_fd (chans s ?ch)" "ch_loop (f (chans s ?ch)) = ch_loop (chans s ?ch)"
    using f by (simp_all add: keeps_def)
  show thesis
  proof (rule that [OF run net'])
    show "conn_ready c s'" using ready by (simp add: conn_ready_def more chans keep)
    show "send_frame wire c s s'"
      unfolding send_frame_def by (auto simp: more chans wire intro!: exI [of _ "tc_output (conns s c)"])
    show "stream wire c s' = stream wire c s" by (simp add: stream_def more wire)
  qed (simp_all add: more chans wire)
qed

lemmas conn_EnableWriting = conn_update [OF _ _ _ keeps_simps(3), folded EnableWriting_def]
  and conn_DisableWriting = conn_update [OF _ _ _ keeps_simps(4), folded DisableWriting_def]
  and conn_DisableAll = conn_update [OF _ _ _ keeps_simps(5), folded DisableAll_def]

text \<open>What is left over is waiting for the socket to become writable.\<close>

lemma write_watched:
  assumes laws: "kernel_laws os wire interest" and net: "net_ok interest s" and ready: "conn_ready c s"
  shows "\<exists>s'. (if \<not> IsWriting (conn_channel s c) then EnableWriting os (tc_channel (conns s c)) s else Inr s) = Inr s' \<and>
    net_ok interest s' \<and> conn_ready c s' \<and> send_frame wire c s s' \<and> conns s' = conns s \<and>
    stream wire c s' = stream wire c s \<and> IsWriting (conn_channel s' c)"
proof (cases "IsWriting (conn_channel s c)")
  case True
  then show ?thesis using net ready by (simp add: send_frame_refl)
next
  case False
  obtain s' where s': "EnableWriting os (tc_channel (conns s c)) s = Inr s'"
    "net_ok interest s'" "conn_ready c s'" "send_frame wire c s s'" "conns s' = conns s"
    "stream wire c s' = stream wire c s"
    "ch_events (conn_channel s' c) = ch_events (add_write (conn_channel s c))"
    using conn_EnableWriting [OF laws net ready] by metis
  have "IsWriting (conn_channel s' c)"
    using s'(7) by (simp add: IsWriting_bit channel_events bit_simps)
  with False s' show ?thesis by simp
qed

lemma send_buffered_stream:
  assumes laws: "kernel_laws os wire interest" and net: "net_ok interest s"
    and ready: "conn_ready c s"
  shows "if append_fits (length rest) (tc_output (conns s c))
    then \<exists>s'. send_buffered os t c rest s = Inr s' \<and> net_ok interest s' \<and> conn_ready c s' \<and>
              send_frame wire c s s' \<and> stream wire c s' = stream wire c s @ rest \<and>
              buffer_content (tc_output (conns s' c)) = buffer_content (tc_output (conns s c)) @ rest \<and>
              IsWriting (conn_channel s' c) \<and> out_size c s \<le> out_size c s'
    else send_buffered os t c rest s = Inl HeapOverrun"
proof -
  let ?tc = "conns s c"
  define s1 where "s1 = (if tc_high_water_mark ?tc \<le> ReadeableBytes (tc_output ?tc) + length rest \<and>
                            ReadeableBytes (tc_output ?tc) < tc_high_water_mark ?tc
       then QueueInLoop os t (tc_loop ?tc) (BindHighWaterMark (tc_high_water_mark_cb ?tc) c
              (ReadeableBytes (tc_output ?tc) + length rest)) s else s)"
  note q = queue_step [OF laws net ready s1_def]
  have inv: "buffer_inv (tc_output ?tc)" using ready by (simp add: conn_ready_def)
  have run: "send_buffered os t c rest s = bind_res (Append rest (tc_output ?tc)) (\<lambda>b.
      let s2 = upd_conn c (\<lambda>tc. tc\<lparr>tc_output := b\<rparr>) s1 in
      if \<not> IsWriting (conn_channel s2 c)
      then EnableWriting os (tc_channel (conns s2 c)) s2 else Inr s2)"
    unfolding send_buffered_def Let_def s1_def [symmetric] q(4,5) ..
  show ?thesis
  proof (cases "append_fits (length rest) (tc_output ?tc)")
    case True
    then obtain b where b: "Append rest (tc_output ?tc) = Inr b" "buffer_inv b"
      "buffer_content b = buffer_content (tc_output ?tc) @ rest"
      using Append_fits [OF inv] by blast
    define s2 where "s2 = upd_conn c (\<lambda>tc. tc\<lparr>tc_output := b\<rparr>) s1"
    note o = output_step [OF q(1,2) b(2) s2_def]
    obtain s3 where s3: "(if \<not> IsWriting (conn_channel s2 c)
         then EnableWriting os (tc_channel (conns s2 c)) s2 else Inr s2) = Inr s3"
      "net_ok interest s3" "conn_ready c s3" "send_frame wire c s2 s3" "conns s3 = conns s2"
      "stream wire c s3 = stream wire c s2" "IsWriting (conn_channel s3 c)"
      using write_watched [OF laws o(1,2)] by blast
    have "send_buffered os t c rest s = Inr s3"
      unfolding run b(1) bind_res_simps Let_def s2_def [symmetric] by (rule s3(1))
    moreover have "send_frame wire c s s3"
      using q(3) o(3) s3(4) by (meson send_frame_trans)
    moreover have "stream wire c s3 = stream wire c s @ rest"
      using o(4) b(3) q(6) s3(6) by (simp add: stream_def q(4))
    moreover have "out_size c s \<le> out_size c s3"
      using Append_size [OF b(1) inv] by (simp add: out_size_def s3(5) s2_def)
    moreover have "buffer_content (tc_output (conns s3 c)) = buffer_content (tc_output ?tc) @ rest"
      using b(3) by (simp add: s3(5) s2_def)
    ultimately show ?thesis using True s3(2,3,7) by auto
  next
    case False
    then show ?thesis by (simp add: run Append_overrun [OF inv])
  qed
qed

subsection \<open>SendInLoop\<close>

lemma SendInLoop_stream:
  assumes laws: "kernel_laws os wire interest" and net: "net_ok interest s"
    and ready: "conn_ready c s" and live: "tc_state (conns s c) \<noteq> kDisconnected"
  shows "case send_rest os c str s of
      None \<Rightarrow> \<exists>s'. SendInLoop os t c str s = Inr s' \<and> net_ok interest s' \<and> conn_ready c s' \<and>
                send_frame wire c s s' \<and> stream wire c s' = stream wire c s \<and>
                conns s' = conns s \<and> chans s' = chans s
    | Some rest \<Rightarrow>
        if rest = [] \<or> append_fits (length rest) (tc_output (conns s c))
        then \<exists>s'. SendInLoop os t c str s = Inr s' \<and> net_ok interest s' \<and> conn_ready c s' \<and>
                  send_frame wire c s s' \<and> stream wire c s' = stream wire c s @ str \<and>
                  (rest \<noteq> [] \<longrightarrow> IsWriting (conn_channel s' c) \<and>
                     buffer_content (tc_output (conns s' c)) =
                       buffer_content (tc_output (conns s c)) @ rest \<and>
                     out_size c s \<le> out_size c s') \<and>
                  (rest = [] \<longrightarrow> conns s' = conns s \<and> chans s' = chans s)
        else SendInLoop os t c str s = Inl HeapOverrun"
proof -
  obtain nwrote remaining fault s1 where
    d: "send_direct os t c str s = (nwrote, remaining, fault, s1)"
    by (metis prod_cases4)
  note sd = send_direct_stream [OF laws ready d]
  let ?rest = "take remaining (drop nwrote str)"
  have net1: "net_ok interest s1" by (rule net_ok_cong [OF net sd(5,4,6)])
  show ?thesis
  proof (cases "fault")
    case True
    with sd live net1 show ?thesis by (auto simp: SendInLoop_def d)
  next
    case False
    show ?thesis
    proof (cases "?rest = []")
      case True
      with False sd(8) have "remaining = 0" by (metis length_0_conv)
      with False sd live net1 show ?thesis by (auto simp: SendInLoop_def d)
    next
      case rest: False
      with False sd(8) have pos: "0 < remaining" by (metis length_greater_0_conv)
      have whole: "take nwrote str @ ?rest = str"
        using sd(11) by simp
      show ?thesis
        using False rest pos live sd(7) whole sd(9) sd(3)
          send_buffered_stream [OF laws net1 sd(2), of ?rest t] send_frame_trans [OF sd(1)]
        by (auto simp: SendInLoop_def d out_size_def split: if_splits)
    qed
  qed
qed

subsection \<open>HandleWrite\<close>

text \<open>The socket is watched for writability exactly while there is something to write.\<close>

definition write_synced :: "conn \<Rightarrow> ('k, 'z) cstate_scheme \<Rightarrow> bool" where
  "write_synced c s \<longleftrightarrow>
     (IsWriting (conn_channel s c) \<longleftrightarrow> buffer_content (tc_output (conns s c)) \<noteq> [])"

lemma ShutdownInLoop_frame:
  assumes laws: "kernel_laws os wire interest"
  shows "conns (ShutdownInLoop os c s) = conns s" "chans (ShutdownInLoop os c s) = chans s"
    "pollers (ShutdownInLoop os c s) = pollers s" "evloops (ShutdownInLoop os c s) = evloops s"
    "cstate.more (ShutdownInLoop os c s) = cstate.more s"
    "wire (kern (ShutdownInLoop os c s)) = wire (kern s)"
    "interest (kern (ShutdownInLoop os c s)) = interest (kern s)"
  by (simp_all add: ShutdownInLoop_def ShutdownWrite_def
      quiet_lawD(1) [OF kernel_lawsD(4) [OF laws]] quiet_lawD(1) [OF kernel_lawsD(5) [OF laws]])

lemma ShutdownInLoop_stream:
  assumes laws: "kernel_laws os wire interest" and net: "net_ok interest s" and ready: "conn_ready c s"
  shows "net_ok interest (ShutdownInLoop os c s)" "conn_ready c (ShutdownInLoop os c s)"
    "send_frame wire c s (ShutdownInLoop os c s)"
    "stream wire c (ShutdownInLoop os c s) = stream wire c s"
proof -
  note f = ShutdownInLoop_frame [OF laws, of c s]
  show "net_ok interest (ShutdownInLoop os c s)" by (rule net_ok_cong [OF net f(3,2,7)])
  show "conn_ready c (ShutdownInLoop os c s)" using ready by (simp add: conn_ready_def f)
  show "stream wire c (ShutdownInLoop os c s) = stream wire c s" by (simp add: stream_def f)
  show "send_frame wire c s (ShutdownInLoop os c s)"
    unfolding send_frame_def by (auto simp: f intro!: exI [of _ "tc_output (conns s c)"])
qed

lemma HandleWrite_idle: "\<not> IsWriting (conn_channel s c) \<Longrightarrow> HandleWrite os t c s = Inr s"
  by (simp add: HandleWrite_def)

lemma net_ok_kern:
  "net_ok interest s \<Longrightarrow> interest k' = interest (kern s) \<Longrightarrow> net_ok interest (s\<lparr>kern := k'\<rparr>)"
  by (rule net_ok_cong [of interest s]) simp_all

text \<open>The state after the write and \<open>Retrive\<close>: the written bytes have changed sides.\<close>

lemma written_stream:
  assumes laws: "kernel_laws os wire interest" and net: "net_ok interest s" and ready: "conn_ready c s"
    and wr: "WriteFd os (tc_fd (conns s c)) (tc_output (conns s c)) (kern s) = (Inr n, k')"
  defines "s1 \<equiv> upd_conn c (\<lambda>tc. tc\<lparr>tc_output := Retrive n (tc_output tc)\<rparr>) (s\<lparr>kern := k'\<rparr>)"
  shows "net_ok interest s1" "conn_ready c s1" "send_frame wire c s s1"
    "stream wire c s1 = stream wire c s"
    "buffer_content (tc_output (conns s1 c)) = drop n (buffer_content (tc_output (conns s c)))"
proof -
  have inv: "buffer_inv (tc_output (conns s c))" using ready by (simp add: conn_ready_def)
  note call = wr [unfolded WriteFd_content [OF inv]]
  note w = write_lawD(1) [OF kernel_lawsD(2) [OF laws] call]
  have "interest k' = interest (kern s)"
    using kernel_lawsD(7) [OF laws] call by (metis snd_conv)
  then show "net_ok interest s1"
    by (intro net_ok_cong [OF net_ok_kern [OF net]]) (simp_all add: s1_def)
  show "conn_ready c s1"
    using ready by (simp add: conn_ready_def s1_def Retrive_inv)
  show "send_frame wire c s s1"
    unfolding send_frame_def using w by (auto simp: s1_def)
  show "stream wire c s1 = stream wire c s"
    using w by (simp add: stream_def s1_def Retrive_content [OF inv])
  show "buffer_content (tc_output (conns s1 c)) = drop n (buffer_content (tc_output (conns s c)))"
    by (simp add: s1_def Retrive_content [OF inv])
qed

text \<open>How much of the output one \<open>HandleWrite\<close> gets rid of.\<close>

definition written :: "'k os \<Rightarrow> conn \<Rightarrow> ('k, 'z) cstate_scheme \<Rightarrow> nat" where
  "written os c s =
     (if IsWriting (conn_channel s c)
      then case fst (sys_write os (tc_fd (conns s c)) (buffer_content (tc_output (conns s c))) (kern s)) of
             Inr n \<Rightarrow> n | Inl e \<Rightarrow> 0
      else 0)"

text \<open>The end of a drained output: the channel stops watching, the user is told, a shutdown is made good.\<close>

lemma drained:
  assumes laws: "kernel_laws os wire interest" and net: "net_ok interest s" and ready: "conn_ready c s"
    and empty: "buffer_content (tc_output (conns s c)) = []"
  shows "\<exists>s'. bind_res (DisableWriting os (tc_channel (conns s c)) s) (\<lambda>s2.
      let s3 = queue_write_complete os t c s2 in
      Inr (if tc_state (conns s3 c) = kDisconnecting then ShutdownInLoop os c s3 else s3)) = Inr s' \<and>
    net_ok interest s' \<and> conn_ready c s' \<and> send_frame wire c s s' \<and> conns s' = conns s \<and>
    stream wire c s' = stream wire c s \<and> write_synced c s'"
proof -
  obtain s2 where s2: "DisableWriting os (tc_channel (conns s c)) s = Inr s2"
    "net_ok interest s2" "conn_ready c s2" "send_frame wire c s s2" "conns s2 = conns s"
    "stream wire c s2 = stream wire c s"
    "ch_events (conn_channel s2 c) = ch_events (del_write (conn_channel s c))"
    using conn_DisableWriting [OF laws net ready] by metis
  define s3 where "s3 = queue_write_complete os t c s2"
  note q = queue_write_complete_frame [OF laws s2(3) s3_def]
  have net3: "net_ok interest s3" by (rule net_ok_cong [OF s2(2) q(4,3,5)])
  define s4 where "s4 = (if tc_state (conns s3 c) = kDisconnecting then ShutdownInLoop os c s3 else s3)"
  have s4: "net_ok interest s4" "conn_ready c s4" "send_frame wire c s3 s4"
    "stream wire c s4 = stream wire c s3" "conns s4 = conns s3" "chans s4 = chans s3"
    using ShutdownInLoop_stream [OF laws net3 q(7)] ShutdownInLoop_frame [OF laws, of c s3] net3 q(7)
    by (simp_all add: s4_def send_frame_refl)
  have "send_frame wire c s s4"
    using s2(4) q(1) s4(3) by (meson send_frame_trans)
  moreover have "\<not> IsWriting (conn_channel s2 c)"
    using s2(7) by (simp add: IsWriting_bit channel_events bit_simps)
  then have "write_synced c s4"
    using empty s2(5) by (simp add: write_synced_def s4(5,6) q(2,3))
  moreover have "bind_res (DisableWriting os (tc_channel (conns s c)) s) (\<lambda>s2.
      let s3 = queue_write_complete os t c s2 in
      Inr (if tc_state (conns s3 c) = kDisconnecting then ShutdownInLoop os c s3 else s3)) = Inr s4"
    unfolding s2(1) bind_res_simps Let_def s3_def [symmetric] s4_def [symmetric] ..
  moreover have "conns s4 = conns s" "stream wire c s4 = stream wire c s"
    using s4(4,5) s2(5,6) q(2,6) by simp_all
  ultimately show ?thesis using s4(1,2) by blast
qed

lemma HandleWrite_stream:
  assumes laws: "kernel_laws os wire interest" and net: "net_ok interest s" and ready: "conn_ready c s"
  shows "\<exists>s'. HandleWrite os t c s = Inr s' \<and> net_ok interest s' \<and> conn_ready c s' \<and>
           send_frame wire c s s' \<and> stream wire c s' = stream wire c s \<and>
           buffer_content (tc_output (conns s' c)) =
             drop (written os c s) (buffer_content (tc_output (conns s c))) \<and>
           out_size c s' = out_size c s \<and>
           (write_synced c s \<longrightarrow> write_synced c s')"
proof (cases "IsWriting (conn_channel s c)")
  case False
  then show ?thesis using net ready by (simp add: HandleWrite_idle send_frame_refl written_def)
next
  case writing: True
  let ?w = "WriteFd os (tc_fd (conns s c)) (tc_output (conns s c)) (kern s)"
  have inv: "buffer_inv (tc_output (conns s c))" using ready by (simp add: conn_ready_def)
  have idle: ?thesis if run: "HandleWrite os t c s = Inr (s\<lparr>kern := k'\<rparr>)"
    and k': "wire k' = wire (kern s)" "interest k' = interest (kern s)" "written os c s = 0" for k'
  proof -
    have "net_ok interest (s\<lparr>kern := k'\<rparr>)" by (rule net_ok_kern [OF net k'(2)])
    moreover have "send_frame wire c s (s\<lparr>kern := k'\<rparr>)"
      by (rule kern_step [OF ready]) (simp add: k'(1))
    ultimately show ?thesis
      using run ready k' by (simp add: conn_ready_def stream_def write_synced_def out_size_def)
  qed
  have int: "interest (snd ?w) = interest (kern s)"
    by (simp add: WriteFd_content [OF inv] kernel_lawsD(7) [OF laws])
  obtain r k' where rk: "?w = (r, k')" by fastforce
  show ?thesis
  proof (cases r)
    case (Inl e)
    with rk write_lawD(2) [OF kernel_lawsD(2) [OF laws]] have "wire k' = wire (kern s)"
      by (simp add: WriteFd_content [OF inv])
    with rk Inl int writing show ?thesis
      by (intro idle [of k']) (simp_all add: HandleWrite_def written_def WriteFd_content [OF inv])
  next
    case (Inr n)
    note ws = written_stream [OF laws net ready rk [unfolded Inr]]
    have n: "written os c s = n"
      using rk Inr writing by (simp add: written_def WriteFd_content [OF inv])
    let ?s1 = "upd_conn c (\<lambda>tc. tc\<lparr>tc_output := Retrive n (tc_output tc)\<rparr>) (s\<lparr>kern := k'\<rparr>)"
    have size1: "out_size c ?s1 = out_size c s" by (simp add: out_size_def)
    have inv1: "buffer_inv (tc_output (conns ?s1 c))" using ws(2) by (simp only: conn_ready_def)
    consider "n = 0" | "0 < n" "buffer_content (tc_output (conns ?s1 c)) \<noteq> []"
      | "0 < n" "buffer_content (tc_output (conns ?s1 c)) = []" by blast
    then show ?thesis
    proof cases
      case 1
      with rk Inr write_lawD(1) [OF kernel_lawsD(2) [OF laws]] have "wire k' = wire (kern s)"
        by (fastforce simp: WriteFd_content [OF inv])
      with 1 rk Inr int writing n show ?thesis by (intro idle [of k']) (simp_all add: HandleWrite_def)
    next
      case 2
      then have "HandleWrite os t c s = Inr ?s1"
        using rk Inr writing content_empty_iff [OF inv1] by (simp add: HandleWrite_def Let_def)
      moreover have "write_synced c ?s1"
        using 2 writing by (simp add: write_synced_def)
      ultimately show ?thesis using ws n size1 by blast
    next
      case 3
      have "ReadeableBytes (tc_output (conns ?s1 c)) = 0"
        using 3(2) content_empty_iff [OF inv1] by (simp only:)
      then have "HandleWrite os t c s = bind_res (DisableWriting os (tc_channel (conns ?s1 c)) ?s1) (\<lambda>s2.
          let s3 = queue_write_complete os t c s2 in
          Inr (if tc_state (conns s3 c) = kDisconnecting then ShutdownInLoop os c s3 else s3))"
        unfolding HandleWrite_def rk Inr using writing 3(1)
        by (simp only: if_True sum.case prod.case Let_def simp_thms)
      note run = this
      obtain s' where "HandleWrite os t c s = Inr s'" "net_ok interest s'" "conn_ready c s'"
        "send_frame wire c ?s1 s'" "conns s' = conns ?s1" "stream wire c s' = stream wire c ?s1" "write_synced c s'"
        using drained [OF laws ws(1,2) 3(2), of t] unfolding run [symmetric] by (elim exE conjE)
      moreover from this have "out_size c s' = out_size c s" using size1 by (simp only: out_size_def)
      ultimately show ?thesis
        unfolding n using send_frame_trans [OF ws(3)] ws(4,5) by (intro exI [of _ s']) (simp only: simp_thms)
    qed
  qed
qed

end
