(* ===== verification/ConnCorrect.thy ===== *)
theory ConnCorrect
  imports ConnStream DemoKernel
begin

text \<open>
  What a connection guarantees: the byte stream of its sender over any mix of sends and
  writability events, its draining, the branches of its read handler, and its way out of the
  poller; and what \<open>Shutdown\<close> does while output is pending.
\<close>

subsection \<open>A connection to try things on\<close>

text \<open>
  Connections 2 and 3 on descriptors 7 and 8, established in loop 0, whose poller watches them
  for reading. Their sockets take \<open>cap\<close> bytes a call.
\<close>

definition demo_conn :: tcp_connection where
  "demo_conn =
     \<lparr>tc_loop = 0, tc_name = ''demo#1'', tc_state = kConnected, tc_reading = True, tc_fd = 7,
      tc_channel = 2, tc_local_addr = \<lparr>sin_family = 2, sin_port = 0, sin_addr = 0\<rparr>,
      tc_peer_addr = \<lparr>sin_family = 2, sin_port = 0, sin_addr = 0\<rparr>,
      tc_conn_cb = Some FnOnConnection, tc_msg_cb = Some FnReadCb, tc_write_complete_cb = None,
      tc_high_water_mark_cb = None, tc_close_cb = Some FnRemoveConnection,
      tc_high_water_mark = high_water_mark_default, tc_input = Buffer 64, tc_output = Buffer 64\<rparr>"

definition demo_channel :: "fd \<Rightarrow> channel" where
  "demo_channel fd = (Channel 0 fd)\<lparr>ch_index := kAdded, ch_events := kReadEvent\<rparr>"

definition demo_cstate :: "nat \<Rightarrow> demo cstate" where
  "demo_cstate cap =
     \<lparr>kern = (demo_kernel cap)\<lparr>dk_interest := (\<lambda>_ _. None)
        (100 := [7 \<mapsto> \<lparr>ev_events = kReadEvent, ev_ptr = 2\<rparr>, 8 \<mapsto> \<lparr>ev_events = kReadEvent, ev_ptr = 3\<rparr>])\<rparr>,
      chans = (\<lambda>_. Channel 9 0)(2 := demo_channel 7, 3 := demo_channel 8),
      pollers = (\<lambda>l. \<lparr>epoll_fd = int l + 100,
        p_channels = if l = 0 then [7 \<mapsto> 2, 8 \<mapsto> 3] else Map.empty, events_size = 16\<rparr>),
      evloops = (\<lambda>_. \<lparr>el_looping = True, el_quit = False, el_calling = False, el_thread_id = 1,
        el_return_time = 0, el_wakeup_fd = -1, el_wakeup_channel = 0, el_active = [],
        el_pending = []\<rparr>),
      thread_loop = [1 \<mapsto> 0], fresh_loop = 1, fresh_chan = 4, fresh_tid = 2,
      conns = (\<lambda>_. demo_conn)(3 := demo_conn\<lparr>tc_fd := 8, tc_channel := 3\<rparr>)\<rparr>"

lemma demo_net_ok: "net_ok dk_interest (demo_cstate cap)"
  unfolding net_ok_def poller_ok_def
  by (auto simp: demo_cstate_def demo_channel_def demo_kernel_def Channel_def channel_index inj_def
      split: if_splits)

lemma demo_conn_ready: "conn_ready 2 (demo_cstate cap)" "conn_ready 3 (demo_cstate cap)"
  by (simp_all add: conn_ready_def demo_cstate_def demo_channel_def demo_conn_def Channel_def
      channel_index)

lemma demo_cstate_simps [simp]:
  "tc_state (conns (demo_cstate cap) 2) = kConnected" "tc_fd (conns (demo_cstate cap) 2) = 7"
  "tc_fd (conns (demo_cstate cap) 3) = 8"
  "tc_channel (conns (demo_cstate cap) 2) = 2" "tc_output (conns (demo_cstate cap) 2) = Buffer 64"
  "tc_input (conns (demo_cstate cap) 2) = Buffer 64"
  "tc_msg_cb (conns (demo_cstate cap) 2) = Some FnReadCb"
  "tc_conn_cb (conns (demo_cstate cap) 2) = Some FnOnConnection"
  "tc_close_cb (conns (demo_cstate cap) 2) = Some FnRemoveConnection"
  "tc_loop (conns (demo_cstate cap) 2) = 0"
  "dk_wire (kern (demo_cstate cap)) = (\<lambda>_. [])" "dk_cap (kern (demo_cstate cap)) = cap"
  "ch_events (chans (demo_cstate cap) 2) = kReadEvent"
  "ch_index (chans (demo_cstate cap) 2) = kAdded"
  "ch_loop (chans (demo_cstate cap) 2) = 0"
  by (simp_all add: demo_cstate_def demo_conn_def demo_channel_def demo_kernel_def Channel_def)

lemma demo_not_writing [simp]: "\<not> IsWriting (chans (demo_cstate cap) 2)"
  by (simp add: IsWriting_def channel_events)

lemma demo_write_synced: "write_synced 2 (demo_cstate cap)"
  by (simp add: write_synced_def)

subsection \<open>Sending\<close>

text \<open>C5. \<open>SendInLoop\<close> on each of its branches. On a disconnected connection it changes nothing. On any
  other, what the socket has accepted followed by what is queued grows by exactly the message, the
  rest of it waiting behind what was queued before and the descriptor watched for writing, if the
  rest is one the output buffer takes without misjudging its room; if it misjudges it, the copy
  overruns the buffer. When the write says that the peer is gone (\<open>EPIPE\<close>, \<open>ECONNRESET\<close>) the
  message is dropped and the stream stays what it is. The stream of every other connection is
  untouched.\<close>

theorem SendInLoop_exact:
  assumes laws: "kernel_laws os wire interest" and net: "net_ok interest s"
    and ready: "conn_ready c s"
    and d: "conn_ready d s" "d \<noteq> c" "tc_fd (conns s d) \<noteq> tc_fd (conns s c)"
  shows "if tc_state (conns s c) = kDisconnected then SendInLoop os t c str s = Inr s
    else case send_rest os c str s of
      None \<Rightarrow> \<exists>s'. SendInLoop os t c str s = Inr s' \<and> stream wire c s' = stream wire c s \<and>
                stream wire d s' = stream wire d s
    | Some rest \<Rightarrow>
        if rest = [] \<or> append_fits (length rest) (tc_output (conns s c))
        then \<exists>s'. SendInLoop os t c str s = Inr s' \<and> net_ok interest s' \<and>
               stream wire c s' = stream wire c s @ str \<and> stream wire d s' = stream wire d s \<and>
               (rest \<noteq> [] \<longrightarrow> IsWriting (conn_channel s' c) \<and>
                  buffer_content (tc_output (conns s' c)) =
                    buffer_content (tc_output (conns s c)) @ rest)
        else SendInLoop os t c str s = Inl HeapOverrun"
proof (cases "tc_state (conns s c) = kDisconnected")
  case True
  then show ?thesis by (simp add: SendInLoop_def)
next
  case False
  with SendInLoop_stream [OF laws net ready False, where str = str and t = t] stream_other [OF _ d, of wire]
  show ?thesis by (auto split: option.splits if_splits)
qed

theorem SendInLoop_exact_witness:
  "\<exists>s'. SendInLoop demo_os 1 2 ''hello'' (demo_cstate 3) = Inr s' \<and>
     stream dk_wire 2 s' = ''hello'' \<and> stream dk_wire 3 s' = [] \<and>
     buffer_content (tc_output (conns s' 2)) = ''lo'' \<and> IsWriting (conn_channel s' 2)"
proof -
  have rest: "send_rest demo_os 2 ''hello'' (demo_cstate 3) = Some ''lo''"
    by (simp add: send_rest_def demo_write_def)
  have fits: "append_fits n (Buffer 64)" if "n \<le> 64" for n
    using that by (simp add: append_fits_def Buffer_sizes kCheapPrepend_def)
  have start: "stream dk_wire 2 (demo_cstate 3) = []" "stream dk_wire 3 (demo_cstate 3) = []"
    by (simp_all add: stream_def) (simp add: demo_cstate_def demo_conn_def)
  show ?thesis
    using SendInLoop_exact [OF demo_laws demo_net_ok [of 3] demo_conn_ready(1) demo_conn_ready(2),
        where str = "''hello''" and t = 1]
    by (auto simp: rest fits start)
qed

subsection \<open>Histories\<close>

text \<open>
  What happens to the sending side of a connection: messages sent by its loop's thread and
  events that say the socket is writable. The run also returns the messages that were taken,
  one after the other (\<open>send_rest\<close> says which were dropped).
\<close>

datatype conn_event = EvSend string | EvWritable

fun run_conn ::
  "'k os \<Rightarrow> tid \<Rightarrow> conn \<Rightarrow> conn_event list \<Rightarrow> ('k, 'z) cstate_scheme \<Rightarrow>
   (string \<times> ('k, 'z) cstate_scheme) res" where
  "run_conn os t c [] s = Inr ([], s)"
| "run_conn os t c (EvSend str # evs) s =
     bind_res (SendInLoop os t c str s) (\<lambda>s1.
     bind_res (run_conn os t c evs s1) (\<lambda>(taken, s2).
       Inr ((if send_rest os c str s = None then [] else str) @ taken, s2)))"
| "run_conn os t c (EvWritable # evs) s =
     bind_res (HandleWrite os t c s) (run_conn os t c evs)"

definition sending :: "('k \<Rightarrow> fd \<Rightarrow> string) \<Rightarrow> 'k interest \<Rightarrow> conn \<Rightarrow> ('k, 'z) cstate_scheme \<Rightarrow> bool" where
  "sending wire interest c s \<longleftrightarrow>
     net_ok interest s \<and> conn_ready c s \<and> tc_state (conns s c) \<noteq> kDisconnected \<and> write_synced c s"

lemma send_frame_state: "send_frame wire c s s' \<Longrightarrow> tc_state (conns s' c) = tc_state (conns s c)"
  by (auto simp: send_frame_def)

lemma SendInLoop_sending:
  assumes laws: "kernel_laws os wire interest" and ok: "sending wire interest c s"
  shows "(\<exists>s'. SendInLoop os t c str s = Inr s' \<and> sending wire interest c s' \<and>
            stream wire c s' = stream wire c s @ (if send_rest os c str s = None then [] else str)) \<or>
         SendInLoop os t c str s = Inl HeapOverrun"
proof -
  have ok': "net_ok interest s" "conn_ready c s" "tc_state (conns s c) \<noteq> kDisconnected"
    "write_synced c s" using ok by (simp_all add: sending_def)
  note run = SendInLoop_stream [OF laws ok'(1-3), where str = str and t = t]
  show ?thesis
  proof (cases "send_rest os c str s")
    case None
    with run ok' show ?thesis
      by (auto simp: sending_def write_synced_def dest: send_frame_state)
  next
    case (Some rest)
    with run ok' show ?thesis
      by (auto simp: sending_def write_synced_def dest: send_frame_state split: if_splits)
  qed
qed

lemma HandleWrite_sending:
  assumes laws: "kernel_laws os wire interest" and ok: "sending wire interest c s"
  shows "\<exists>s'. HandleWrite os t c s = Inr s' \<and> sending wire interest c s' \<and>
            stream wire c s' = stream wire c s \<and>
            buffer_content (tc_output (conns s' c)) =
              drop (written os c s) (buffer_content (tc_output (conns s c)))"
  using HandleWrite_stream [OF laws, of s c t] ok
  by (auto simp: sending_def dest: send_frame_state)

lemma run_conn_stream:
  assumes laws: "kernel_laws os wire interest"
  shows "sending wire interest c s \<Longrightarrow>
    (\<exists>taken s'. run_conn os t c evs s = Inr (taken, s') \<and> sending wire interest c s' \<and>
       stream wire c s' = stream wire c s @ taken) \<or>
    run_conn os t c evs s = Inl HeapOverrun"
proof (induction evs arbitrary: s)
  case (Cons ev evs)
  show ?case
  proof (cases ev)
    case (EvSend str)
    with SendInLoop_sending [OF laws Cons.prems, of t str] Cons.IH show ?thesis by fastforce
  next
    case EvWritable
    with HandleWrite_sending [OF laws Cons.prems, of t] Cons.IH show ?thesis by fastforce
  qed
qed simp

lemma send_rest_length: "send_rest os c str s = Some rest \<Longrightarrow> length rest \<le> length str"
  by (auto simp: send_rest_def split: if_splits sum.splits)

fun sent :: "conn_event list \<Rightarrow> string" where
  "sent [] = []"
| "sent (EvSend str # evs) = str @ sent evs"
| "sent (EvWritable # evs) = sent evs"

definition out_fits :: "nat \<Rightarrow> conn \<Rightarrow> ('k, 'z) cstate_scheme \<Rightarrow> bool" where
  "out_fits n c s \<longleftrightarrow> length (buffer_content (tc_output (conns s c))) + n + kCheapPrepend \<le> out_size c s"

lemma SendInLoop_within:
  assumes laws: "kernel_laws os wire interest" and ok: "sending wire interest c s"
    and room: "out_fits (length str + n) c s"
  shows "\<exists>s'. SendInLoop os t c str s = Inr s' \<and> sending wire interest c s' \<and> out_fits n c s'"
proof -
  have ok': "net_ok interest s" "conn_ready c s" "tc_state (conns s c) \<noteq> kDisconnected"
    using ok by (simp_all add: sending_def)
  have inv: "buffer_inv (tc_output (conns s c))" using ok'(2) by (simp add: conn_ready_def)
  note run = SendInLoop_stream [OF laws ok', where str = str and t = t]
  have "\<exists>s'. SendInLoop os t c str s = Inr s' \<and> out_fits n c s'"
  proof (cases "send_rest os c str s")
    case None
    with run room show ?thesis by (auto simp: out_fits_def out_size_def)
  next
    case (Some rest)
    with send_rest_length [OF Some] room
    have "append_fits (length rest) (tc_output (conns s c))"
      by (intro append_fits_capacity [OF inv]) (simp add: out_fits_def out_size_def)
    with run Some send_rest_length [OF Some] room show ?thesis
      by (cases "rest = []") (auto simp: out_fits_def out_size_def simp del: length_content)
  qed
  with SendInLoop_sending [OF laws ok, where str = str and t = t] show ?thesis by auto
qed

lemma HandleWrite_within:
  assumes laws: "kernel_laws os wire interest" and ok: "sending wire interest c s"
    and room: "out_fits n c s"
  shows "\<exists>s'. HandleWrite os t c s = Inr s' \<and> sending wire interest c s' \<and> out_fits n c s'"
proof -
  obtain s' where "HandleWrite os t c s = Inr s'" "out_size c s' = out_size c s"
    "buffer_content (tc_output (conns s' c)) = drop (written os c s) (buffer_content (tc_output (conns s c)))"
    using HandleWrite_stream [OF laws, of s c t] ok by (auto simp: sending_def)
  with HandleWrite_sending [OF laws ok, of t] room show ?thesis
    by (auto simp: out_fits_def simp del: length_content)
qed

lemma run_conn_within:
  assumes laws: "kernel_laws os wire interest"
  shows "sending wire interest c s \<Longrightarrow> out_fits (length (sent evs)) c s \<Longrightarrow>
    \<exists>r. run_conn os t c evs s = Inr r"
proof (induction evs arbitrary: s)
  case (Cons ev evs)
  show ?case
  proof (cases ev)
    case (EvSend str)
    with SendInLoop_within [OF laws Cons.prems(1), of str "length (sent evs)" t] Cons.prems(2)
      Cons.IH show ?thesis by fastforce
  next
    case EvWritable
    with HandleWrite_within [OF laws Cons.prems(1), of "length (sent evs)" t] Cons.prems(2)
      Cons.IH show ?thesis by fastforce
  qed
qed simp

text \<open>C4. Over any history of sends and writability events of a connection, what the peer will
  have been sent is what it was before followed by the messages taken, in order: the bytes the
  socket has accepted, then exactly the queued ones. The descriptor stays watched for writing
  exactly while something is queued. The one way such a history can fail is the overrun of the
  output buffer, and it cannot fail while the messages fit in the buffer's vector.\<close>

theorem conn_history:
  assumes "kernel_laws os wire interest" "sending wire interest c s"
  shows "case run_conn os t c evs s of
      Inl e \<Rightarrow> e = HeapOverrun \<and> \<not> out_fits (length (sent evs)) c s
    | Inr (taken, s') \<Rightarrow>
        wire (kern s') (tc_fd (conns s' c)) @ buffer_content (tc_output (conns s' c)) =
          wire (kern s) (tc_fd (conns s c)) @ buffer_content (tc_output (conns s c)) @ taken \<and>
        (IsWriting (conn_channel s' c) \<longleftrightarrow> buffer_content (tc_output (conns s' c)) \<noteq> [])"
  using run_conn_stream [OF assms, of t evs] run_conn_within [OF assms, of evs t]
  by (auto simp: stream_def sending_def write_synced_def)

lemma demo_sending: "sending dk_wire dk_interest 2 (demo_cstate cap)"
  by (simp add: sending_def demo_net_ok demo_conn_ready demo_write_synced)

theorem conn_history_witness:
  "\<exists>taken s'. run_conn demo_os 1 2 [EvSend ''hello'', EvSend '' world'', EvWritable] (demo_cstate 3) =
       Inr (taken, s') \<and>
     dk_wire (kern s') (tc_fd (conns s' 2)) @ buffer_content (tc_output (conns s' 2)) = taken"
proof -
  have "out_fits n 2 (demo_cstate 3)" if "n \<le> 64" for n
    using that by (simp add: out_fits_def out_size_def Buffer_sizes kCheapPrepend_def)
  then show ?thesis
    using conn_history [OF demo_laws demo_sending [of 3],
        where t = 1 and evs = "[EvSend ''hello'', EvSend '' world'', EvWritable]"]
    by (auto simp del: run_conn.simps split: sum.splits)
qed

subsection \<open>Draining\<close>

text \<open>\<open>n\<close> writability events in a row.\<close>

fun writes :: "'k os \<Rightarrow> tid \<Rightarrow> conn \<Rightarrow> nat \<Rightarrow> ('k, 'z) cstate_scheme \<Rightarrow> ('k, 'z) cstate_scheme res" where
  "writes os t c 0 s = Inr s"
| "writes os t c (Suc n) s = bind_res (HandleWrite os t c s) (writes os t c n)"

definition progress_law :: "'k os \<Rightarrow> bool" where
  "progress_law os \<longleftrightarrow>
     (\<forall>fd d k. d \<noteq> [] \<longrightarrow> (case fst (sys_write os fd d k) of Inl e \<Rightarrow> False | Inr n \<Rightarrow> 0 < n))"

lemma progress_written:
  assumes "progress_law os" "write_synced c s" "buffer_content (tc_output (conns s c)) \<noteq> []"
  shows "0 < written os c s"
proof -
  have "case fst (sys_write os (tc_fd (conns s c)) (buffer_content (tc_output (conns s c))) (kern s)) of
      Inl e \<Rightarrow> False | Inr n \<Rightarrow> 0 < n"
    using assms(1,3) unfolding progress_law_def by blast
  with assms(2,3) show ?thesis by (simp add: written_def write_synced_def split: sum.splits)
qed

lemma writes_drain:
  assumes laws: "kernel_laws os wire interest" and prog: "progress_law os"
  shows "sending wire interest c s \<Longrightarrow> length (buffer_content (tc_output (conns s c))) \<le> n \<Longrightarrow>
    \<exists>s'. writes os t c n s = Inr s' \<and> sending wire interest c s' \<and> stream wire c s' = stream wire c s \<and>
         buffer_content (tc_output (conns s' c)) = []"
proof (induction n arbitrary: s)
  case (Suc n)
  obtain s1 where s1: "HandleWrite os t c s = Inr s1" "sending wire interest c s1"
    "stream wire c s1 = stream wire c s"
    "buffer_content (tc_output (conns s1 c)) = drop (written os c s) (buffer_content (tc_output (conns s c)))"
    using HandleWrite_sending [OF laws Suc.prems(1)] by blast
  have "length (buffer_content (tc_output (conns s1 c))) \<le> n"
  proof (cases "buffer_content (tc_output (conns s c)) = []")
    case False
    with progress_written [OF prog _ False] Suc.prems s1(4) show ?thesis
      by (auto simp: sending_def simp del: length_content)
  qed (simp add: s1(4))
  with Suc.IH [OF s1(2)] s1(1,3) show ?case by auto
qed simp

text \<open>C30. A socket that takes at least one byte whenever it is reported writable drains the output
  buffer: after as many writability events as there were bytes queued at the latest, all of
  them have been accepted by the socket, in order, and it is no longer watched for writing.\<close>

theorem HandleWrite_drains:
  assumes "kernel_laws os wire interest" "progress_law os" "sending wire interest c s"
  shows "\<exists>s'. writes os t c (length (buffer_content (tc_output (conns s c)))) s = Inr s' \<and>
           wire (kern s') (tc_fd (conns s' c)) =
             wire (kern s) (tc_fd (conns s c)) @ buffer_content (tc_output (conns s c)) \<and>
           buffer_content (tc_output (conns s' c)) = [] \<and> \<not> IsWriting (conn_channel s' c)"
  using writes_drain [OF assms order_refl, of t]
  by (auto simp: stream_def sending_def write_synced_def)

theorem HandleWrite_drains_witness:
  "\<exists>s s'. SendInLoop demo_os 1 2 ''hello'' (demo_cstate 3) = Inr s \<and>
      buffer_content (tc_output (conns s 2)) = ''lo'' \<and> writes demo_os 1 2 2 s = Inr s' \<and>
      buffer_content (tc_output (conns s' 2)) = [] \<and> \<not> IsWriting (conn_channel s' 2)"
proof -
  have rest: "send_rest demo_os 2 ''hello'' (demo_cstate 3) = Some ''lo''"
    by (simp add: send_rest_def demo_write_def)
  have "append_fits (length ''lo'') (Buffer 64)"
    by (simp add: append_fits_def Buffer_sizes kCheapPrepend_def)
  then obtain s where s: "SendInLoop demo_os 1 2 ''hello'' (demo_cstate 3) = Inr s"
    "buffer_content (tc_output (conns s 2)) = ''lo''"
    using SendInLoop_stream [OF demo_laws demo_net_ok [of 3] demo_conn_ready(1), where str = "''hello''" and t = 1]
    by (auto simp: rest)
  have ok: "sending dk_wire dk_interest 2 s"
    using SendInLoop_sending [OF demo_laws demo_sending [of 3], where str = "''hello''" and t = 1] s
    by auto
  have prog: "progress_law demo_os"
    by (auto simp: progress_law_def demo_write_def Let_def)
  have len: "length (buffer_content (tc_output (conns s 2))) = 2" unfolding s(2) by simp
  show ?thesis
    using HandleWrite_drains [OF demo_laws prog ok, of 1, unfolded len] s by blast
qed

subsection \<open>Shutting down\<close>

lemma WakeUp_shutdown: "WakeUp (os\<lparr>sys_shutdown := f\<rparr>) l s = WakeUp os l s"
  by (simp add: WakeUp_def)

lemma Update_shutdown: "Update (os\<lparr>sys_shutdown := f\<rparr>) l op ch s = Update os l op ch s"
  by (simp add: Update_def)

lemma DisableWriting_shutdown: "DisableWriting (os\<lparr>sys_shutdown := f\<rparr>) ch s = DisableWriting os ch s"
  by (simp add: DisableWriting_def Channel_Update_def UpdateChannel_def Update_shutdown Let_def)

lemma queue_write_complete_shutdown:
  "queue_write_complete (os\<lparr>sys_shutdown := f\<rparr>) t c s = queue_write_complete os t c s"
  by (simp add: queue_write_complete_def QueueInLoop_def WakeUp_shutdown Let_def split: option.split)

lemma queue_write_complete_conns [simp]: "conns (queue_write_complete os t c s) = conns s"
  by (simp add: queue_write_complete_def split: option.split)

lemma HandleWrite_shutdown:
  assumes "tc_state (conns s c) = kDisconnected"
  shows "HandleWrite (os\<lparr>sys_shutdown := f\<rparr>) t c s = HandleWrite os t c s"
proof -
  have state: "DisableWriting os ch s1 = Inr s2 \<Longrightarrow> conns s2 = conns s1" for ch and s1 s2 :: "('a, 'b) cstate_scheme"
    by (rule more_upper(2) [OF chan_methods_more(3)])
  show ?thesis
    using assms
    by (auto simp: HandleWrite_def WriteFd_def DisableWriting_shutdown queue_write_complete_shutdown
        Let_def bind_res_def upd_conn_def dest!: state split: prod.split sum.split)
qed

lemma HandleWrite_disconnected:
  assumes "tc_state (conns s c) = kDisconnected" "HandleWrite os t c s = Inr s'"
  shows "tc_state (conns s' c) = kDisconnected"
proof -
  have state: "DisableWriting os ch s1 = Inr s2 \<Longrightarrow> conns s2 = conns s1" for ch and s1 s2 :: "('a, 'b) cstate_scheme"
    by (rule more_upper(2) [OF chan_methods_more(3)])
  show ?thesis
    using assms
    by (auto simp: HandleWrite_def Let_def bind_res_def upd_conn_def dest!: state
        split: prod.splits sum.splits if_splits)
qed

text \<open>
  The uses of a connection that send or shut down, each by a thread of its own: the methods
  \<open>Send\<close> and \<open>Shutdown\<close>, the functor \<open>SendInLoop\<close> that a \<open>Send\<close> of another thread has queued,
  and the event that says the socket is writable.
\<close>

datatype conn_use = UseSend string | UseSendInLoop string | UseShutdown | UseWritable

fun use_conn ::
  "'k os \<Rightarrow> conn \<Rightarrow> tid \<times> conn_use \<Rightarrow> ('k, 'z) cstate_scheme \<Rightarrow> ('k, 'z) cstate_scheme res" where
  "use_conn os c (t, UseSend str) s = Send os t c str s"
| "use_conn os c (t, UseSendInLoop str) s = SendInLoop os t c str s"
| "use_conn os c (t, UseShutdown) s = Shutdown os t c s"
| "use_conn os c (t, UseWritable) s = HandleWrite os t c s"

definition use_all ::
  "'k os \<Rightarrow> conn \<Rightarrow> (tid \<times> conn_use) list \<Rightarrow> ('k, 'z) cstate_scheme \<Rightarrow> ('k, 'z) cstate_scheme res" where
  "use_all os c = foldR (use_conn os c)"

lemma use_conn_disconnected:
  assumes "tc_state (conns s c) = kDisconnected"
  shows "use_conn os c u s = (if snd u = UseWritable then HandleWrite os (fst u) c s else Inr s)"
  using assms by (cases "(os, c, u, s)" rule: use_conn.cases) (simp_all add: Send_def SendInLoop_def Shutdown_def)

lemma use_all_disconnected:
  assumes "tc_state (conns s c) = kDisconnected"
  shows "use_all (os\<lparr>sys_shutdown := f\<rparr>) c us s = use_all os c us s"
    "use_all os c us s = use_all os c (filter (\<lambda>u. snd u = UseWritable) us) s"
    "case use_all os c us s of Inl e \<Rightarrow> True | Inr s' \<Rightarrow> tc_state (conns s' c) = kDisconnected"
  using assms
proof (induction us arbitrary: s)
  case (Cons u us)
  {
    case 1
    then show ?case using Cons.IH(1) [OF 1] Cons.IH(1) [OF HandleWrite_disconnected [OF 1]]
      by (auto simp: use_all_def use_conn_disconnected HandleWrite_shutdown bind_res_def split: sum.split)
  next
    case 2
    then show ?case using Cons.IH(2) [OF 2] Cons.IH(2) [OF HandleWrite_disconnected [OF 2]]
      by (auto simp: use_all_def use_conn_disconnected bind_res_def split: sum.split)
  next
    case 3
    show ?case
    proof (cases "use_conn os c u s")
      case (Inr s1)
      with 3 have "tc_state (conns s1 c) = kDisconnected"
        by (auto simp: use_conn_disconnected split: if_splits dest: HandleWrite_disconnected)
      from Cons.IH(3) [OF this] Inr show ?thesis by (simp add: use_all_def)
    qed (simp add: use_all_def)
  }
qed (simp_all add: use_all_def)

text \<open>C31. \<open>Shutdown\<close> of a connected connection while output is queued, called in its loop's thread,
  only marks it disconnected. Whatever is then sent on it or reported for it, by whichever thread
  and for as long as one likes, the sends and further calls of \<open>Shutdown\<close> are without effect,
  the connection stays disconnected, and the run is the same whatever the system call \<open>shutdown\<close>
  would do: no writability event, not even the one that empties the buffer, ever calls it, and the
  half-close that is meant to follow the last byte does not happen. (From another thread the
  queued \<open>ShutdownInLoop\<close> may still do it, when the buffer is empty by the time it runs.)\<close>

theorem Shutdown_pending_forgotten:
  assumes "tc_state (conns s c) = kConnected" "IsInLoopThread t (tc_loop (conns s c)) s"
    "IsWriting (conn_channel s c)"
  shows "\<exists>s1. Shutdown os t c s = Inr s1 \<and> s1 = set_state kDisconnected c s \<and>
    use_all (os\<lparr>sys_shutdown := f\<rparr>) c us s1 = use_all os c us s1 \<and>
    use_all os c us s1 = use_all os c (filter (\<lambda>u. snd u = UseWritable) us) s1 \<and>
    (case use_all os c us s1 of Inl e \<Rightarrow> True | Inr s2 \<Rightarrow> tc_state (conns s2 c) = kDisconnected)"
proof -
  have "Shutdown os t c s = Inr (set_state kDisconnected c s)"
    using assms
    by (simp add: Shutdown_def RunInLoop_def IsInLoopThread_def ShutdownInLoop_def set_state_def)
  moreover have "tc_state (conns (set_state kDisconnected c s) c) = kDisconnected" by (simp add: set_state_def)
  ultimately show ?thesis using use_all_disconnected by blast
qed

theorem Shutdown_pending_forgotten_witness:
  "\<exists>s s1. SendInLoop demo_os 1 2 ''hello'' (demo_cstate 3) = Inr s \<and>
     Shutdown demo_os 1 2 s = Inr s1 \<and> s1 = set_state kDisconnected 2 s \<and>
     use_all (demo_os\<lparr>sys_shutdown := \<lambda>fd how k. undefined\<rparr>) 2
       [(1, UseSend ''more''), (1, UseWritable), (7, UseShutdown)] s1 = use_all demo_os 2 [(1, UseWritable)] s1"
proof -
  have rest: "send_rest demo_os 2 ''hello'' (demo_cstate 3) = Some ''lo''"
    by (simp add: send_rest_def demo_write_def)
  have "append_fits (length ''lo'') (Buffer 64)"
    by (simp add: append_fits_def Buffer_sizes kCheapPrepend_def)
  then obtain s where s: "SendInLoop demo_os 1 2 ''hello'' (demo_cstate 3) = Inr s"
    "send_frame dk_wire 2 (demo_cstate 3) s" "IsWriting (conn_channel s 2)"
    using SendInLoop_stream [OF demo_laws demo_net_ok [of 3] demo_conn_ready(1), where str = "''hello''" and t = 1]
    by (auto simp: rest)
  then have "tc_state (conns s 2) = kConnected" "IsInLoopThread 1 (tc_loop (conns s 2)) s"
    by (auto simp: send_frame_def IsInLoopThread_def) (simp add: demo_cstate_def)
  from Shutdown_pending_forgotten [of s 2 1, OF this s(3), of demo_os "\<lambda>fd how k. undefined"
      "[(1, UseSend ''more''), (1, UseWritable), (7, UseShutdown)]"] s(1)
  show ?thesis by auto
qed

subsection \<open>Receiving\<close>

lemma ReadFd_nothing:
  assumes "buffer_inv b" "sys_readv os fd (readv_lens b) k = (Inr [], k')"
  shows "ReadFd os fd b k = Inr (Inr 0, b, k')"
  using assms by (simp add: ReadFd_def write_at_def buffer_inv_def)

text \<open>C32. \<open>HandleRead\<close> on every branch, for any input buffer whose indices are in order. When \<open>readv\<close> delivers
  bytes, the message callback runs, once, on the input buffer with exactly these bytes appended; at the
  end of the stream \<open>HandleClose\<close> runs, and no message callback; an error closes nothing and changes
  nothing but what fetching \<open>SO_ERROR\<close> does; and a chunk of a length that \<open>ReadFd\<close> mishandles (C28)
  overruns the input buffer before any callback.\<close>

theorem HandleRead_branches:
  assumes inv: "buffer_inv (tc_input (conns s c))"
    and rv: "sys_readv os (tc_fd (conns s c)) (readv_lens (tc_input (conns s c))) (kern s) = (r, k')"
  shows "case r of
      Inl e \<Rightarrow> HandleRead os call call_msg c now s =
                 Inr (s\<lparr>kern := snd (sys_so_error os (ch_fd (conn_channel s c)) k')\<rparr>)
    | Inr bytes \<Rightarrow>
        if bytes = [] then HandleRead os call call_msg c now s = HandleClose os call c (s\<lparr>kern := k'\<rparr>)
        else if read_fits (length bytes) (tc_input (conns s c))
        then \<exists>b. buffer_inv b \<and> buffer_content b = buffer_content (tc_input (conns s c)) @ bytes \<and>
               HandleRead os call call_msg c now s =
                 call_msg_fn call_msg (tc_msg_cb (conns s c)) c now
                   (upd_conn c (\<lambda>tc. tc\<lparr>tc_input := b\<rparr>) (s\<lparr>kern := k'\<rparr>))
        else HandleRead os call call_msg c now s = Inl HeapOverrun"
proof -
  have same: "upd_conn c (\<lambda>tc. tc\<lparr>tc_input := tc_input (conns s c)\<rparr>) (s\<lparr>kern := k'\<rparr>) = s\<lparr>kern := k'\<rparr>"
    by (cases s) (simp add: upd_conn_def)
  show ?thesis
  proof (cases r)
    case (Inl e)
    with rv same show ?thesis
      by (simp add: HandleRead_def ReadFd_error HandleError_def Let_def)
  next
    case (Inr bytes)
    show ?thesis
    proof (cases "bytes = []")
      case True
      with Inr ReadFd_nothing [OF inv rv [unfolded Inr True]] show ?thesis
        by (simp add: HandleRead_def Let_def same)
    next
      case False
      then show ?thesis
        using ReadFd_bytes [OF inv rv [unfolded Inr]] Inr
        by (auto simp: HandleRead_def Let_def split: if_splits)
    qed
  qed
qed

theorem HandleRead_branches_witness:
  "\<exists>b. buffer_content b = ''hi'' \<and>
     HandleRead demo_os (\<lambda>f c s. Inr s) (\<lambda>f c now s. Inr s) 2 0
       ((demo_cstate 3)\<lparr>kern := (demo_kernel 3)\<lparr>dk_inbox := [''hi'']\<rparr>\<rparr>) =
     Inr (upd_conn 2 (\<lambda>tc. tc\<lparr>tc_input := b\<rparr>) ((demo_cstate 3)\<lparr>kern := demo_kernel 3\<rparr>))"
proof -
  let ?s = "(demo_cstate 3)\<lparr>kern := (demo_kernel 3)\<lparr>dk_inbox := [''hi'']\<rparr>\<rparr>"
  have call: "sys_readv demo_os (tc_fd (conns ?s 2)) (readv_lens (tc_input (conns ?s 2))) (kern ?s) =
      (Inr ''hi'', demo_kernel 3)"
    by (simp add: demo_readv_def readv_lens_def Buffer_sizes extra_buf_size_def)
      (simp add: demo_kernel_def)
  have "read_fits (length ''hi'') (Buffer 64)" by (simp add: read_fits_def Buffer_sizes)
  then show ?thesis
    using HandleRead_branches [OF _ call, of "\<lambda>f c s. Inr s" "\<lambda>f c now s. Inr s" 0]
    by (auto simp: call_msg_fn_def)
qed

subsection \<open>Leaving the poller\<close>

text \<open>The part of \<open>HandleClose\<close> before its callbacks.\<close>

lemma HandleClose_first:
  fixes s :: "('k, 'z) cstate_scheme"
  assumes laws: "kernel_laws os wire interest" and net: "net_ok interest s" and ready: "conn_ready c s"
    and added: "ch_index (conn_channel s c) = kAdded"
  obtains s1 where "\<And>call. HandleClose os call c s =
        bind_res (call_conn_fn call (tc_conn_cb (conns s c)) c s1)
          (\<lambda>s2. call_conn_fn call (tc_close_cb (conns s2 c)) c s2)"
    "conns s1 = (conns s)(c := (conns s c)\<lparr>tc_state := kDisconnected\<rparr>)"
    "net_ok interest s1" "conn_ready c s1" "evloops s1 = evloops s"
    "send_frame wire c (set_state kDisconnected c s) s1"
    "stream wire c s1 = stream wire c s"
    "interest (kern s1) (epoll_fd (pollers s1 (tc_loop (conns s c)))) (tc_fd (conns s c)) = None"
proof -
  let ?ch = "tc_channel (conns s c)" and ?l = "tc_loop (conns s c)"
  define s0 where "s0 = set_state kDisconnected c s"
  have net0: "net_ok interest s0" by (rule net_ok_cong [OF net]) (simp_all add: s0_def set_state_def)
  have s0: "chans s0 = chans s" "pollers s0 = pollers s" "tc_channel (conns s0 c) = ?ch"
    by (simp_all add: s0_def set_state_def)
  have ready0: "conn_ready c s0" using ready by (simp add: conn_ready_def s0_def set_state_def)
  have own: "ch_fd (chans s ?ch) = tc_fd (conns s c)" "ch_loop (chans s ?ch) = ?l"
    using ready by (simp_all add: conn_ready_def)
  obtain s1 where run: "DisableAll os ?ch s0 = Inr s1" and net1: "net_ok interest s1"
    and upd: "updated ?ch (upd_chan ?ch del_all s0) s1"
    using Channel_Update_net [OF kernel_lawsD(3) [OF laws] net0 keeps_simps(5), of ?ch] added
    unfolding DisableAll_def s0 by auto
  have "p_channels (pollers s1 ?l) (tc_fd (conns s c)) = Some ?ch" "ch_index (chans s1 ?ch) = kDeleted"
    using upd own added by (simp_all add: updated_def Let_def s0 next_index_def)
  then have gone: "interest (kern s1) (epoll_fd (pollers s1 ?l)) (tc_fd (conns s c)) = None"
    using poller_ok_interest [OF net_okD(1) [OF net1], of ?l] by simp
  from conn_DisableAll [OF laws net0 ready0] run s0(3)
  have s1: "conn_ready c s1" "send_frame wire c s0 s1" "conns s1 = conns s0" "evloops s1 = evloops s0"
    "stream wire c s1 = stream wire c s0"
    by (metis sum.inject(2))+
  have "HandleClose os call c s =
        bind_res (call_conn_fn call (tc_conn_cb (conns s c)) c s1)
          (\<lambda>s2. call_conn_fn call (tc_close_cb (conns s2 c)) c s2)" for call
    using run s1(3) by (simp add: HandleClose_def s0_def set_state_def)
  with gone net1 s1 show thesis
    by (intro that [of s1]) (simp_all add: s0_def set_state_def stream_def)
qed

lemma ConnectDestroyed_removes:
  fixes s :: "('k, 'z) cstate_scheme"
  assumes laws: "kernel_laws os wire interest" and net: "net_ok interest s" and ready: "conn_ready c s"
    and closed: "tc_state (conns s c) \<noteq> kConnected"
  shows "\<exists>s'. ConnectDestroyed os call c s = Inr s' \<and> net_ok interest s' \<and>
      conns s' = conns s \<and> cstate.more s' = cstate.more s \<and>
      (\<forall>l fd. p_channels (pollers s' l) fd =
         (if l = tc_loop (conns s c) \<and> fd = tc_fd (conns s c) then None
          else p_channels (pollers s l) fd)) \<and>
      interest (kern s') (epoll_fd (pollers s' (tc_loop (conns s c)))) (tc_fd (conns s c)) = None"
proof -
  let ?ch = "tc_channel (conns s c)" and ?l = "tc_loop (conns s c)"
  have own: "ch_fd (chans s ?ch) = tc_fd (conns s c)" "ch_loop (chans s ?ch) = ?l"
    "ch_index (chans s ?ch) \<noteq> kNew"
    using ready by (simp_all add: conn_ready_def)
  obtain s' where run: "Channel_Remove os ?ch s = Inr s'" and net': "net_ok interest s'"
    and rem: "removed ?ch s s'"
    using Channel_Remove_net [OF kernel_lawsD(3) [OF laws] net, of ?ch] own(3) by auto
  have table: "p_channels (pollers s' l) fd =
      (if l = ?l \<and> fd = tc_fd (conns s c) then None else p_channels (pollers s l) fd)" for l fd
    using rem own by (simp add: removed_def Let_def)
  have "interest (kern s') (epoll_fd (pollers s' ?l)) (tc_fd (conns s c)) = None"
    using poller_ok_interest [OF net_okD(1) [OF net'], of ?l] table by simp
  moreover have "conns s' = conns s" "cstate.more s' = cstate.more s"
    using more_upper [of s' s] rem by (simp_all add: removed_def Let_def)
  ultimately show ?thesis using run net' table closed by (simp add: ConnectDestroyed_def)
qed

end
