(* ===== verification/Mail.thy ===== *)
theory Mail
  imports ConnStream
begin

text \<open>
  Messages from any thread to any connection: what is on its way to a connection is the byte
  stream of theory \<open>ConnStream\<close> and the messages that wait as functors in its loop.
  \<open>TcpConnection::Send\<close> adds to one of the two, for its own connection only.
\<close>

subsection \<open>Frame conditions that need no kernel law\<close>

lemma queue_write_complete_more:
  "cstate.more (queue_write_complete os t c s) = cstate.more s"
  by (simp add: queue_write_complete_def split: option.split)

lemma send_direct_more:
  "send_direct os t c str s = (nwrote, remaining, fault, s1) \<Longrightarrow> cstate.more s1 = cstate.more s"
  by (auto simp: send_direct_def Let_def queue_write_complete_more split: if_splits prod.splits sum.splits)

lemma EnableWriting_upper:
  fixes s s' :: "('k, 'z) cstate_scheme"
  assumes "EnableWriting os ch s = Inr s'"
  shows "conns s' = conns s" "evloops s' = evloops s" "cstate.more s' = cstate.more s"
  using more_upper [OF chan_methods_more(2) [OF assms]] by simp_all

lemma send_buffered_more:
  "send_buffered os t c str s = Inr s' \<Longrightarrow> cstate.more s' = cstate.more s"
  by (auto simp: send_buffered_def Let_def bind_res_Inr dest!: EnableWriting_upper(3) split: if_splits)

lemma SendInLoop_more:
  "SendInLoop os t c str s = Inr s' \<Longrightarrow> cstate.more s' = cstate.more s"
  by (auto simp: SendInLoop_def dest!: send_buffered_more split: if_splits prod.splits
      dest: send_direct_more)

lemma Send_more: "Send os t c msg s = Inr s' \<Longrightarrow> cstate.more s' = cstate.more s"
  by (auto simp: Send_def RunInLoop_def dest: SendInLoop_more split: if_splits)

lemma Shutdown_more: "Shutdown os t c s = Inr s' \<Longrightarrow> cstate.more s' = cstate.more s"
  by (auto simp: Shutdown_def RunInLoop_def ShutdownInLoop_def set_state_def split: if_splits)

subsection \<open>Messages waiting in a loop\<close>

fun send_msg :: "conn \<Rightarrow> task \<Rightarrow> string list" where
  "send_msg d (BindSendInLoop e msg) = (if e = d then [msg] else [])"
| "send_msg d _ = []"

definition waiting :: "conn \<Rightarrow> ('k, 'z) cstate_scheme \<Rightarrow> string list" where
  "waiting d s = concat (map (send_msg d) (el_pending (evloops s (tc_loop (conns s d)))))"

lemma waiting_QueueInLoop:
  "waiting d (QueueInLoop os t l f s) =
     waiting d s @ (if l = tc_loop (conns s d) then send_msg d f else [])"
  by (simp add: waiting_def push_pending_def)

text \<open>\<open>SendInLoop\<close> queues no message, and moves no connection to another loop.\<close>

definition same_waiting :: "('k, 'z) cstate_scheme \<Rightarrow> ('k, 'z) cstate_scheme \<Rightarrow> bool" where
  "same_waiting s s' \<longleftrightarrow>
     (\<forall>d. tc_loop (conns s' d) = tc_loop (conns s d) \<and> waiting d s' = waiting d s)"

lemma same_waiting_trans: "same_waiting s s1 \<Longrightarrow> same_waiting s1 s2 \<Longrightarrow> same_waiting s s2"
  by (simp add: same_waiting_def)

lemma same_waiting_intros:
  "same_waiting s s"
  "\<forall>d. send_msg d f = [] \<Longrightarrow> same_waiting s (QueueInLoop os t l f s)"
  "same_waiting s (s\<lparr>kern := k\<rparr>)"
  "same_waiting s (upd_conn c (\<lambda>tc. tc\<lparr>tc_output := b\<rparr>) s)"
  by (auto simp: same_waiting_def waiting_QueueInLoop) (auto simp: waiting_def)

lemma EnableWriting_waiting: "EnableWriting os ch s = Inr s' \<Longrightarrow> same_waiting s s'"
  by (simp add: same_waiting_def waiting_def EnableWriting_upper [of os ch s s'])

lemma queue_write_complete_waiting: "same_waiting s (queue_write_complete os t c s)"
  by (simp add: queue_write_complete_def same_waiting_intros split: option.split)

lemma send_direct_waiting:
  "send_direct os t c str s = (nwrote, remaining, fault, s1) \<Longrightarrow> same_waiting s s1"
  by (auto simp: send_direct_def Let_def same_waiting_intros split: if_splits prod.splits sum.splits
      intro: same_waiting_trans [OF same_waiting_intros(3) queue_write_complete_waiting])

lemma send_buffered_waiting:
  assumes "send_buffered os t c str s = Inr s'"
  shows "same_waiting s s'"
proof -
  let ?tc = "conns s c"
  define s1 where "s1 = (if tc_high_water_mark ?tc \<le> ReadeableBytes (tc_output ?tc) + length str \<and>
                            ReadeableBytes (tc_output ?tc) < tc_high_water_mark ?tc
       then QueueInLoop os t (tc_loop ?tc) (BindHighWaterMark (tc_high_water_mark_cb ?tc) c
              (ReadeableBytes (tc_output ?tc) + length str)) s else s)"
  have one: "same_waiting s s1" by (simp add: s1_def same_waiting_intros)
  obtain b where "(let s2 = upd_conn c (\<lambda>tc. tc\<lparr>tc_output := b\<rparr>) s1 in
      if \<not> IsWriting (conn_channel s2 c)
      then EnableWriting os (tc_channel (conns s2 c)) s2 else Inr s2) = Inr s'"
    using assms unfolding send_buffered_def Let_def s1_def [symmetric] bind_res_Inr by blast
  then have "same_waiting s1 s'"
    using same_waiting_trans [OF same_waiting_intros(4) EnableWriting_waiting]
    by (auto simp: Let_def same_waiting_intros split: if_splits)
  with one show ?thesis by (rule same_waiting_trans)
qed

lemma SendInLoop_waiting:
  assumes "SendInLoop os t c str s = Inr s'"
  shows "same_waiting s s'"
proof -
  obtain nwrote remaining fault s1 where
    d: "send_direct os t c str s = (nwrote, remaining, fault, s1)"
    by (metis prod_cases4)
  note one = send_direct_waiting [OF d]
  show ?thesis
    using assms one same_waiting_trans [OF one send_buffered_waiting]
    by (auto simp: SendInLoop_def d same_waiting_intros split: if_splits)
qed

subsection \<open>Sending to one of several connections\<close>

text \<open>
  Connections \<open>D\<close> in service, with descriptors and channels of their own.
\<close>

definition mail_ok :: "'k interest \<Rightarrow> conn set \<Rightarrow> ('k, 'z) cstate_scheme \<Rightarrow> bool" where
  "mail_ok interest D s \<longleftrightarrow>
     net_ok interest s \<and> (\<forall>d \<in> D. conn_ready d s) \<and>
     (\<forall>d \<in> D. \<forall>e \<in> D. d \<noteq> e \<longrightarrow>
        tc_fd (conns s d) \<noteq> tc_fd (conns s e) \<and> tc_channel (conns s d) \<noteq> tc_channel (conns s e))"

definition same_status :: "('k, 'z) cstate_scheme \<Rightarrow> ('k, 'z) cstate_scheme \<Rightarrow> bool" where
  "same_status s s' \<longleftrightarrow>
     (\<forall>d. tc_state (conns s' d) = tc_state (conns s d) \<and> tc_loop (conns s' d) = tc_loop (conns s d) \<and>
        tc_name (conns s' d) = tc_name (conns s d) \<and> tc_fd (conns s' d) = tc_fd (conns s d) \<and>
        tc_close_cb (conns s' d) = tc_close_cb (conns s d)) \<and>
     (\<forall>l. el_thread_id (evloops s' l) = el_thread_id (evloops s l)) \<and>
     cstate.more s' = cstate.more s"

definition untouched ::
  "('k \<Rightarrow> fd \<Rightarrow> string) \<Rightarrow> conn \<Rightarrow> ('k, 'z) cstate_scheme \<Rightarrow> ('k, 'z) cstate_scheme \<Rightarrow> bool" where
  "untouched wire d s s' \<longleftrightarrow>
     stream wire d s' = stream wire d s \<and> waiting d s' = waiting d s \<and>
     tc_output (conns s' d) = tc_output (conns s d)"

text \<open>
  The two ways in which a message of a thread to a connection of its own loop is not sent. It is
  \<open>lost\<close> when nothing is queued before it and the kernel, in a state in which it has taken what it
  has taken now, answers the write with \<open>EPIPE\<close> or \<open>ECONNRESET\<close>; and it \<open>overflows\<close> when the output
  buffer misjudges the room for what the kernel leaves of it (\<open>chokes\<close>).
\<close>

definition lost ::
  "'k os \<Rightarrow> ('k \<Rightarrow> fd \<Rightarrow> string) \<Rightarrow> string \<Rightarrow> conn \<Rightarrow> ('k, 'z) cstate_scheme \<Rightarrow> bool" where
  "lost os wire msg d s \<longleftrightarrow>
     buffer_content (tc_output (conns s d)) = [] \<and>
     (\<exists>k. wire k (tc_fd (conns s d)) = wire (kern s) (tc_fd (conns s d)) \<and>
          fst (sys_write os (tc_fd (conns s d)) msg k) \<in> {Inl EPIPE, Inl ECONNRESET})"

definition chokes :: "conn \<Rightarrow> string \<Rightarrow> ('k, 'z) cstate_scheme \<Rightarrow> bool" where
  "chokes d msg s \<longleftrightarrow> (\<exists>n < length msg. \<not> append_fits (length msg - n) (tc_output (conns s d)))"

definition overflows :: "tid \<Rightarrow> string \<Rightarrow> conn \<Rightarrow> ('k, 'z) cstate_scheme \<Rightarrow> bool" where
  "overflows t msg d s \<longleftrightarrow>
     tc_state (conns s d) = kConnected \<and> IsInLoopThread t (tc_loop (conns s d)) s \<and> chokes d msg s"

text \<open>What one \<open>Send\<close> from thread \<open>t\<close> adds for its connection.\<close>

definition posted ::
  "'k os \<Rightarrow> ('k \<Rightarrow> fd \<Rightarrow> string) \<Rightarrow> tid \<Rightarrow> string \<Rightarrow> conn \<Rightarrow>
    ('k, 'z) cstate_scheme \<Rightarrow> ('k, 'z) cstate_scheme \<Rightarrow> bool" where
  "posted os wire t msg d s s' \<longleftrightarrow>
     (if tc_state (conns s d) \<noteq> kConnected
      then stream wire d s' = stream wire d s \<and> waiting d s' = waiting d s
      else if IsInLoopThread t (tc_loop (conns s d)) s
      then waiting d s' = waiting d s \<and>
           (stream wire d s' = stream wire d s @ msg \<or> stream wire d s' = stream wire d s \<and> lost os wire msg d s)
      else stream wire d s' = stream wire d s \<and> waiting d s' = waiting d s @ [msg])"

lemma send_rest_cases:
  "send_rest os c str s = None \<Longrightarrow> lost os wire str c s"
  "send_rest os c str s = Some rest \<Longrightarrow> rest \<noteq> [] \<Longrightarrow> \<exists>n < length str. length rest = length str - n"
  unfolding send_rest_def lost_def
  by (auto split: if_splits sum.splits intro!: exI [of _ "kern s"]) (auto intro: exI [of _ 0] simp: not_le)

lemma same_status_refl [simp]: "same_status s s"
  by (simp add: same_status_def)

lemma same_status_trans: "same_status s s1 \<Longrightarrow> same_status s1 s2 \<Longrightarrow> same_status s s2"
  by (simp add: same_status_def)

lemma send_frame_status: "send_frame wire c s s' \<Longrightarrow> same_status s s'"
  by (auto simp: send_frame_def same_status_def)

lemma mail_ok_frame:
  assumes ok: "mail_ok interest D s" and c: "c \<in> D" and frame: "send_frame wire c s s'"
    and net: "net_ok interest s'" and ready: "conn_ready c s'"
  shows "mail_ok interest D s'"
proof -
  have same: "tc_fd (conns s' d) = tc_fd (conns s d)" "tc_channel (conns s' d) = tc_channel (conns s d)" for d
    using frame by (auto simp: send_frame_def)
  have "conn_ready d s'" if "d \<in> D" for d
    using that c ok ready conn_ready_other [OF frame, of d]
    by (cases "d = c") (auto simp: mail_ok_def)
  with ok net show ?thesis by (simp add: mail_ok_def same)
qed

lemma QueueInLoop_mail:
  assumes laws: "kernel_laws os wire interest" and ok: "mail_ok interest D s"
  shows "mail_ok interest D (QueueInLoop os t l f s)" "same_status s (QueueInLoop os t l f s)"
    "d \<in> D \<Longrightarrow> stream wire d (QueueInLoop os t l f s) = stream wire d s"
proof -
  let ?s = "QueueInLoop os t l f s"
  have "conn_ready d ?s" if "d \<in> D" for d
    using ok that by (auto simp: mail_ok_def conn_ready_def push_pending_def)
  moreover have "net_ok interest ?s" using ok net_ok_QueueInLoop [OF laws] by (auto simp: mail_ok_def)
  ultimately show "mail_ok interest D ?s" using ok by (simp add: mail_ok_def)
  show "same_status s ?s" by (simp add: same_status_def push_pending_def)
  show "stream wire d ?s = stream wire d s" if "d \<in> D"
    using ok that by (simp add: stream_def mail_ok_def conn_ready_def QueueInLoop_kernel(2) [OF laws])
qed

lemma QueueInLoop_untouched:
  assumes laws: "kernel_laws os wire interest" and ok: "mail_ok interest D s" and d: "d \<in> D"
    and other: "l = tc_loop (conns s d) \<Longrightarrow> send_msg d f = []"
  shows "untouched wire d s (QueueInLoop os t l f s)"
  using QueueInLoop_mail(3) [OF laws ok d] other by (auto simp: untouched_def waiting_QueueInLoop)

lemma send_untouched:
  assumes frame: "send_frame wire c s s'" and wait: "same_waiting s s'" and ok: "mail_ok interest D s"
    and c: "c \<in> D" and d: "d \<in> D" "d \<noteq> c"
  shows "untouched wire d s s'"
proof -
  have "tc_output (conns s' d) = tc_output (conns s d)" using frame d(2) by (auto simp: send_frame_def)
  moreover have "stream wire d s' = stream wire d s"
    using stream_other [OF frame, of d] d c ok by (auto simp: mail_ok_def)
  ultimately show ?thesis using wait by (simp add: untouched_def same_waiting_def)
qed

lemma SendInLoop_mail:
  assumes laws: "kernel_laws os wire interest" and ok: "mail_ok interest D s"
    and c: "c \<in> D" and live: "tc_state (conns s c) \<noteq> kDisconnected"
  shows "(\<exists>s'. SendInLoop os t c msg s = Inr s' \<and> mail_ok interest D s' \<and> same_status s s' \<and>
           waiting c s' = waiting c s \<and> (\<forall>d \<in> D. d \<noteq> c \<longrightarrow> untouched wire d s s') \<and>
           (stream wire c s' = stream wire c s @ msg \<or>
            stream wire c s' = stream wire c s \<and> lost os wire msg c s)) \<or>
         SendInLoop os t c msg s = Inl HeapOverrun \<and> chokes c msg s"
proof -
  have ready: "net_ok interest s" "conn_ready c s" using ok c by (simp_all add: mail_ok_def)
  note run = SendInLoop_stream [OF laws ready live, where str = msg and t = t]
  show ?thesis
  proof (cases "SendInLoop os t c msg s")
    case (Inr s')
    with run send_rest_cases(1) [of os c msg s wire]
    have s': "net_ok interest s'" "conn_ready c s'" "send_frame wire c s s'"
      "stream wire c s' = stream wire c s @ msg \<or> stream wire c s' = stream wire c s \<and> lost os wire msg c s"
      by (auto split: option.splits if_splits)
    have wait: "same_waiting s s'" by (rule SendInLoop_waiting [OF Inr])
    then have "waiting c s' = waiting c s" by (simp add: same_waiting_def)
    with Inr s'(4) mail_ok_frame [OF ok c s'(3,1,2)] send_frame_status [OF s'(3)] send_untouched [OF s'(3) wait ok c]
    show ?thesis by blast
  next
    case (Inl e)
    with run obtain rest where "send_rest os c msg s = Some rest" "rest \<noteq> []" "e = HeapOverrun"
      "\<not> append_fits (length rest) (tc_output (conns s c))"
      by (auto split: option.splits if_splits)
    with Inl send_rest_cases(2) [of os c msg s rest] show ?thesis by (metis chokes_def)
  qed
qed

lemma Send_mail:
  assumes laws: "kernel_laws os wire interest" and ok: "mail_ok interest D s" and c: "c \<in> D"
  shows "(\<exists>s'. Send os t c msg s = Inr s' \<and> mail_ok interest D s' \<and> same_status s s' \<and>
           posted os wire t msg c s s' \<and> (\<forall>d \<in> D. d \<noteq> c \<longrightarrow> untouched wire d s s')) \<or>
         Send os t c msg s = Inl HeapOverrun \<and> overflows t msg c s"
proof (cases "tc_state (conns s c) = kConnected")
  case False
  with ok show ?thesis by (simp add: Send_def posted_def untouched_def)
next
  case connected: True
  show ?thesis
  proof (cases "IsInLoopThread t (tc_loop (conns s c)) s")
    case True
    with SendInLoop_mail [OF laws ok c, where msg = msg and t = t] connected show ?thesis
      by (auto simp: Send_def posted_def overflows_def)
  next
    case False
    let ?s = "QueueInLoop os t (tc_loop (conns s c)) (BindSendInLoop c msg) s"
    have "Send os t c msg s = Inr ?s" using connected False by (simp add: Send_def RunInLoop_def)
    moreover have "posted os wire t msg c s ?s"
      using connected False QueueInLoop_mail(3) [OF laws ok c]
      by (simp add: posted_def waiting_QueueInLoop)
    moreover have "untouched wire d s ?s" if "d \<in> D" "d \<noteq> c" for d
      using that by (intro QueueInLoop_untouched [OF laws ok]) simp_all
    ultimately show ?thesis using QueueInLoop_mail(1,2) [OF laws ok] by blast
  qed
qed

text \<open>The same message to each of several connections.\<close>

lemma untouched_trans: "untouched wire d s s1 \<Longrightarrow> untouched wire d s1 s2 \<Longrightarrow> untouched wire d s s2"
  by (simp add: untouched_def)

lemma IsInLoopThread_status: "same_status s s' \<Longrightarrow> IsInLoopThread t l s' = IsInLoopThread t l s"
  by (simp add: same_status_def IsInLoopThread_def)

lemma untouched_wire:
  "same_status s s1 \<Longrightarrow> untouched wire d s s1 \<Longrightarrow>
     wire (kern s1) (tc_fd (conns s d)) = wire (kern s) (tc_fd (conns s d))"
  unfolding untouched_def same_status_def stream_def by (metis append_same_eq)

lemma lost_cong: "same_status s s1 \<Longrightarrow> untouched wire d s s1 \<Longrightarrow> lost os wire msg d s1 = lost os wire msg d s"
  using untouched_wire [of s s1 wire d] by (simp add: lost_def) (simp add: untouched_def same_status_def)

lemma overflows_cong: "same_status s s1 \<Longrightarrow> untouched wire d s s1 \<Longrightarrow> overflows t msg d s1 = overflows t msg d s"
  by (simp add: overflows_def chokes_def untouched_def same_status_def IsInLoopThread_def)

lemma posted_cong:
  assumes "same_status s s1" "untouched wire d s s1"
  shows "posted os wire t msg d s1 s2 = posted os wire t msg d s s2"
  using assms(1,2) lost_cong [OF assms]
  by (simp add: posted_def untouched_def same_status_def IsInLoopThread_def)

lemma posted_then:
  "posted os wire t msg d s s1 \<Longrightarrow> untouched wire d s1 s2 \<Longrightarrow> posted os wire t msg d s s2"
  by (simp add: posted_def untouched_def)

lemma Send_all:
  assumes laws: "kernel_laws os wire interest"
  shows "mail_ok interest D s \<Longrightarrow> set ds \<subseteq> D \<Longrightarrow> distinct ds \<Longrightarrow>
    (\<exists>s'. foldR (\<lambda>d. Send os t d msg) ds s = Inr s' \<and> mail_ok interest D s' \<and> same_status s s' \<and>
       (\<forall>d \<in> D. if d \<in> set ds then posted os wire t msg d s s' else untouched wire d s s')) \<or>
    foldR (\<lambda>d. Send os t d msg) ds s = Inl HeapOverrun \<and> (\<exists>d \<in> set ds. overflows t msg d s)"
proof (induction ds arbitrary: s)
  case Nil
  then show ?case by (simp add: untouched_def)
next
  case (Cons c ds)
  then have c: "c \<in> D" "c \<notin> set ds" by simp_all
  show ?case
  proof (cases "Send os t c msg s")
    case (Inl e)
    with Send_mail [OF laws Cons.prems(1) c(1), of t msg] show ?thesis by auto
  next
    case (Inr s1)
    with Send_mail [OF laws Cons.prems(1) c(1), of t msg]
    have s1: "mail_ok interest D s1" "same_status s s1" "posted os wire t msg c s s1"
      "\<And>d. d \<in> D \<Longrightarrow> d \<noteq> c \<Longrightarrow> untouched wire d s s1" by auto
    have ds: "set ds \<subseteq> D" "distinct ds" using Cons.prems by simp_all
    from Cons.IH [OF s1(1) this] show ?thesis
    proof (elim disjE exE conjE)
      fix s2 assume s2: "foldR (\<lambda>d. Send os t d msg) ds s1 = Inr s2" "mail_ok interest D s2"
        "same_status s1 s2" "\<forall>d\<in>D. if d \<in> set ds then posted os wire t msg d s1 s2 else untouched wire d s1 s2"
      have "if d \<in> set (c # ds) then posted os wire t msg d s s2 else untouched wire d s s2" if "d \<in> D" for d
      proof (cases "d = c")
        case True
        with c s1(3) s2(4) posted_then show ?thesis by fastforce
      next
        case False
        with s1(4) [OF that] s1(2) s2(4) that posted_cong untouched_trans show ?thesis by fastforce
      qed
      with s2 Inr same_status_trans [OF s1(2) s2(3)] show ?thesis by simp
    next
      assume "foldR (\<lambda>d. Send os t d msg) ds s1 = Inl HeapOverrun" "\<exists>d \<in> set ds. overflows t msg d s1"
      moreover have "overflows t msg d s1 = overflows t msg d s" if "d \<in> set ds" for d
        using that c(2) ds(1) by (intro overflows_cong [OF s1(2) s1(4)]) auto
      ultimately show ?thesis using Inr by auto
    qed
  qed
qed

end
