(* ===== verification/ChatCorrect.thy ===== *)
theory ChatCorrect
  imports ChatRoom Mail ConnCorrect
begin

text \<open>
  What the chat room guarantees: the two maps stay inverse to each other over logins, exits and
  messages; who receives what on a login, a private and a group message; and where the code
  falls short: the empty name, a private message without its second separator.
\<close>

subsection \<open>Broadcasts\<close>

lemma foldR_more:
  fixes s :: "('k, 'z) world_scheme"
  assumes "foldR f xs s = Inr s'"
    and "\<And>x s s'. x \<in> set xs \<Longrightarrow> f x s = Inr s' \<Longrightarrow> cstate.more s' = cstate.more s"
  shows "cstate.more s' = cstate.more s"
  by (rule foldR_invariant [OF assms(1), where P = "\<lambda>s1. cstate.more s1 = cstate.more s"])
     (use assms(2) in auto)

lemma BroadcastNoSelf_more:
  "BroadcastNoSelf os t c msg s = Inr s' \<Longrightarrow> cstate.more s' = cstate.more s"
  unfolding BroadcastNoSelf_def by (erule foldR_more) (auto split: if_splits dest: Send_more)

lemma Broadcast_more: "Broadcast os t msg s = Inr s' \<Longrightarrow> cstate.more s' = cstate.more s"
  unfolding Broadcast_def by (erule foldR_more) (auto dest: Send_more)

lemmas send_chat = world_more(1) [OF Send_more] world_more(1) [OF Shutdown_more]
  world_more(1) [OF BroadcastNoSelf_more] world_more(1) [OF Broadcast_more]

lemma retrieve_input_more:
  "retrieve_input c s = Inr (str, s') \<Longrightarrow> cstate.more s' = cstate.more s"
  by (auto simp: retrieve_input_def bind_res_Inr)

lemma retrieve_chat: "retrieve_input c s = Inr (str, s') \<Longrightarrow> chat s' = chat s"
  by (rule world_more(1) [OF retrieve_input_more])

subsection \<open>The maps\<close>

lemma UserLogin_cases:
  assumes "UserLogin os t c name s = Inr s'"
  shows "if map_of (name_conn_map (chat s)) name = None
    then chat s' = (chat s)\<lparr>conn_name_map := AList.update c name (conn_name_map (chat s)),
                          name_conn_map := AList.update name c (name_conn_map (chat s))\<rparr>
    else chat s' = chat s"
proof -
  obtain s1 where s1: "Send os t c (all_user_name name s) s = Inr s1"
    and rest: "(if IsNewName name s1 then
         bind_res (BroadcastNoSelf os t c (char23 # c_str name) s1) (\<lambda>s.
           Inr (upd_chat (\<lambda>r. r\<lparr>conn_name_map := AList.update c name (conn_name_map r),
                               name_conn_map := AList.update name c (name_conn_map r)\<rparr>) s))
       else Shutdown os t c s1) = Inr s'"
    using assms unfolding UserLogin_def bind_res_Inr by blast
  have "chat s1 = chat s" by (rule send_chat(1) [OF s1])
  with rest show ?thesis
    by (auto simp: IsNewName_def bind_res_Inr dest: send_chat split: if_splits)
qed

lemma UserExit_cases:
  assumes "UserExit os t c s = Inr s'"
  shows "chat s' =
    (if name_of c (chat s) \<noteq> []
     then (chat s)\<lparr>name_conn_map := AList.delete (name_of c (chat s)) (name_conn_map (chat s)),
                 conn_name_map := AList.delete c (conn_name_map (chat s))\<rparr>
     else (touched c (chat s))\<lparr>conn_name_map := AList.delete c (conn_name_map (touched c (chat s)))\<rparr>)"
proof (cases "name_of c (chat s) = []")
  case False
  then have "touched c (chat s) = chat s"
    by (auto simp: touched_def name_of_def split: option.splits)
  with False assms show ?thesis
    by (auto simp: UserExit_def index_conn_name_touched Let_def bind_res_Inr dest!: send_chat)
qed (use assms in \<open>auto simp: UserExit_def index_conn_name_touched Let_def\<close>)

lemma name_of_registered:
  "name_of c r \<noteq> [] \<Longrightarrow> map_of (conn_name_map r) c = Some (name_of c r)"
  by (auto simp: name_of_def split: option.splits)

lemma name_of_blank:
  "name_of c r = [] \<Longrightarrow> map_of (conn_name_map r) c = None \<or> map_of (conn_name_map r) c = Some []"
  by (auto simp: name_of_def split: option.splits)

lemma UserLogin_chat_ok:
  assumes "UserLogin os t c name s = Inr s'" "chat_ok (chat s)" "name_of c (chat s) = []"
    and "name \<noteq> []" "CHR 0x00 \<notin> set name"
  shows "chat_ok (chat s')"
  using UserLogin_cases [OF assms(1)] assms(2) chat_ok_link [OF assms(2) _ assms(4,5) name_of_blank [OF assms(3)]]
  by (auto split: if_splits)

lemma UserExit_chat_ok:
  assumes "UserExit os t c s = Inr s'" "chat_ok (chat s)"
  shows "chat_ok (chat s')"
proof (cases "name_of c (chat s) = []")
  case True
  have ok: "chat_ok (touched c (chat s))" by (rule chat_ok_touched [OF assms(2)])
  from True name_of_blank [of c "touched c (chat s)"] UserExit_cases [OF assms(1)] chat_ok_forget [OF ok]
  show ?thesis by simp
next
  case False
  with UserExit_cases [OF assms(1)] chat_ok_unlink [OF assms(2) name_of_registered [OF False] False]
  show ?thesis by simp
qed

lemma SendPrivateMsg_chat:
  assumes "SendPrivateMsg os t c s = Inr s'"
  shows "chat s' = chat s \<or> chat s' = touched c (chat s)"
  using assms
  by (auto simp: SendPrivateMsg_def bind_res_Inr index_conn_name_touched Let_def
      split: option.splits if_splits dest!: retrieve_chat send_chat)

lemma SendGroupMsg_chat:
  assumes "SendGroupMsg os t c s = Inr s'"
  shows "chat s' = touched c (chat s)"
  using assms
  by (auto simp: SendGroupMsg_def bind_res_Inr index_conn_name_touched Let_def
      split: if_splits dest!: retrieve_chat send_chat)

lemma ReadCb_cases:
  assumes "ReadCb os t c now s = Inr s'"
  obtains (login) name s1 where "name_of c (chat s) = []"
      "retrieve_input c (upd_chat (touched c) s) = Inr (name, s1)"
      "UserLogin os t c (c_str name) s1 = Inr s'"
  | (to_one) "name_of c (chat s) \<noteq> []" "SendPrivateMsg os t c (upd_chat (touched c) s) = Inr s'"
  | (to_all) "name_of c (chat s) \<noteq> []" "SendGroupMsg os t c (upd_chat (touched c) s) = Inr s'"
  | (other) "name_of c (chat s) \<noteq> []" "s' = upd_chat (touched c) s"
  using assms
  by (auto simp: ReadCb_def IsNewClient_def index_conn_name_touched Let_def bind_res_Inr split: if_splits)

lemma touched_registered: "name_of c r \<noteq> [] \<Longrightarrow> touched c r = r"
  by (auto simp: touched_def name_of_def split: option.splits)

text \<open>The name a new client's first message gives.\<close>

definition offered_name :: "conn \<Rightarrow> ('k, 'z) cstate_scheme \<Rightarrow> string" where
  "offered_name c s =
     (case RetriveAllAsString (tc_input (conns s c)) of Inl e \<Rightarrow> [] | Inr (str, b) \<Rightarrow> c_str str)"

lemma retrieve_offered: "retrieve_input c s = Inr (str, s') \<Longrightarrow> c_str str = offered_name c s"
  by (auto simp: retrieve_input_def offered_name_def bind_res_Inr)

lemma ReadCb_chat_ok:
  assumes run: "ReadCb os t c now s = Inr s'" and ok: "chat_ok (chat s)"
    and named: "name_of c (chat s) = [] \<longrightarrow> offered_name c s \<noteq> []"
  shows "chat_ok (chat s')"
  using run
proof (cases rule: ReadCb_cases)
  case (login name s1)
  have s1: "chat s1 = touched c (chat s)" using retrieve_chat [OF login(2)] by simp
  have "c_str name = offered_name c s"
    using retrieve_offered [OF login(2)] by (simp add: offered_name_def)
  with named login(1) have "c_str name \<noteq> []" by simp
  then show ?thesis
    using UserLogin_chat_ok [OF login(3)] s1 login(1) chat_ok_touched [OF ok] c_str_no_nul
    by simp
next
  case to_one
  with SendPrivateMsg_chat [OF to_one(2)] ok show ?thesis by (auto simp: touched_registered)
next
  case to_all
  with SendGroupMsg_chat [OF to_all(2)] ok show ?thesis by (simp add: touched_registered)
next
  case other
  with ok show ?thesis by (simp add: touched_registered)
qed

subsection \<open>A chat room to try things on\<close>

text \<open>The two connections of \<open>demo_cstate\<close>, with a server around them and a given room.\<close>

definition demo_world :: "nat \<Rightarrow> chat_room \<Rightarrow> demo world" where
  "demo_world cap room =
     (let s = demo_cstate cap in
      \<lparr>kern = kern s, chans = chans s, pollers = pollers s, evloops = evloops s,
       thread_loop = thread_loop s, fresh_loop = fresh_loop s, fresh_chan = fresh_chan s,
       fresh_tid = fresh_tid s, conns = conns s,
       server = \<lparr>sv_loop = 9, sv_ip_port = ''127.0.0.1:12345'', sv_name = ''server#0'',
         sv_connection_cb = Some FnOnConnection, sv_message_cb = Some FnReadCb,
         sv_write_complete_cb = None, sv_started = 1, sv_next_connection_id = 3,
         sv_connections = [(''a'', 2), (''b'', 3)]\<rparr>,
       the_acceptor = \<lparr>ac_loop = 9, ac_fd = 4, ac_channel = 1, ac_new_cb = Some FnNewConnection,
         ac_listenning = True\<rparr>,
       pool = \<lparr>tp_base_loop = 9, tp_name = ''server#0'', tp_started = True, tp_num_threads = 1,
         tp_next = 0, tp_threads = [''server#00''], tp_loops = [0]\<rparr>,
       fresh_conn = 4, chat = room\<rparr>)"

lemma demo_world_simps [simp]:
  "kern (demo_world cap r) = kern (demo_cstate cap)" "chans (demo_world cap r) = chans (demo_cstate cap)"
  "pollers (demo_world cap r) = pollers (demo_cstate cap)"
  "evloops (demo_world cap r) = evloops (demo_cstate cap)"
  "conns (demo_world cap r) = conns (demo_cstate cap)" "chat (demo_world cap r) = r"
  by (simp_all add: demo_world_def Let_def)

definition demo_room :: chat_room where
  "demo_room = \<lparr>name_conn_map = [(''bob'', 3)], conn_name_map = [(3, ''bob'')]\<rparr>"

definition demo_full_room :: chat_room where
  "demo_full_room = \<lparr>name_conn_map = [(''bob'', 3), (''ann'', 2)],
                     conn_name_map = [(3, ''bob''), (2, ''ann'')]\<rparr>"

lemma demo_room_ok: "chat_ok demo_room" "chat_ok demo_full_room"
  by (auto simp: chat_ok_def demo_room_def demo_full_room_def mutual_def split: if_splits)

lemma demo_mail_ok: "mail_ok dk_interest {2, 3} (demo_world cap r)"
proof -
  have "net_ok dk_interest (demo_world cap r)"
    by (rule net_ok_cong [OF demo_net_ok [of cap]]) simp_all
  moreover have "conn_ready 2 (demo_world cap r)" "conn_ready 3 (demo_world cap r)"
    using demo_conn_ready [of cap] by (simp_all add: conn_ready_def)
  ultimately show ?thesis by (auto simp: mail_ok_def) (simp_all add: demo_cstate_def demo_conn_def)
qed

text \<open>Sockets that take a hundred bytes a call: every short message goes out at once.\<close>

definition demo_sent :: "fd \<Rightarrow> string \<Rightarrow> demo \<Rightarrow> demo" where
  "demo_sent fd msg k = k\<lparr>dk_wire := (dk_wire k)(fd := dk_wire k fd @ msg)\<rparr>"

lemma demo_thread [simp]: "el_thread_id (evloops (demo_cstate cap) l) = 1"
  by (simp add: demo_cstate_def)

lemma demo_Send_input:
  assumes "dk_cap (kern s) = 100" "length msg \<le> 100" "d = 2 \<or> d = 3"
    and "conns s d = (conns (demo_cstate 100) d)\<lparr>tc_input := b\<rparr>" "chans s d = chans (demo_cstate 100) d"
    and "el_thread_id (evloops s 0) = 1"
  shows "Send demo_os 1 d msg s = Inr (s\<lparr>kern := demo_sent (if d = 2 then 7 else 8) msg (kern s)\<rparr>)"
proof -
  have "tc_state (conns s d) = kConnected" "IsInLoopThread 1 (tc_loop (conns s d)) s"
    "\<not> IsWriting (conn_channel s d)" "ReadeableBytes (tc_output (conns s d)) = 0"
    "ch_fd (conn_channel s d) = (if d = 2 then 7 else 8)" "tc_write_complete_cb (conns s d) = None"
    using assms(3,5,6)
    by (auto simp: assms(4) demo_cstate_def demo_conn_def demo_channel_def Channel_def IsWriting_def
        channel_events Buffer_sizes IsInLoopThread_def)
  with assms(1,2) show ?thesis
    by (simp add: Send_def SendInLoop_def send_direct_def demo_write_def demo_sent_def
        queue_write_complete_def Let_def)
qed

lemma demo_Send_any:
  assumes "dk_cap (kern s) = 100" "length msg \<le> 100" "d = 2 \<or> d = 3"
    and "conns s d = conns (demo_cstate 100) d" "chans s d = chans (demo_cstate 100) d"
    and "el_thread_id (evloops s 0) = 1"
  shows "Send demo_os 1 d msg s = Inr (s\<lparr>kern := demo_sent (if d = 2 then 7 else 8) msg (kern s)\<rparr>)"
  using assms demo_Send_input [of s msg d "tc_input (conns s d)"] by simp

lemma demo_Send:
  assumes "dk_cap k = 100" "length msg \<le> 100" "d = 2 \<or> d = 3"
  shows "Send demo_os 1 d msg ((demo_world 100 r)\<lparr>kern := k\<rparr>) =
     Inr ((demo_world 100 r)\<lparr>kern := demo_sent (if d = 2 then 7 else 8) msg k\<rparr>)"
  using assms by (subst demo_Send_any) simp_all

lemma demo_sent_cap [simp]: "dk_cap (demo_sent fd msg k) = dk_cap k"
  by (simp add: demo_sent_def)

lemma demo_world_kern: "demo_world cap r = (demo_world cap r)\<lparr>kern := kern (demo_cstate cap)\<rparr>"
  by (simp add: demo_world_def Let_def)

lemma demo_upd_chat: "upd_chat f ((demo_world cap r)\<lparr>kern := k\<rparr>) = (demo_world cap (f r))\<lparr>kern := k\<rparr>"
  by (simp add: demo_world_def upd_chat_def Let_def)

lemma demo_login:
  "\<exists>s'. UserLogin demo_os 1 2 ''ann'' (demo_world 100 demo_room) = Inr s' \<and> chat s' = demo_full_room \<and>
     dk_wire (kern s') 7 = ''bob+ann+'' \<and> dk_wire (kern s') 8 = char23 # ''ann''"
  by (subst demo_world_kern)
     (simp add: UserLogin_def all_user_name_def demo_room_def demo_full_room_def c_str_def demo_Send
      IsNewName_def BroadcastNoSelf_def demo_upd_chat, simp add: demo_sent_def)

subsection \<open>Login and exit\<close>

lemma ShutdownInLoop_conns [simp]: "conns (ShutdownInLoop os c s) = conns s"
  by (simp add: ShutdownInLoop_def)

lemma Shutdown_state: "Shutdown os t c s = Inr s' \<Longrightarrow> tc_state (conns s' c) \<noteq> kConnected"
  by (auto simp: Shutdown_def RunInLoop_def set_state_def split: if_splits)

text \<open>The login of a connection without a name, with a non-empty name: a free name is entered in
  both maps and everything else stays; with a name that is taken the maps do not change and
  the connection is not connected any more. Either way the room is consistent afterwards.\<close>

theorem UserLogin_maps:
  assumes run: "UserLogin os t c name s = Inr s'" and ok: "chat_ok (chat s)"
    and new: "name_of c (chat s) = []" and name: "name \<noteq> []" "CHR 0x00 \<notin> set name"
  shows "chat_ok (chat s') \<and>
    (if map_of (name_conn_map (chat s)) name = None
     then map_of (name_conn_map (chat s')) = (map_of (name_conn_map (chat s)))(name \<mapsto> c) \<and>
          map_of (conn_name_map (chat s')) = (map_of (conn_name_map (chat s)))(c \<mapsto> name)
     else chat s' = chat s \<and> tc_state (conns s' c) \<noteq> kConnected)"
proof -
  have "tc_state (conns s' c) \<noteq> kConnected" if taken: "map_of (name_conn_map (chat s)) name \<noteq> None"
  proof -
    obtain s1 where s1: "Send os t c (all_user_name name s) s = Inr s1"
      and rest: "(if IsNewName name s1 then
         bind_res (BroadcastNoSelf os t c (char23 # c_str name) s1) (\<lambda>s.
           Inr (upd_chat (\<lambda>r. r\<lparr>conn_name_map := AList.update c name (conn_name_map r),
                               name_conn_map := AList.update name c (name_conn_map r)\<rparr>) s))
       else Shutdown os t c s1) = Inr s'"
      using run unfolding UserLogin_def bind_res_Inr by blast
    have "\<not> IsNewName name s1" using taken by (simp add: IsNewName_def send_chat(1) [OF s1])
    with rest show ?thesis using Shutdown_state by simp
  qed
  with UserLogin_cases [OF run] UserLogin_chat_ok [OF run ok new name] show ?thesis
    by (auto simp: update_conv')
qed

theorem UserLogin_maps_witness:
  "\<exists>s'. UserLogin demo_os 1 2 ''ann'' (demo_world 100 demo_room) = Inr s' \<and> chat_ok (chat s') \<and>
        map_of (name_conn_map (chat s')) ''ann'' = Some 2 \<and>
        map_of (conn_name_map (chat s')) 2 = Some ''ann''"
proof -
  obtain s' where run: "UserLogin demo_os 1 2 ''ann'' (demo_world 100 demo_room) = Inr s'"
    using demo_login by blast
  have new: "name_of 2 (chat (demo_world 100 demo_room)) = []"
    "map_of (name_conn_map (chat (demo_world 100 demo_room))) ''ann'' = None"
    by (simp_all add: name_of_def demo_room_def)
  show ?thesis using UserLogin_maps [OF run _ new(1)] run new(2) demo_room_ok by simp
qed

text \<open>The exit of a connection erases it from both maps: its name, if it had one, is free again, no
  other entry changes, and the room stays consistent.\<close>

theorem UserExit_maps:
  assumes run: "UserExit os t c s = Inr s'" and ok: "chat_ok (chat s)"
  shows "chat_ok (chat s') \<and>
    map_of (conn_name_map (chat s')) = (map_of (conn_name_map (chat s)))(c := None) \<and>
    (\<forall>n. map_of (name_conn_map (chat s')) n =
       (if map_of (name_conn_map (chat s)) n = Some c then None else map_of (name_conn_map (chat s)) n))"
proof -
  have mut: "mutual [] (map_of (name_conn_map (chat s))) (map_of (conn_name_map (chat s)))"
    using ok by (simp add: chat_ok_def)
  have maps: "map_of (conn_name_map (chat s')) = (map_of (conn_name_map (chat s)))(c := None)"
    using UserExit_cases [OF run] by (auto simp: touched_def delete_conv' update_conv')
  have owner: "map_of (name_conn_map (chat s)) n = Some c \<longleftrightarrow> n = name_of c (chat s) \<and> n \<noteq> []" for n
  proof
    assume "map_of (name_conn_map (chat s)) n = Some c"
    with mutualD(1,2) [OF mut this] show "n = name_of c (chat s) \<and> n \<noteq> []"
      by (simp add: name_of_def)
  next
    assume "n = name_of c (chat s) \<and> n \<noteq> []"
    with name_of_registered [of c "chat s"] show "map_of (name_conn_map (chat s)) n = Some c"
      by (intro mutualD(3) [OF mut]) auto
  qed
  have "map_of (name_conn_map (chat s')) n =
      (if map_of (name_conn_map (chat s)) n = Some c then None else map_of (name_conn_map (chat s)) n)" for n
    unfolding owner using UserExit_cases [OF run] by (auto simp: delete_conv')
  with maps UserExit_chat_ok [OF run ok] show ?thesis by blast
qed

lemma demo_exit:
  "\<exists>s'. UserExit demo_os 1 2 (demo_world 100 demo_full_room) = Inr s' \<and>
     dk_wire (kern s') 8 = char22 # ''ann''"
  by (subst demo_world_kern)
     (simp add: UserExit_def demo_full_room_def c_str_def demo_Send index_conn_name_touched Let_def
      name_of_def touched_def BroadcastNoSelf_def demo_upd_chat, simp add: demo_sent_def)

theorem UserExit_maps_witness:
  "\<exists>s'. UserExit demo_os 1 2 (demo_world 100 demo_full_room) = Inr s' \<and> chat_ok (chat s') \<and>
        map_of (name_conn_map (chat s')) ''ann'' = None \<and>
        map_of (name_conn_map (chat s')) ''bob'' = Some 3"
proof -
  obtain s' where run: "UserExit demo_os 1 2 (demo_world 100 demo_full_room) = Inr s'"
    using demo_exit by blast
  with UserExit_maps [OF run] demo_room_ok(2) show ?thesis by (simp add: demo_full_room_def)
qed

text \<open>C9. Every event of a connection keeps the room consistent: it going up or down, with a name or
  without one, and any message, a login, a private or a group message or bytes that are none of
  these, unless it is the first message of a client and gives the empty name.\<close>

theorem handlers_keep_chat_ok:
  assumes "chat_ok (chat s)"
    and "OnConnection os t c s = Inr s' \<or>
      ReadCb os t c now s = Inr s' \<and> (name_of c (chat s) \<noteq> [] \<or> offered_name c s \<noteq> [])"
  shows "chat_ok (chat s')"
  using assms ReadCb_chat_ok [of os t c now s s'] UserExit_chat_ok [of os t c s s']
  by (auto simp: OnConnection_def split: if_splits)

definition demo_down :: "demo world" where
  "demo_down = upd_conn 2 (\<lambda>tc. tc\<lparr>tc_state := kDisconnected\<rparr>) (demo_world 100 demo_full_room)"

lemma demo_down_simps [simp]:
  "chat demo_down = demo_full_room" "conns demo_down 3 = conns (demo_cstate 100) 3"
  "kern demo_down = kern (demo_cstate 100)" "chans demo_down = chans (demo_cstate 100)"
  "evloops demo_down = evloops (demo_cstate 100)" "tc_state (conns demo_down 2) = kDisconnected"
  by (simp_all add: demo_down_def) (simp add: demo_world_def upd_conn_def Let_def)

theorem handlers_keep_chat_ok_witness:
  "\<exists>s'. OnConnection demo_os 1 2 demo_down = Inr s' \<and> chat_ok (chat s')"
proof -
  obtain s' where run: "OnConnection demo_os 1 2 demo_down = Inr s'"
    by (simp add: OnConnection_def IsConnected_def UserExit_def index_conn_name_touched Let_def
        BroadcastNoSelf_def demo_full_room_def touched_def name_of_def c_str_def demo_Send_any)
  with handlers_keep_chat_ok [of demo_down demo_os 1 2 s'] demo_room_ok(2) show ?thesis by simp
qed




subsection \<open>Who receives what\<close>

lemma upd_chat_mail [simp]:
  "stream wire d (upd_chat f s) = stream wire d s" "waiting d (upd_chat f s) = waiting d s"
  by (simp_all add: stream_def waiting_def)

lemma posted_upd_chat [simp]:
  "posted os wire t msg d s (upd_chat f s') = posted os wire t msg d s s'"
  "posted os wire t msg d (upd_chat f s) s' = posted os wire t msg d s s'"
  "untouched wire d s (upd_chat f s') = untouched wire d s s'"
  "untouched wire d (upd_chat f s) s' = untouched wire d s s'"
  "overflows t msg d (upd_chat f s) = overflows t msg d s"
  by (simp_all add: posted_def untouched_def lost_def overflows_def chokes_def IsInLoopThread_def)

lemma input_mail:
  fixes s :: "('k, 'z) cstate_scheme" and c :: conn and b :: buffer
  assumes "mail_ok interest D s"
  defines "s1 \<equiv> upd_conn c (\<lambda>tc. tc\<lparr>tc_input := b\<rparr>) s"
  shows "mail_ok interest D s1" "same_status s s1" "untouched wire d s s1"
proof -
  have same: "tc_output (conns s1 e) = tc_output (conns s e)" "tc_fd (conns s1 e) = tc_fd (conns s e)"
    "tc_channel (conns s1 e) = tc_channel (conns s e)" "tc_loop (conns s1 e) = tc_loop (conns s e)" for e
    by (simp_all add: s1_def)
  have low: "kern s1 = kern s" "chans s1 = chans s" "pollers s1 = pollers s" "evloops s1 = evloops s"
    by (simp_all add: s1_def)
  have net: "net_ok interest s" using assms(1) by (simp add: mail_ok_def)
  have "net_ok interest s1" by (rule net_ok_cong [OF net]) (simp_all add: low)
  then show "mail_ok interest D s1"
    using assms(1) by (simp add: mail_ok_def conn_ready_def same low)
  show "same_status s s1" by (simp add: same_status_def s1_def)
  show "untouched wire d s s1" by (simp add: untouched_def stream_def waiting_def same low)
qed

lemma first_byte: "buffer_inv b \<Longrightarrow> buffer_content b = x # xs \<Longrightarrow> first_byte_is ch b = Inr (x = ch)"
  using take_Peek [of b] by (cases "Peek b") (auto simp: first_byte_is_def take_Cons' split: if_splits)

lemma scan_dest_found:
  "char20 \<notin> set dest \<Longrightarrow>
     scan_dest (pre @ dest @ char20 # body) (length pre) acc = Inr (acc @ dest, length pre + length dest)"
proof (induction dest arbitrary: pre acc)
  case Nil
  then show ?case by (subst scan_dest.simps) simp
next
  case (Cons x dest)
  then show ?case
    using Cons.IH [of "pre @ [x]" "acc @ [x]"] by (subst scan_dest.simps) auto
qed

lemma scan_dest_missing:
  "char20 \<notin> set (drop i str) \<Longrightarrow> scan_dest str i acc = Inl HeapOverread"
proof (induction str i acc rule: scan_dest.induct)
  case (1 str i acc)
  have nul: "CHR 0x00 \<noteq> char20" by (simp add: char20_def)
  have "char20 \<notin> set (drop (i + 1) str)"
    using 1(2) set_drop_subset_set_drop [of i "i + 1" str] by auto
  moreover have "str ! i \<noteq> char20" if "i < length str"
    using 1(2) that by (metis Cons_nth_drop_Suc list.set_intros(1))
  ultimately show ?case
    using 1(1) nul by (subst scan_dest.simps) (auto simp: not_less le_less)
qed

lemma registered_upd_chat: "name_of c (chat s) \<noteq> [] \<Longrightarrow> upd_chat (touched c) s = s"
  by (cases s) (simp add: upd_chat_def touched_registered)

lemma retrieve_input_whole:
  "buffer_inv (tc_input (conns s c)) \<Longrightarrow> reader_index (tc_input (conns s c)) = kCheapPrepend \<Longrightarrow>
   retrieve_input c s = Inr (buffer_content (tc_input (conns s c)),
     upd_conn c (\<lambda>tc. tc\<lparr>tc_input := RetriveAll (tc_input (conns s c))\<rparr>) s)"
  by (simp add: retrieve_input_def RetriveAllAsString_whole)

lemma upd_conn_chat [simp]: "chat (upd_conn c f s) = chat s"
  by (simp add: upd_conn_def)

lemma chat_ok_source:
  assumes "chat_ok r" "name_of c r \<noteq> []"
  shows "c_str (name_of c r) = name_of c r" "map_of (name_conn_map r) (name_of c r) = Some c"
proof -
  have "mutual [] (map_of (name_conn_map r)) (map_of (conn_name_map r))"
    using assms(1) by (simp add: chat_ok_def)
  then show m: "map_of (name_conn_map r) (name_of c r) = Some c"
    using mutualD(3) name_of_registered [OF assms(2)] assms(2) by metis
  then show "c_str (name_of c r) = name_of c r"
    using assms(1) by (intro c_str_clean) (auto simp: chat_ok_def)
qed

lemma chat_ok_recipients: "chat_ok r \<Longrightarrow> distinct (map snd (name_conn_map r))"
proof -
  assume ok: "chat_ok r"
  then have mut: "mutual [] (map_of (name_conn_map r)) (map_of (conn_name_map r))"
    and keys: "distinct (map fst (name_conn_map r))" by (simp_all add: chat_ok_def)
  have "inj_on snd (set (name_conn_map r))"
  proof (rule inj_onI)
    fix x y assume "x \<in> set (name_conn_map r)" "y \<in> set (name_conn_map r)" "snd x = snd y"
    with keys mutualD(1) [OF mut] show "x = y"
      by (metis map_of_eq_Some_iff option.inject prod.collapse)
  qed
  with keys show ?thesis by (simp add: distinct_map)
qed

lemma Broadcast_sends:
  "Broadcast os t msg s = foldR (\<lambda>d. Send os t d msg) (map snd (name_conn_map (chat s))) s"
proof -
  have "foldR (\<lambda>(name, d) s. Send os t d msg s) m s = foldR (\<lambda>d. Send os t d msg) (map snd m) s" for m
    by (induction m arbitrary: s) (auto simp: bind_res_def split: sum.split)
  then show ?thesis by (simp add: Broadcast_def)
qed

lemma BroadcastNoSelf_sends:
  "BroadcastNoSelf os t c msg s =
     foldR (\<lambda>d. Send os t d msg) (filter (\<lambda>d. d \<noteq> c) (map snd (name_conn_map (chat s)))) s"
proof -
  have "foldR (\<lambda>(name, d) s. if d \<noteq> c then Send os t d msg s else Inr s) m s =
      foldR (\<lambda>d. Send os t d msg) (filter (\<lambda>d. d \<noteq> c) (map snd m)) s" for m
    by (induction m arbitrary: s) (auto simp: bind_res_def split: sum.split)
  then show ?thesis by (simp add: BroadcastNoSelf_def)
qed

text \<open>The chat room in service: consistent, its users and client \<open>c\<close> among connections \<open>D\<close>.\<close>

definition room_ok ::
  "'k os \<Rightarrow> ('k \<Rightarrow> fd \<Rightarrow> string) \<Rightarrow> 'k interest \<Rightarrow> conn set \<Rightarrow> conn \<Rightarrow> ('k, 'z) world_scheme \<Rightarrow> bool" where
  "room_ok os wire interest D c s \<longleftrightarrow>
     kernel_laws os wire interest \<and> chat_ok (chat s) \<and> mail_ok interest D s \<and>
     snd ` set (name_conn_map (chat s)) \<subseteq> D \<and> c \<in> D"

definition input_whole :: "conn \<Rightarrow> ('k, 'z) cstate_scheme \<Rightarrow> string \<Rightarrow> bool" where
  "input_whole c s str \<longleftrightarrow>
     buffer_inv (tc_input (conns s c)) \<and> reader_index (tc_input (conns s c)) = kCheapPrepend \<and>
     buffer_content (tc_input (conns s c)) = str"

lemma room_okD:
  assumes "room_ok os wire interest D c s"
  shows "kernel_laws os wire interest" "chat_ok (chat s)" "mail_ok interest D s"
    "snd ` set (name_conn_map (chat s)) \<subseteq> D" "c \<in> D"
  using assms by (simp_all add: room_ok_def)

lemma ReadCb_private:
  assumes "name_of c (chat s) \<noteq> []" "input_whole c s (char20 # rest)"
  shows "ReadCb os t c now s = SendPrivateMsg os t c s"
  using assms first_byte [of "tc_input (conns s c)" char20 rest char20]
  by (simp add: ReadCb_def IsNewClient_def index_conn_name_touched registered_upd_chat IsPrivateChat_def
      input_whole_def)

text \<open>
  The input after \<open>substr(0, find('\0'))\<close> is a mark, the addressee, the mark again and the text.
\<close>

definition private_input :: "conn \<Rightarrow> ('k, 'z) cstate_scheme \<Rightarrow> string \<Rightarrow> string \<Rightarrow> bool" where
  "private_input c s dest body \<longleftrightarrow>
     (\<exists>whole. input_whole c s whole \<and> c_str whole = char20 # dest @ char20 # body) \<and> char20 \<notin> set dest"

lemma SendPrivateMsg_run:
  assumes reg: "name_of c (chat s) \<noteq> []" and ok: "chat_ok (chat s)"
    and inp: "private_input c s dest body"
  defines "s1 \<equiv> upd_conn c (\<lambda>tc. tc\<lparr>tc_input := RetriveAll (tc_input (conns s c))\<rparr>) s"
  shows "ReadCb os t c now s =
    (case map_of (name_conn_map (chat s)) dest of
       None \<Rightarrow> Inr s1
     | Some d \<Rightarrow> Send os t d (char20 # name_of c (chat s) @ char20 # body) s1)"
proof -
  obtain whole where whole: "input_whole c s whole" "c_str whole = char20 # dest @ char20 # body"
    and sep: "char20 \<notin> set dest" using inp by (auto simp: private_input_def)
  then obtain rest where "whole = char20 # rest" by (cases whole) (auto simp: c_str_def split: if_splits)
  then have cb: "ReadCb os t c now s = SendPrivateMsg os t c s"
    using ReadCb_private [OF reg] whole(1) by simp
  have get: "retrieve_input c s = Inr (whole, s1)"
    using whole(1) retrieve_input_whole [of s c] by (simp add: input_whole_def s1_def)
  have scan: "scan_dest (char20 # dest @ char20 # body) (Suc 0) [] = Inr (dest, Suc (length dest))"
    using scan_dest_found [OF sep, of "[char20]" body "[]"] by simp
  have "CHR 0x00 \<notin> set (c_str whole)" by (rule c_str_no_nul)
  then have dest: "c_str dest = dest" by (intro c_str_clean) (simp add: whole(2))
  have src: "index_conn_name c s1 = (name_of c (chat s), s1)"
    using reg registered_upd_chat [of c s1] by (simp add: index_conn_name_touched s1_def)
  have chat1: "chat s1 = chat s" by (simp add: s1_def)
  have body: "drop (Suc (Suc (length dest))) (char20 # dest @ char20 # body) = body" by simp
  have known: "Send os t d msg s1 = Inr s2 \<Longrightarrow>
      (if map_of (name_conn_map (chat s2)) (c_str (name_of c (chat s))) = None
       then Inl NullDeref else Inr s2) = Inr s2" for d msg s2
    using chat_ok_source [OF ok reg] send_chat(1) [of os t d msg s1 s2] chat1 by simp
  have "bind_res (Send os t d msg s1) (\<lambda>s2.
      if map_of (name_conn_map (chat s2)) (c_str (name_of c (chat s))) = None
      then Inl NullDeref else Inr s2) = Send os t d msg s1" for d msg
    using known [of d msg] by (cases "Send os t d msg s1") simp_all
  then show ?thesis
    unfolding cb SendPrivateMsg_def
    by (simp add: get whole(2) scan src dest body chat1 chat_ok_source(1) [OF ok reg] Let_def
        split: option.split)
qed

text \<open>A private message on its way: into the addressee's stream or its loop's queue, and nowhere else.\<close>

lemma private_passed_on:
  assumes room: "room_ok os wire interest D c s" and reg: "name_of c (chat s) \<noteq> []"
    and inp: "private_input c s dest body"
  shows "(\<exists>s'. ReadCb os t c now s = Inr s' \<and> chat s' = chat s \<and>
      (\<forall>d \<in> D. if map_of (name_conn_map (chat s)) dest = Some d
        then posted os wire t (char20 # name_of c (chat s) @ char20 # body) d s s'
        else untouched wire d s s')) \<or>
    ReadCb os t c now s = Inl HeapOverrun \<and>
      (\<exists>d. map_of (name_conn_map (chat s)) dest = Some d \<and>
         overflows t (char20 # name_of c (chat s) @ char20 # body) d s)"
proof -
  note r = room_okD [OF room]
  let ?msg = "char20 # name_of c (chat s) @ char20 # body"
  define s1 where "s1 = upd_conn c (\<lambda>tc. tc\<lparr>tc_input := RetriveAll (tc_input (conns s c))\<rparr>) s"
  note run = SendPrivateMsg_run [OF reg r(2) inp, of os t now, folded s1_def]
  have s1: "mail_ok interest D s1" "same_status s s1" "\<And>d. untouched wire d s s1"
    using input_mail [OF r(3)] by (simp_all add: s1_def)
  show ?thesis
  proof (cases "map_of (name_conn_map (chat s)) dest")
    case None
    with run s1 show ?thesis by (simp add: s1_def)
  next
    case (Some d)
    then have d: "d \<in> D" using r(4) by (force dest: map_of_SomeD)
    from Send_mail [OF r(1) s1(1) d, of t ?msg] show ?thesis
    proof (elim disjE exE conjE)
      fix s' assume s': "Send os t d ?msg s1 = Inr s'" "same_status s1 s'" "posted os wire t ?msg d s1 s'"
        "\<forall>e \<in> D. e \<noteq> d \<longrightarrow> untouched wire e s1 s'"
      have "posted os wire t ?msg d s s'" using s'(3) posted_cong [OF s1(2,3)] by simp
      moreover have "untouched wire e s s'" if "e \<in> D" "e \<noteq> d" for e
        using s'(4) that untouched_trans [OF s1(3)] by blast
      moreover have "chat s' = chat s" using send_chat(1) [OF s'(1)] by (simp add: s1_def)
      ultimately show ?thesis using run s'(1) Some by auto
    next
      assume "Send os t d ?msg s1 = Inl HeapOverrun" "overflows t ?msg d s1"
      with run Some overflows_cong [OF s1(2,3)] show ?thesis by simp
    qed
  qed
qed

text \<open>C7. A private message of a registered user, in the agreed format, is sent to the addressee, once and
  with the sender's name in front, and to nobody else; to a name that is not in the room it goes
  nowhere and nothing is reported; the maps do not change. Sent means (\<open>posted\<close>): at the end of the
  addressee's stream when this thread runs its loop, in the queue of its loop otherwise, and not at
  all when it is not connected any more or when the kernel answers the write with \<open>EPIPE\<close> or
  \<open>ECONNRESET\<close>. The one fault is the overrun of the addressee's output buffer, and only at a length that
  the buffer misjudges.\<close>

theorem private_message:
  assumes room: "room_ok os wire interest D c s" and reg: "name_of c (chat s) \<noteq> []"
    and inp: "private_input c s dest body"
  shows "(\<exists>s'. ReadCb os t c now s = Inr s' \<and> chat s' = chat s \<and>
      (\<forall>d \<in> D. if map_of (name_conn_map (chat s)) dest = Some d
        then posted os wire t (char20 # name_of c (chat s) @ char20 # body) d s s'
        else untouched wire d s s')) \<or>
    ReadCb os t c now s = Inl HeapOverrun \<and>
      (\<exists>d. map_of (name_conn_map (chat s)) dest = Some d \<and>
         overflows t (char20 # name_of c (chat s) @ char20 # body) d s)"
  by (rule private_passed_on [OF assms])

text \<open>Ann (connection 2) has sent \<open>str\<close>.\<close>

definition demo_input_buffer :: "string \<Rightarrow> buffer" where
  "demo_input_buffer str =
     \<lparr>buf = replicate 8 (CHR 0x00) @ str, reader_index = 8, writer_index = 8 + length str\<rparr>"

definition demo_talks :: "chat_room \<Rightarrow> string \<Rightarrow> demo world" where
  "demo_talks room str = upd_conn 2 (\<lambda>tc. tc\<lparr>tc_input := demo_input_buffer str\<rparr>) (demo_world 100 room)"

lemma demo_talks_simps [simp]:
  "chat (demo_talks room str) = room" "conns (demo_talks room str) 3 = conns (demo_cstate 100) 3"
  "kern (demo_talks room str) = kern (demo_cstate 100)"
  "chans (demo_talks room str) = chans (demo_cstate 100)"
  "evloops (demo_talks room str) = evloops (demo_cstate 100)"
  by (simp_all add: demo_talks_def)

lemma demo_talks_input: "input_whole 2 (demo_talks room str) str"
  by (simp add: input_whole_def demo_talks_def demo_input_buffer_def buffer_inv_def buffer_content_def
      segment_def kCheapPrepend_def)

lemma demo_room_service: "room_ok demo_os dk_wire dk_interest {2, 3} 2 (demo_talks demo_full_room str)"
  using input_mail(1) [OF demo_mail_ok [of 100 demo_full_room], of 2 "demo_input_buffer str"]
  by (simp add: room_ok_def demo_laws demo_room_ok demo_talks_def)
     (simp add: demo_full_room_def)

lemma demo_ann: "name_of 2 (chat (demo_talks demo_full_room str)) = ''ann''"
  by (simp add: name_of_def demo_full_room_def)

theorem private_message_witness:
  "\<exists>s'. ReadCb demo_os 1 2 0 (demo_talks demo_full_room (char20 # ''bob'' @ char20 # ''hi'')) = Inr s' \<and>
     posted demo_os dk_wire 1 (char20 # ''ann'' @ char20 # ''hi'') 3
       (demo_talks demo_full_room (char20 # ''bob'' @ char20 # ''hi'')) s' \<and>
     untouched dk_wire 2 (demo_talks demo_full_room (char20 # ''bob'' @ char20 # ''hi'')) s'"
proof -
  let ?s = "demo_talks demo_full_room (char20 # ''bob'' @ char20 # ''hi'')"
  have inp: "private_input 2 ?s ''bob'' ''hi''"
    unfolding private_input_def
    by (intro conjI exI, rule demo_talks_input) (simp_all add: c_str_def char20_def)
  have reg: "name_of 2 (chat ?s) \<noteq> []" using demo_ann by simp
  have "map_of (name_conn_map (chat ?s)) ''bob'' = Some 3" "map_of (name_conn_map (chat ?s)) ''bob'' \<noteq> Some 2"
    by (simp_all add: demo_full_room_def)
  moreover have "ReadCb demo_os 1 2 0 ?s \<noteq> Inl HeapOverrun"
    using SendPrivateMsg_run [OF reg _ inp, of demo_os 1 0] demo_room_ok(2)
    by (simp add: demo_Send_any demo_full_room_def name_of_def)
  ultimately show ?thesis
    using private_message [OF demo_room_service reg inp, of 1 0] unfolding demo_ann by force
qed

text \<open>C39. A private message without the second separator reads beyond the end of the string: the loop
  that collects the addressee has no bound.\<close>

theorem private_message_unterminated:
  assumes "name_of c (chat s) \<noteq> []" "input_whole c s (char20 # rest)" "char20 \<notin> set (c_str rest)"
  shows "ReadCb os t c now s = Inl HeapOverread"
proof -
  have "c_str (char20 # rest) = char20 # c_str rest" by (simp add: c_str_def char20_def)
  moreover have "retrieve_input c s = Inr (char20 # rest,
      upd_conn c (\<lambda>tc. tc\<lparr>tc_input := RetriveAll (tc_input (conns s c))\<rparr>) s)"
    using assms(2) retrieve_input_whole [of s c] by (simp add: input_whole_def)
  moreover have "scan_dest (char20 # c_str rest) 1 [] = Inl HeapOverread"
    using assms(3) by (intro scan_dest_missing) simp
  ultimately show ?thesis
    unfolding ReadCb_private [OF assms(1,2)] SendPrivateMsg_def by (simp add: Let_def)
qed

theorem private_message_unterminated_witness:
  "ReadCb demo_os 1 2 0 (demo_talks demo_full_room (char20 # ''bob'')) = Inl HeapOverread"
  by (rule private_message_unterminated [where rest = "''bob''"])
     (simp_all only: demo_ann demo_talks_input, simp_all add: c_str_def char20_def)

lemma group_run:
  assumes ok: "chat_ok (chat s)" and reg: "name_of c (chat s) \<noteq> []"
    and inp: "input_whole c s (char21 # body)"
  shows "ReadCb os t c now s =
     Broadcast os t (char21 # name_of c (chat s) @ char21 # body)
       (upd_conn c (\<lambda>tc. tc\<lparr>tc_input := RetriveAll (tc_input (conns s c))\<rparr>) s)"
proof -
  have "retrieve_input c s = Inr (char21 # body,
      upd_conn c (\<lambda>tc. tc\<lparr>tc_input := RetriveAll (tc_input (conns s c))\<rparr>) s)"
    using inp retrieve_input_whole [of s c] by (simp add: input_whole_def)
  moreover have "first_byte_is char20 (tc_input (conns s c)) = Inr False"
    "first_byte_is char21 (tc_input (conns s c)) = Inr True"
    using inp first_byte [of "tc_input (conns s c)" char21 body] by (auto simp: input_whole_def char20_def char21_def)
  ultimately show ?thesis
    using reg chat_ok_source(1) [OF ok reg]
    by (simp add: ReadCb_def IsNewClient_def index_conn_name_touched registered_upd_chat
        IsPrivateChat_def IsGroupChat_def SendGroupMsg_def)
qed

text \<open>A group message on its way: once to every user, and to nobody else.\<close>

lemma group_passed_on:
  assumes room: "room_ok os wire interest D c s" and reg: "name_of c (chat s) \<noteq> []"
    and inp: "input_whole c s (char21 # body)"
  shows "(\<exists>s'. ReadCb os t c now s = Inr s' \<and> chat s' = chat s \<and>
      (\<forall>d \<in> D. if d \<in> snd ` set (name_conn_map (chat s))
        then posted os wire t (char21 # name_of c (chat s) @ char21 # body) d s s'
        else untouched wire d s s')) \<or>
    ReadCb os t c now s = Inl HeapOverrun \<and>
      (\<exists>d \<in> snd ` set (name_conn_map (chat s)).
         overflows t (char21 # name_of c (chat s) @ char21 # body) d s)"
proof -
  note r = room_okD [OF room]
  let ?msg = "char21 # name_of c (chat s) @ char21 # body"
  define s1 where "s1 = upd_conn c (\<lambda>tc. tc\<lparr>tc_input := RetriveAll (tc_input (conns s c))\<rparr>) s"
  have s1: "mail_ok interest D s1" "same_status s s1" "\<And>d. untouched wire d s s1"
    using input_mail [OF r(3)] by (simp_all add: s1_def)
  have chat1: "chat s1 = chat s" by (simp add: s1_def)
  note run = group_run [OF r(2) reg inp, of os t now, folded s1_def]
  have ds: "set (map snd (name_conn_map (chat s1))) \<subseteq> D" "distinct (map snd (name_conn_map (chat s1)))"
    using r(4) chat_ok_recipients [OF r(2)] by (simp_all add: chat1)
  from Send_all [OF r(1) s1(1) ds, of t ?msg, folded Broadcast_sends] show ?thesis
  proof (elim disjE exE conjE)
    fix s' assume s': "Broadcast os t ?msg s1 = Inr s'" "\<forall>d\<in>D. if d \<in> set (map snd (name_conn_map (chat s1)))
      then posted os wire t ?msg d s1 s' else untouched wire d s1 s'"
    have "if d \<in> snd ` set (name_conn_map (chat s)) then posted os wire t ?msg d s s' else untouched wire d s s'"
      if "d \<in> D" for d
    proof -
      have "if d \<in> snd ` set (name_conn_map (chat s)) then posted os wire t ?msg d s1 s' else untouched wire d s1 s'"
        using s'(2) that by (simp add: chat1)
      with posted_cong [OF s1(2,3)] untouched_trans [OF s1(3)] show ?thesis by (simp split: if_splits)
    qed
    with run s'(1) send_chat(4) [OF s'(1)] chat1 show ?thesis by simp
  next
    assume "Broadcast os t ?msg s1 = Inl HeapOverrun" "\<exists>d \<in> set (map snd (name_conn_map (chat s1))). overflows t ?msg d s1"
    with run overflows_cong [OF s1(2,3)] show ?thesis by (simp add: chat1)
  qed
qed

text \<open>C6. A group message of a registered user is sent to every user in the room, the sender included,
  exactly once, with the sender's name in front, and to no other connection; the maps do not
  change. Sent means (\<open>posted\<close>): at the end of the user's stream when this thread runs its loop, in
  the queue of its loop otherwise, and not at all to a connection that is not connected any more or
  whose write the kernel answers with \<open>EPIPE\<close> or \<open>ECONNRESET\<close>. The one fault is the overrun of a user's
  output buffer, and only at a length that this buffer misjudges.\<close>

theorem group_message:
  assumes room: "room_ok os wire interest D c s" and reg: "name_of c (chat s) \<noteq> []"
    and inp: "input_whole c s (char21 # body)"
  shows "(\<exists>s'. ReadCb os t c now s = Inr s' \<and> chat s' = chat s \<and>
      (\<forall>d \<in> D. if d \<in> snd ` set (name_conn_map (chat s))
        then posted os wire t (char21 # name_of c (chat s) @ char21 # body) d s s'
        else untouched wire d s s')) \<or>
    ReadCb os t c now s = Inl HeapOverrun \<and>
      (\<exists>d \<in> snd ` set (name_conn_map (chat s)).
         overflows t (char21 # name_of c (chat s) @ char21 # body) d s)"
  by (rule group_passed_on [OF assms])

lemma demo_talks_2: "conns (demo_talks room str) 2 = (conns (demo_cstate 100) 2)\<lparr>tc_input := demo_input_buffer str\<rparr>"
  by (simp add: demo_talks_def)

text \<open>The state in which the whole of Ann's input has been taken.\<close>

abbreviation demo_taken :: "demo world \<Rightarrow> demo world" where
  "demo_taken s \<equiv> upd_conn 2 (\<lambda>tc. tc\<lparr>tc_input := RetriveAll (tc_input (conns s 2))\<rparr>) s"

lemma demo_broadcast:
  assumes "length msg \<le> 100"
  shows "\<exists>s'. Broadcast demo_os 1 msg (demo_taken (demo_talks demo_full_room str)) = Inr s'"
  using assms
  by (simp add: Broadcast_sends demo_full_room_def demo_Send_any)
     (simp add: demo_talks_2 demo_Send_input [where b = "RetriveAll (demo_input_buffer str)"])

theorem group_message_witness:
  "\<exists>s'. ReadCb demo_os 1 2 0 (demo_talks demo_full_room (char21 # ''hi'')) = Inr s' \<and>
     posted demo_os dk_wire 1 (char21 # ''ann'' @ char21 # ''hi'') 2 (demo_talks demo_full_room (char21 # ''hi'')) s' \<and>
     posted demo_os dk_wire 1 (char21 # ''ann'' @ char21 # ''hi'') 3 (demo_talks demo_full_room (char21 # ''hi'')) s'"
proof -
  let ?s = "demo_talks demo_full_room (char21 # ''hi'')"
  have reg: "name_of 2 (chat ?s) \<noteq> []" using demo_ann by simp
  have users: "snd ` set (name_conn_map (chat ?s)) = {2, 3}" by (auto simp: demo_full_room_def)
  obtain s' where run: "Broadcast demo_os 1 (char21 # ''ann'' @ char21 # ''hi'') (demo_taken ?s) = Inr s'"
    using demo_broadcast [of "char21 # ''ann'' @ char21 # ''hi''"] by auto
  then have "ReadCb demo_os 1 2 0 ?s = Inr s'"
    using group_run [OF _ reg demo_talks_input, of demo_os 1 0] demo_room_ok(2)
    by (simp add: demo_ann [simplified])
  with group_message [OF demo_room_service reg demo_talks_input, of 1 0]
  show ?thesis unfolding users demo_ann by auto
qed

lemma state_mail:
  fixes s :: "('k, 'z) cstate_scheme" and c :: conn
  assumes "mail_ok interest D s"
  shows "mail_ok interest D (set_state st c s)" "untouched wire d s (set_state st c s)"
proof -
  define s1 where "s1 = set_state st c s"
  have same: "tc_output (conns s1 e) = tc_output (conns s e)" "tc_fd (conns s1 e) = tc_fd (conns s e)"
    "tc_channel (conns s1 e) = tc_channel (conns s e)" "tc_loop (conns s1 e) = tc_loop (conns s e)" for e
    by (simp_all add: s1_def set_state_def)
  have low: "kern s1 = kern s" "chans s1 = chans s" "pollers s1 = pollers s" "evloops s1 = evloops s"
    by (simp_all add: s1_def set_state_def)
  have net: "net_ok interest s" using assms by (simp add: mail_ok_def)
  have "net_ok interest s1" by (rule net_ok_cong [OF net]) (simp_all add: low)
  then show "mail_ok interest D s1" using assms by (simp add: mail_ok_def conn_ready_def same low)
  show "untouched wire d s s1" by (simp add: untouched_def stream_def waiting_def same low)
qed

lemma Shutdown_mail:
  assumes laws: "kernel_laws os wire interest" and ok: "mail_ok interest D s"
  shows "\<exists>s'. Shutdown os t c s = Inr s' \<and> (\<forall>d \<in> D. untouched wire d s s')"
proof -
  let ?s1 = "set_state kDisconnected c s"
  note st = state_mail [OF ok, where st = kDisconnected and c = c]
  have "untouched wire d ?s1 (ShutdownInLoop os c ?s1)" for d
    by (simp add: untouched_def stream_def waiting_def ShutdownInLoop_frame [OF laws])
  then have "untouched wire d s (ShutdownInLoop os c ?s1)" for d by (rule untouched_trans [OF st(2)])
  moreover have "untouched wire d s (QueueInLoop os t l (BindShutdownInLoop c) ?s1)" if "d \<in> D" for d l
    by (rule untouched_trans [OF st(2) QueueInLoop_untouched [OF laws st(1) that]]) simp
  moreover have "untouched wire d s s" for d by (simp add: untouched_def)
  ultimately show ?thesis by (simp add: Shutdown_def RunInLoop_def)
qed

text \<open>The list of the users, for names without NULs.\<close>

lemma all_user_name_clean:
  assumes "chat_ok (chat s)"
  shows "all_user_name name s = concat (map (\<lambda>n. n @ ''+'') (map fst (name_conn_map (chat s)) @ [name]))"
proof -
  have "c_str n = n" if "(n, d) \<in> set (name_conn_map (chat s))" for n d
  proof -
    have "n \<in> dom (map_of (name_conn_map (chat s)))"
      using that by (metis domIff map_of_eq_None_iff fst_conv imageI)
    with assms show ?thesis by (intro c_str_clean) (auto simp: chat_ok_def)
  qed
  then have "concat (map (\<lambda>(n, d). c_str n @ ''+'') (name_conn_map (chat s))) =
      concat (map (\<lambda>n. n @ ''+'') (map fst (name_conn_map (chat s))))"
    by (intro arg_cong [where f = concat]) (auto simp: split_beta)
  then show ?thesis by (simp add: all_user_name_def)
qed

lemma nameless_outside:
  assumes room: "chat_ok r" and new: "name_of c r = []"
  shows "c \<notin> snd ` set (name_conn_map r)"
proof
  assume "c \<in> snd ` set (name_conn_map r)"
  then obtain n where "(n, c) \<in> set (name_conn_map r)" by auto
  with room have "map_of (name_conn_map r) n = Some c"
    and mut: "mutual [] (map_of (name_conn_map r)) (map_of (conn_name_map r))" by (simp_all add: chat_ok_def)
  with mutualD(1,2) [OF mut this(1)] new show False by (simp add: name_of_def)
qed

text \<open>A name that is taken: the newcomer is shut down, and the others learn nothing.\<close>

lemma UserLogin_taken:
  assumes laws: "kernel_laws os wire interest" and one: "Send os t c (all_user_name name s) s = Inr s1" "mail_ok interest D s1"
    and taken: "map_of (name_conn_map (chat s)) name \<noteq> None"
  shows "\<exists>s'. UserLogin os t c name s = Inr s' \<and> (\<forall>d \<in> D. untouched wire d s1 s')"
proof -
  obtain s2 where "Shutdown os t c s1 = Inr s2" "\<forall>d \<in> D. untouched wire d s1 s2"
    using Shutdown_mail [OF laws one(2)] by blast
  then show ?thesis
    using one(1) taken send_chat(1) [OF one(1)] by (auto simp: UserLogin_def IsNewName_def)
qed

text \<open>A free name is announced to all users.\<close>

lemma UserLogin_free:
  assumes room: "room_ok os wire interest D c s" and new: "name_of c (chat s) = []" and name: "CHR 0x00 \<notin> set name"
    and one: "Send os t c (all_user_name name s) s = Inr s1" "mail_ok interest D s1"
    and free: "map_of (name_conn_map (chat s)) name = None"
  shows "(\<exists>s'. UserLogin os t c name s = Inr s' \<and>
       (\<forall>d \<in> D. if d \<in> snd ` set (name_conn_map (chat s)) then posted os wire t (char23 # name) d s1 s' else untouched wire d s1 s')) \<or>
    UserLogin os t c name s = Inl HeapOverrun \<and> (\<exists>d \<in> snd ` set (name_conn_map (chat s)). overflows t (char23 # name) d s1)"
proof -
  note r = room_okD [OF room]
  let ?users = "map snd (name_conn_map (chat s))"
  have "filter (\<lambda>d. d \<noteq> c) ?users = ?users" using nameless_outside [OF r(2) new] by (auto simp: filter_id_conv)
  then have run: "UserLogin os t c name s = bind_res (foldR (\<lambda>d. Send os t d (char23 # name)) ?users s1)
      (\<lambda>s. Inr (upd_chat (\<lambda>r. r\<lparr>conn_name_map := AList.update c name (conn_name_map r),
                           name_conn_map := AList.update name c (name_conn_map r)\<rparr>) s))"
    using one(1) free send_chat(1) [OF one(1)] by (simp add: UserLogin_def IsNewName_def BroadcastNoSelf_sends c_str_clean [OF name])
  have "set ?users \<subseteq> D" "distinct ?users" using r(4) chat_ok_recipients [OF r(2)] by simp_all
  from Send_all [OF r(1) one(2) this, of t "char23 # name"] show ?thesis
    by (elim disjE exE conjE) (simp_all add: run)
qed

text \<open>The answer to a login, and the announcement of a free name.\<close>

lemma UserLogin_told:
  assumes room: "room_ok os wire interest D c s" and new: "name_of c (chat s) = []"
    and name: "CHR 0x00 \<notin> set name"
  shows "(\<exists>s'. UserLogin os t c name s = Inr s' \<and>
      posted os wire t (all_user_name name s) c s s' \<and>
      (\<forall>d \<in> D. d \<noteq> c \<longrightarrow>
        (if map_of (name_conn_map (chat s)) name = None \<and> d \<in> snd ` set (name_conn_map (chat s))
         then posted os wire t (char23 # name) d s s' else untouched wire d s s'))) \<or>
    UserLogin os t c name s = Inl HeapOverrun \<and>
      (overflows t (all_user_name name s) c s \<or>
       (\<exists>d \<in> snd ` set (name_conn_map (chat s)). overflows t (char23 # name) d s))"
proof -
  note r = room_okD [OF room] and out = nameless_outside [OF room_okD(2) [OF room] new]
  from Send_mail [OF r(1,3,5), of t "all_user_name name s"] show ?thesis
  proof (elim disjE exE conjE)
    fix s1 assume s1: "Send os t c (all_user_name name s) s = Inr s1" "mail_ok interest D s1"
      "same_status s s1" "posted os wire t (all_user_name name s) c s s1" "\<forall>d\<in>D. d \<noteq> c \<longrightarrow> untouched wire d s s1"
    have others: "untouched wire d s s1" if "d \<in> snd ` set (name_conn_map (chat s))" for d
      using s1(5) r(4) that out by (metis subsetD)
    show ?thesis
    proof (cases "map_of (name_conn_map (chat s)) name = None")
      case False
      with UserLogin_taken [OF r(1) s1(1,2) False] s1(4,5) r(5) posted_then untouched_trans show ?thesis
        by meson
    next
      case True
      from UserLogin_free [OF room new name s1(1,2) True] show ?thesis
      proof (elim disjE exE conjE)
        fix s2 assume s2: "UserLogin os t c name s = Inr s2"
          "\<forall>d \<in> D. if d \<in> snd ` set (name_conn_map (chat s)) then posted os wire t (char23 # name) d s1 s2 else untouched wire d s1 s2"
        have "posted os wire t (all_user_name name s) c s s2" using s1(4) s2(2) out r(5) posted_then by metis
        moreover have "if d \<in> snd ` set (name_conn_map (chat s)) then posted os wire t (char23 # name) d s s2 else untouched wire d s s2"
          if "d \<in> D" "d \<noteq> c" for d
          using s1(3,5) s2(2) that posted_cong untouched_trans by metis
        ultimately show ?thesis using s2(1) True by simp
      next
        assume "UserLogin os t c name s = Inl HeapOverrun"
          "\<exists>d \<in> snd ` set (name_conn_map (chat s)). overflows t (char23 # name) d s1"
        with overflows_cong [OF s1(3) others] show ?thesis by blast
      qed
    qed
  qed (simp add: UserLogin_def)
qed

text \<open>C25. A login is answered and announced: the client is sent the names of the users in the room, each
  followed by a plus sign, its own added (so that a name that is taken comes twice); with a
  free name every user who was in the room before is sent one announcement; with a name that is
  taken nobody else is sent anything. Sent means (\<open>posted\<close>): at the end of the stream when this thread
  runs the connection's loop, in the queue of its loop otherwise, and not at all when it is not
  connected or the kernel answers the write with \<open>EPIPE\<close> or \<open>ECONNRESET\<close>. The one fault is the overrun
  of the output buffer of one of them, and only at a length that this buffer misjudges.\<close>

theorem UserLogin_announces:
  assumes room: "room_ok os wire interest D c s" and new: "name_of c (chat s) = []"
    and name: "CHR 0x00 \<notin> set name"
  shows "(\<exists>s'. UserLogin os t c name s = Inr s' \<and>
      posted os wire t (concat (map (\<lambda>n. n @ ''+'') (map fst (name_conn_map (chat s)) @ [name]))) c s s' \<and>
      (\<forall>d \<in> D. d \<noteq> c \<longrightarrow>
        (if map_of (name_conn_map (chat s)) name = None \<and> d \<in> snd ` set (name_conn_map (chat s))
         then posted os wire t (char23 # name) d s s' else untouched wire d s s'))) \<or>
    UserLogin os t c name s = Inl HeapOverrun \<and>
      (overflows t (concat (map (\<lambda>n. n @ ''+'') (map fst (name_conn_map (chat s)) @ [name]))) c s \<or>
       (\<exists>d \<in> snd ` set (name_conn_map (chat s)). overflows t (char23 # name) d s))"
  using UserLogin_told [OF assms] unfolding all_user_name_clean [OF room_okD(2) [OF room]] .

theorem UserLogin_announces_witness:
  "\<exists>s'. UserLogin demo_os 1 2 ''ann'' (demo_world 100 demo_room) = Inr s' \<and>
     posted demo_os dk_wire 1 ''bob+ann+'' 2 (demo_world 100 demo_room) s' \<and>
     posted demo_os dk_wire 1 (char23 # ''ann'') 3 (demo_world 100 demo_room) s'"
proof -
  let ?s = "demo_world 100 demo_room"
  have room: "room_ok demo_os dk_wire dk_interest {2, 3} 2 ?s"
    using demo_mail_ok by (simp add: room_ok_def demo_laws demo_room_ok) (simp add: demo_room_def)
  have new: "name_of 2 (chat ?s) = []" by (simp add: name_of_def demo_room_def)
  obtain s' where "UserLogin demo_os 1 2 ''ann'' ?s = Inr s'" using demo_login by blast
  with UserLogin_announces [OF room new, of "''ann''" 1] show ?thesis
    by (auto simp: demo_room_def)
qed

text \<open>The first message of a connection, as its thread gets it: a login with the text up to the first NUL.\<close>

lemma mail_ok_upd_chat:
  assumes "mail_ok interest D s"
  shows "mail_ok interest D (upd_chat f s)"
proof -
  have "net_ok interest (upd_chat f s)"
    by (rule net_ok_cong [of interest s]) (use assms in \<open>simp_all add: mail_ok_def\<close>)
  with assms show ?thesis by (simp add: mail_ok_def conn_ready_def)
qed

lemma ReadCb_login:
  assumes room: "room_ok os wire interest D c s" and new: "name_of c (chat s) = []" and inp: "input_whole c s whole"
  obtains s1 where "ReadCb os t c now s = UserLogin os t c (c_str whole) s1"
    "room_ok os wire interest D c s1" "chat s1 = touched c (chat s)"
    "\<And>msg d s'. posted os wire t msg d s1 s' = posted os wire t msg d s s'"
    "\<And>d s'. untouched wire d s1 s' \<Longrightarrow> untouched wire d s s'"
    "\<And>msg d. overflows t msg d s1 = overflows t msg d s"
proof -
  note r = room_okD [OF room]
  define s0 where "s0 = upd_chat (touched c) s"
  define s1 where "s1 = upd_conn c (\<lambda>tc. tc\<lparr>tc_input := RetriveAll (tc_input (conns s c))\<rparr>) s0"
  have mail: "mail_ok interest D s0" unfolding s0_def by (rule mail_ok_upd_chat [OF r(3)])
  have s1: "mail_ok interest D s1" "same_status s0 s1" "\<And>d. untouched wire d s0 s1"
    using input_mail [OF mail] by (simp_all add: s1_def)
  have chat1: "chat s1 = touched c (chat s)" by (simp add: s1_def s0_def)
  have run: "ReadCb os t c now s = UserLogin os t c (c_str whole) s1"
    using inp new retrieve_input_whole [of s0 c]
    by (simp add: ReadCb_def IsNewClient_def index_conn_name_touched input_whole_def s1_def s0_def)
  have room1: "room_ok os wire interest D c s1"
    using r s1(1) chat_ok_touched [OF r(2)] by (simp add: room_ok_def chat1)
  have post: "posted os wire t msg d s1 s' = posted os wire t msg d s s'" for msg d s'
    using posted_cong [OF s1(2,3)] by (simp add: s0_def)
  have unt: "untouched wire d s s'" if "untouched wire d s1 s'" for d s'
    using untouched_trans [OF s1(3) that] by (simp add: s0_def)
  have over: "overflows t msg d s1 = overflows t msg d s" for msg d
    using overflows_cong [OF s1(2,3)] by (simp add: s0_def)
  show thesis by (rule that [OF run room1 chat1 post unt over])
qed

end
