(* ===== verification/LoginThreads.thy ===== *)
theory LoginThreads
  imports ChatRoom
begin

text \<open>
  Logins and exits in several I/O threads at once (\<open>UserLogin\<close> and \<open>UserExit\<close> of
  \<open>server/example/server.cpp\<close>): the test of the name and the entry into the maps are two accesses to
  the shared room, the first without any lock, the second under \<open>map_mtx\<close>, with the sends in
  between; an exit reads the name, announces it, and erases it. Each connection is handled by one
  thread, so that the program counter is kept per connection; its last handler is its exit.
\<close>

datatype login_pc = LIdle | LStarted string | LFree string | LTaken | LEntered | LExiting | LGone

text \<open>Between two handlers; a connection that was refused may still send.\<close>

definition between :: "login_pc \<Rightarrow> bool" where
  "between pc \<longleftrightarrow> pc \<in> {LIdle, LTaken, LEntered}"

record login_sys =
  lg_room :: chat_room
  lg_pc :: "conn \<Rightarrow> login_pc"

definition initial_login :: "login_sys" where
  "initial_login =
     \<lparr>lg_room = \<lparr>name_conn_map = [], conn_name_map = []\<rparr>, lg_pc = (\<lambda>_. LIdle)\<rparr>"

inductive login_step :: "login_sys \<Rightarrow> login_sys \<Rightarrow> bool" where
  \<comment> \<open>\<open>ReadCb\<close> of a new client: \<open>IsNewClient\<close>, the name, the list of users\<close>
  login_starts: "between (lg_pc s c) \<Longrightarrow> name_of c (lg_room s) = [] \<Longrightarrow>
     login_step s (s\<lparr>lg_room := touched c (lg_room s), lg_pc := (lg_pc s)(c := LStarted n)\<rparr>)"
  \<comment> \<open>\<open>IsNewName\<close>\<close>
| name_is_free: "lg_pc s c = LStarted n \<Longrightarrow> map_of (name_conn_map (lg_room s)) n = None \<Longrightarrow>
     login_step s (s\<lparr>lg_pc := (lg_pc s)(c := LFree n)\<rparr>)"
| name_is_taken: "lg_pc s c = LStarted n \<Longrightarrow> map_of (name_conn_map (lg_room s)) n \<noteq> None \<Longrightarrow>
     login_step s (s\<lparr>lg_pc := (lg_pc s)(c := LTaken)\<rparr>)"
  \<comment> \<open>the two insertions\<close>
| enters: "lg_pc s c = LFree n \<Longrightarrow>
     login_step s (s\<lparr>lg_room := (lg_room s)
         \<lparr>conn_name_map := AList.update c n (conn_name_map (lg_room s)),
          name_conn_map := AList.update n c (name_conn_map (lg_room s))\<rparr>,
       lg_pc := (lg_pc s)(c := LEntered)\<rparr>)"
  \<comment> \<open>\<open>UserExit\<close> of a user with a name, of one without\<close>
| exit_starts: "between (lg_pc s c) \<Longrightarrow> name_of c (lg_room s) \<noteq> [] \<Longrightarrow>
     login_step s (s\<lparr>lg_pc := (lg_pc s)(c := LExiting)\<rparr>)"
| erases: "lg_pc s c = LExiting \<Longrightarrow>
     login_step s (s\<lparr>lg_room := (lg_room s)
         \<lparr>name_conn_map := AList.delete (name_of c (lg_room s)) (name_conn_map (lg_room s)),
          conn_name_map := AList.delete c (conn_name_map (lg_room s))\<rparr>,
       lg_pc := (lg_pc s)(c := LGone)\<rparr>)"
| unnamed_exits: "between (lg_pc s c) \<Longrightarrow> name_of c (lg_room s) = [] \<Longrightarrow>
     login_step s (s\<lparr>lg_room := (lg_room s)
         \<lparr>conn_name_map := AList.delete c (conn_name_map (lg_room s))\<rparr>,
       lg_pc := (lg_pc s)(c := LGone)\<rparr>)"

inductive login_reach :: "login_sys \<Rightarrow> bool" where
  start: "login_reach initial_login"
| step: "login_reach s \<Longrightarrow> login_step s s' \<Longrightarrow> login_reach s'"

text \<open>
  What does hold: every name in the room but the empty one leads to a connection that logged in
  under it and has not left.
\<close>

definition present :: "login_pc \<Rightarrow> bool" where
  "present pc \<longleftrightarrow> pc \<in> {LEntered, LExiting}"

definition owners_inv :: "login_sys \<Rightarrow> bool" where
  "owners_inv s \<longleftrightarrow>
     (\<forall>n c. n \<noteq> [] \<longrightarrow> map_of (name_conn_map (lg_room s)) n = Some c \<longrightarrow>
        present (lg_pc s c) \<and> name_of c (lg_room s) = n)"

lemma name_of_update [simp]:
  "name_of d (r\<lparr>conn_name_map := AList.update c n (conn_name_map r), name_conn_map := m\<rparr>) =
     (if d = c then n else name_of d r)"
  "name_of d (r\<lparr>conn_name_map := AList.delete c (conn_name_map r)\<rparr>) = (if d = c then [] else name_of d r)"
  "name_of d (r\<lparr>name_conn_map := m, conn_name_map := AList.delete c (conn_name_map r)\<rparr>) =
     (if d = c then [] else name_of d r)"
  by (simp_all add: name_of_def update_conv' delete_conv')

lemma owners_inv_step: "login_step s s' \<Longrightarrow> owners_inv s \<Longrightarrow> owners_inv s'"
  by (induction rule: login_step.induct)
     (auto simp: owners_inv_def present_def between_def update_conv' delete_conv' split: if_splits)

lemma login_reach_owners: "login_reach s \<Longrightarrow> owners_inv s"
  by (induction rule: login_reach.induct)
     (auto simp: owners_inv_def initial_login_def dest: owners_inv_step [unfolded owners_inv_def])

lemma login_steps_reach: "login_step\<^sup>*\<^sup>* s s' \<Longrightarrow> login_reach s \<Longrightarrow> login_reach s'"
  by (induction rule: rtranclp_induct) (auto intro: login_reach.step)

text \<open>C33. Whatever the interleaving of logins and exits, a name in the room, unless it is the empty
  one, leads to a connection that logged in under exactly this name and has not left: nobody is
  listed, or written to, after the exit.\<close>

theorem login_owner:
  assumes "login_reach s" "map_of (name_conn_map (lg_room s)) n = Some c" "n \<noteq> []"
  shows "(lg_pc s c = LEntered \<or> lg_pc s c = LExiting) \<and> name_of c (lg_room s) = n"
  using login_reach_owners [OF assms(1)] assms(2,3) by (auto simp: owners_inv_def present_def)

lemmas race_1 = login_reach.step [OF login_reach.start [unfolded initial_login_def]
    login_step.login_starts [where c = 2 and n = "''ann''"], simplified name_of_def touched_def between_def, simplified]
lemmas race_2 = login_reach.step [OF race_1 login_step.login_starts [where c = 3 and n = "''ann''"],
    simplified name_of_def touched_def between_def, simplified]
lemmas race_3 = login_reach.step [OF race_2 login_step.name_is_free [where c = 2 and n = "''ann''"], simplified]
lemmas race_4 = login_reach.step [OF race_3 login_step.name_is_free [where c = 3 and n = "''ann''"], simplified]
lemmas race_5 = login_reach.step [OF race_4 login_step.enters [where c = 2 and n = "''ann''"], simplified]
lemmas race_6 = login_reach.step [OF race_5 login_step.enters [where c = 3 and n = "''ann''"], simplified]

theorem login_owner_witness:
  "\<exists>s. login_reach s \<and> map_of (name_conn_map (lg_room s)) ''ann'' = Some 2 \<and>
       lg_pc s 2 = LEntered \<and> name_of 2 (lg_room s) = ''ann''"
  by (intro exI conjI, rule race_5) (use login_owner [OF race_5, where n = "''ann''" and c = 2] in simp_all)

text \<open>C34. Two clients that log in under one name at the same time can both pass the test: both are then
  registered under it, only the later one can be addressed by it, and the room is not
  consistent any more. When the other one leaves, it takes the name with it: the one that stays is
  logged in, but in no list and out of reach.\<close>

theorem login_race:
  "\<exists>s s'. login_reach s \<and> name_of 2 (lg_room s) = ''ann'' \<and> name_of 3 (lg_room s) = ''ann'' \<and>
     map_of (name_conn_map (lg_room s)) ''ann'' = Some 3 \<and> \<not> chat_ok (lg_room s) \<and>
     login_step\<^sup>*\<^sup>* s s' \<and> lg_pc s' 2 = LGone \<and> lg_pc s' 3 = LEntered \<and> name_of 3 (lg_room s') = ''ann'' \<and>
     name_conn_map (lg_room s') = []"
proof -
  let ?r = "\<lparr>name_conn_map = [(''ann'', 3)], conn_name_map = [(2, ''ann''), (3, ''ann'')]\<rparr>"
  let ?s = "\<lparr>lg_room = ?r, lg_pc = (\<lambda>_. LIdle)(2 := LEntered, 3 := LEntered)\<rparr>"
  have "\<not> mutual [] (map_of (name_conn_map ?r)) (map_of (conn_name_map ?r))"
  proof
    assume "mutual [] (map_of (name_conn_map ?r)) (map_of (conn_name_map ?r))"
    from mutualD(3) [OF this, of 2 "''ann''"] show False by simp
  qed
  then have bad: "\<not> chat_ok (lg_room ?s)" by (simp add: chat_ok_def)
  have leave: "login_step ?s (?s\<lparr>lg_pc := (lg_pc ?s)(2 := LExiting)\<rparr>)"
    by (rule login_step.exit_starts) (simp_all add: between_def name_of_def)
  have erase: "login_step (?s\<lparr>lg_pc := (lg_pc ?s)(2 := LExiting)\<rparr>)
      \<lparr>lg_room = \<lparr>name_conn_map = [], conn_name_map = [(3, ''ann'')]\<rparr>,
       lg_pc = (lg_pc ?s)(2 := LGone)\<rparr>"
    using login_step.erases [of "?s\<lparr>lg_pc := (lg_pc ?s)(2 := LExiting)\<rparr>" 2] by (simp add: name_of_def)
  have steps: "login_step\<^sup>*\<^sup>* ?s \<lparr>lg_room = \<lparr>name_conn_map = [], conn_name_map = [(3, ''ann'')]\<rparr>,
       lg_pc = (lg_pc ?s)(2 := LGone)\<rparr>"
    using leave erase by (rule converse_rtranclp_into_rtranclp [OF _ r_into_rtranclp])
  have names: "name_of 2 (lg_room ?s) = ''ann''" "name_of 3 (lg_room ?s) = ''ann''"
    "map_of (name_conn_map (lg_room ?s)) ''ann'' = Some 3"
    by (simp_all add: name_of_def)
  show ?thesis
    by (rule exI [of _ ?s], rule exI, intro conjI, rule race_6, (rule names bad)+, rule steps)
       (simp_all add: name_of_def)
qed

end
