(* ===== verification/HandOver.thy ===== *)
theory HandOver
  imports LoopThreads Threads
begin

text \<open>
  \<open>server/include/event_loop_thread.h\<close>, \<open>server/src/event_loop_thread.cpp\<close> and
  \<open>Thread::Start\<close>, \<open>Thread::Join\<close> of \<open>server/src/m_thread.cpp\<close>: how the owner of an
  \<open>EventLoopThread\<close> gets the loop of the new thread, and how it ends that thread. The owner runs
  \<open>StartLoop\<close> and later the destructor, the worker runs \<open>ThreadFunc\<close>; a step is one access to
  what they share: the semaphore, the mutex, the condition variable, the pointer \<open>loop_\<close>, or a
  step of the loop itself (theory \<open>LoopThreads\<close>).
\<close>

subsection \<open>State\<close>

datatype party = Owner | Worker

text \<open>The owner: in \<open>Thread::Start\<close>, in the critical section of \<open>StartLoop\<close>, after it, in the destructor.\<close>

datatype owner_pc =
    OIdle | OSem | OLock | OTest | OAsleep | OWoken | ORead | OReturned
  | ODtor | OQuit | OWake | OJoin | OJoining | OGone | ODangling

text \<open>The worker: before it exists, in the lambda of \<open>Thread::Start\<close>, then in \<open>ThreadFunc\<close>.\<close>

datatype worker_pc =
    WNone | WTid | WPost | WConstruct | WInit | WLock | WPublish | WNotify | WUnlock | WLoop
  | WLockAgain | WClear | WUnlockAgain | WDestroy | WDone

record hand_over =
  ho_sys :: loop_sys           \<comment> \<open>the loop, and the other threads at it\<close>
  ho_thread :: thread
  ho_sem :: nat
  ho_mtx :: "party option"
  ho_loop :: bool              \<comment> \<open>\<open>loop_ != nullptr\<close>\<close>
  ho_exiting :: bool
  ho_owner :: owner_pc
  ho_worker :: worker_pc
  ho_result :: "bool option"   \<comment> \<open>what \<open>StartLoop\<close> returned: whether it was not null\<close>

definition EventLoopThread :: "tid \<Rightarrow> string \<Rightarrow> hand_over" where
  "EventLoopThread t name =
     \<lparr>ho_sys = initial_loop t, ho_thread = snd (Thread_ctor 0 name), ho_sem = 0, ho_mtx = None,
      ho_loop = False, ho_exiting = False, ho_owner = OIdle, ho_worker = WNone, ho_result = None\<rparr>"

definition owner_tid :: tid where "owner_tid = 0"

text \<open>A step of the loop's machine, and whether the loop's own thread makes it.\<close>

definition own_step :: "loop_sys \<Rightarrow> loop_sys \<Rightarrow> bool" where
  "own_step s s' \<longleftrightarrow> loop_step s s' \<and> ls_caller s' = ls_caller s"

subsection \<open>Steps\<close>

inductive hand_step :: "hand_over \<Rightarrow> hand_over \<Rightarrow> bool" where
  \<comment> \<open>\<open>Thread::Start\<close>\<close>
  starts: "ho_owner s = OIdle \<Longrightarrow>
     hand_step s (s\<lparr>ho_thread := (ho_thread s)\<lparr>th_started := True\<rparr>, ho_worker := WTid, ho_owner := OSem\<rparr>)"
| stores_tid: "ho_worker s = WTid \<Longrightarrow>
     hand_step s (s\<lparr>ho_thread := (ho_thread s)\<lparr>th_tid := el_thread_id (ls_el (ho_sys s))\<rparr>, ho_worker := WPost\<rparr>)"
| posts: "ho_worker s = WPost \<Longrightarrow> hand_step s (s\<lparr>ho_sem := ho_sem s + 1, ho_worker := WConstruct\<rparr>)"
| sem_waits: "ho_owner s = OSem \<Longrightarrow> 0 < ho_sem s \<Longrightarrow>
     hand_step s (s\<lparr>ho_sem := ho_sem s - 1, ho_owner := OLock\<rparr>)"
  \<comment> \<open>\<open>StartLoop\<close>: the lock, \<open>cv_.wait\<close> with its predicate (it may wake up without a cause), the read\<close>
| owner_locks: "ho_owner s = OLock \<Longrightarrow> ho_mtx s = None \<Longrightarrow>
     hand_step s (s\<lparr>ho_mtx := Some Owner, ho_owner := OTest\<rparr>)"
| sleeps: "ho_owner s = OTest \<Longrightarrow> \<not> ho_loop s \<Longrightarrow>
     hand_step s (s\<lparr>ho_mtx := None, ho_owner := OAsleep\<rparr>)"
| wakes_up: "ho_owner s = OAsleep \<Longrightarrow> hand_step s (s\<lparr>ho_owner := OWoken\<rparr>)"
| relocks: "ho_owner s = OWoken \<Longrightarrow> ho_mtx s = None \<Longrightarrow>
     hand_step s (s\<lparr>ho_mtx := Some Owner, ho_owner := OTest\<rparr>)"
| passes: "ho_owner s = OTest \<Longrightarrow> ho_loop s \<Longrightarrow> hand_step s (s\<lparr>ho_owner := ORead\<rparr>)"
| returns: "ho_owner s = ORead \<Longrightarrow>
     hand_step s (s\<lparr>ho_result := Some (ho_loop s), ho_mtx := None, ho_owner := OReturned\<rparr>)"
  \<comment> \<open>\<open>ThreadFunc\<close>: the constructor, the callback, the publication\<close>
| constructs: "ho_worker s = WConstruct \<Longrightarrow> hand_step s (s\<lparr>ho_worker := WInit\<rparr>)"
| inits: "ho_worker s = WInit \<Longrightarrow> hand_step s (s\<lparr>ho_worker := WLock\<rparr>)"
| worker_locks: "ho_worker s = WLock \<Longrightarrow> ho_mtx s = None \<Longrightarrow>
     hand_step s (s\<lparr>ho_mtx := Some Worker, ho_worker := WPublish\<rparr>)"
| publishes: "ho_worker s = WPublish \<Longrightarrow> hand_step s (s\<lparr>ho_loop := True, ho_worker := WNotify\<rparr>)"
| notifies: "ho_worker s = WNotify \<Longrightarrow>
     hand_step s (s\<lparr>ho_owner := (if ho_owner s = OAsleep then OWoken else ho_owner s), ho_worker := WUnlock\<rparr>)"
| worker_unlocks: "ho_worker s = WUnlock \<Longrightarrow> hand_step s (s\<lparr>ho_mtx := None, ho_worker := WLoop\<rparr>)"
  \<comment> \<open>the loop, until it is left\<close>
| loops: "ho_worker s = WLoop \<Longrightarrow> own_step (ho_sys s) sys \<Longrightarrow> hand_step s (s\<lparr>ho_sys := sys\<rparr>)"
| leaves: "ho_worker s = WLoop \<Longrightarrow> ls_pc (ho_sys s) = PcExit \<Longrightarrow>
     hand_step s (s\<lparr>ho_worker := WLockAgain\<rparr>)"
| locks_again: "ho_worker s = WLockAgain \<Longrightarrow> ho_mtx s = None \<Longrightarrow>
     hand_step s (s\<lparr>ho_mtx := Some Worker, ho_worker := WClear\<rparr>)"
| clears: "ho_worker s = WClear \<Longrightarrow> hand_step s (s\<lparr>ho_loop := False, ho_worker := WUnlockAgain\<rparr>)"
| unlocks_again: "ho_worker s = WUnlockAgain \<Longrightarrow>
     hand_step s (s\<lparr>ho_mtx := None, ho_worker := WDestroy\<rparr>)"
| destroys: "ho_worker s = WDestroy \<Longrightarrow> hand_step s (s\<lparr>ho_worker := WDone\<rparr>)"
  \<comment> \<open>the destructor: without the mutex; \<open>Quit\<close> of a loop that is gone goes to a dangling pointer\<close>
| exits: "ho_owner s \<in> {OIdle, OReturned} \<Longrightarrow> hand_step s (s\<lparr>ho_exiting := True, ho_owner := ODtor\<rparr>)"
| sees_loop: "ho_owner s = ODtor \<Longrightarrow> ho_loop s \<Longrightarrow> hand_step s (s\<lparr>ho_owner := OQuit\<rparr>)"
| sees_none: "ho_owner s = ODtor \<Longrightarrow> \<not> ho_loop s \<Longrightarrow> hand_step s (s\<lparr>ho_owner := OGone\<rparr>)"
| quits: "ho_owner s = OQuit \<Longrightarrow> ho_worker s \<noteq> WDone \<Longrightarrow> ls_caller (ho_sys s) owner_tid = CIdle \<Longrightarrow>
     owner_tid \<noteq> el_thread_id (ls_el (ho_sys s)) \<Longrightarrow>
     hand_step s (s\<lparr>ho_sys := (ho_sys s)\<lparr>ls_el := (ls_el (ho_sys s))\<lparr>el_quit := True\<rparr>,
        ls_caller := (ls_caller (ho_sys s))(owner_tid := CQuit)\<rparr>, ho_owner := OWake\<rparr>)"
| quits_gone: "ho_owner s = OQuit \<Longrightarrow> ho_worker s = WDone \<Longrightarrow> hand_step s (s\<lparr>ho_owner := ODangling\<rparr>)"
| quit_wakes_loop: "ho_owner s = OWake \<Longrightarrow> ho_worker s \<noteq> WDone \<Longrightarrow>
     hand_step s (s\<lparr>ho_sys := (ho_sys s)\<lparr>ls_efd := ls_efd (ho_sys s) + 1,
        ls_caller := (ls_caller (ho_sys s))(owner_tid := CIdle), ls_quits := Suc (ls_quits (ho_sys s))\<rparr>,
        ho_owner := OJoin\<rparr>)"
| wakes_gone: "ho_owner s = OWake \<Longrightarrow> ho_worker s = WDone \<Longrightarrow> hand_step s (s\<lparr>ho_owner := ODangling\<rparr>)"
| joins: "ho_owner s = OJoin \<Longrightarrow>
     hand_step s (s\<lparr>ho_thread := Thread_Join (ho_thread s), ho_owner := OJoining\<rparr>)"
| joined: "ho_owner s = OJoining \<Longrightarrow> ho_worker s = WDone \<Longrightarrow> hand_step s (s\<lparr>ho_owner := OGone\<rparr>)"
  \<comment> \<open>other threads queue functors and quit, once \<open>StartLoop\<close> has given the loop away\<close>
| others: "ho_result s \<noteq> None \<Longrightarrow> ho_worker s \<noteq> WDone \<Longrightarrow> loop_step (ho_sys s) sys \<Longrightarrow>
     ls_pc sys = ls_pc (ho_sys s) \<Longrightarrow> t \<noteq> owner_tid \<Longrightarrow>
     ls_caller sys = (ls_caller (ho_sys s))(t := ls_caller sys t) \<Longrightarrow> ls_caller sys t \<noteq> ls_caller (ho_sys s) t \<Longrightarrow>
     hand_step s (s\<lparr>ho_sys := sys\<rparr>)"

inductive hand_reach :: "hand_over \<Rightarrow> bool" where
  start: "t \<noteq> owner_tid \<Longrightarrow> hand_reach (EventLoopThread t name)"
| step: "hand_reach s \<Longrightarrow> hand_step s s' \<Longrightarrow> hand_reach s'"

subsection \<open>Invariants\<close>

text \<open>Who holds the mutex, and when the pointer is set.\<close>

fun owner_holds :: "owner_pc \<Rightarrow> bool" where
  "owner_holds OTest = True" | "owner_holds ORead = True" | "owner_holds _ = False"

fun worker_holds :: "worker_pc \<Rightarrow> bool" where
  "worker_holds WPublish = True" | "worker_holds WNotify = True" | "worker_holds WUnlock = True"
| "worker_holds WClear = True" | "worker_holds WUnlockAgain = True" | "worker_holds _ = False"

fun published :: "worker_pc \<Rightarrow> bool" where
  "published WNotify = True" | "published WUnlock = True" | "published WLoop = True"
| "published WLockAgain = True" | "published WClear = True" | "published _ = False"

text \<open>How far the worker is from its loop.\<close>

fun worker_rank :: "worker_pc \<Rightarrow> nat" where
  "worker_rank WNone = 9" | "worker_rank WTid = 8" | "worker_rank WPost = 7" | "worker_rank WConstruct = 6"
| "worker_rank WInit = 5" | "worker_rank WLock = 4" | "worker_rank WPublish = 3" | "worker_rank WNotify = 2"
| "worker_rank WUnlock = 1" | "worker_rank _ = 0"

definition lock_inv :: "hand_over \<Rightarrow> bool" where
  "lock_inv s \<longleftrightarrow>
     \<not> (owner_holds (ho_owner s) \<and> worker_holds (ho_worker s)) \<and>
     ho_mtx s = (if owner_holds (ho_owner s) then Some Owner
                 else if worker_holds (ho_worker s) then Some Worker else None) \<and>
     ho_loop s = published (ho_worker s)"

definition result_inv :: "hand_over \<Rightarrow> bool" where
  "result_inv s \<longleftrightarrow>
     (ho_owner s = ORead \<longrightarrow> ho_loop s) \<and> ho_result s \<noteq> Some False \<and>
     (ho_owner s = OReturned \<longrightarrow> ho_result s = Some True) \<and>
     (ho_owner s = OIdle \<longrightarrow> ho_result s = None) \<and>
     (ho_result s \<noteq> None \<longrightarrow> worker_rank (ho_worker s) < 3)"

text \<open>The worker exists as soon as the owner has started it, and posts the semaphore once.\<close>

definition start_inv :: "hand_over \<Rightarrow> bool" where
  "start_inv s \<longleftrightarrow>
     (ho_owner s = OIdle \<longrightarrow> ho_worker s = WNone) \<and>
     (ho_worker s \<in> {WNone, WTid, WPost} \<longrightarrow> ho_sem s = 0) \<and>
     (ho_owner s = OSem \<longrightarrow> ho_worker s \<noteq> WNone \<and> (ho_worker s \<in> {WTid, WPost} \<or> 0 < ho_sem s)) \<and>
     (ho_owner s \<in> {OLock, OTest, OAsleep, OWoken, ORead, OReturned} \<longrightarrow> ho_worker s \<notin> {WNone, WTid, WPost})"

text \<open>As long as nobody has called \<open>Quit\<close>.\<close>

definition unquit :: "hand_over \<Rightarrow> bool" where
  "unquit s \<longleftrightarrow> ls_quits (ho_sys s) = 0 \<and> (\<forall>t. ls_caller (ho_sys s) t \<noteq> CQuit)"

definition quiet_inv :: "hand_over \<Rightarrow> bool" where
  "quiet_inv s \<longleftrightarrow>
     (unquit s \<longrightarrow> \<not> el_quit (ls_el (ho_sys s)) \<and> ls_pc (ho_sys s) \<noteq> PcExit \<and>
        ho_worker s \<notin> {WLockAgain, WClear, WUnlockAgain, WDestroy, WDone} \<and>
        (ho_owner s = OAsleep \<longrightarrow> ho_worker s \<notin> {WUnlock, WLoop}))"

lemma lock_inv_step: "hand_step s s' \<Longrightarrow> start_inv s \<Longrightarrow> lock_inv s \<Longrightarrow> lock_inv s'"
proof -
  assume "hand_step s s'" "start_inv s" "lock_inv s"
  moreover from this have "ho_owner s = OIdle \<longrightarrow> ho_worker s = WNone" by (simp add: start_inv_def)
  ultimately show ?thesis
    by (induction rule: hand_step.induct) (simp_all add: lock_inv_def split: if_splits, auto)
qed

lemma published_rank: "published w \<Longrightarrow> worker_rank w < 3"
  by (cases w) simp_all

lemma result_inv_step: "hand_step s s' \<Longrightarrow> lock_inv s \<Longrightarrow> result_inv s \<Longrightarrow> result_inv s'"
  by (induction rule: hand_step.induct) (simp_all add: lock_inv_def result_inv_def, auto simp: published_rank)

lemma start_inv_step: "hand_step s s' \<Longrightarrow> start_inv s \<Longrightarrow> start_inv s'"
  by (induction rule: hand_step.induct) (auto simp: start_inv_def)

text \<open>A step of the loop's machine does not undo a quit.\<close>

lemma loop_step_unquit:
  assumes "loop_step s s'" "ls_quits s' = 0" "\<forall>t. ls_caller s' t \<noteq> CQuit"
    and "ls_quits s = 0 \<and> (\<forall>t. ls_caller s t \<noteq> CQuit) \<Longrightarrow> \<not> el_quit (ls_el s) \<and> ls_pc s \<noteq> PcExit"
  shows "ls_quits s = 0 \<and> (\<forall>t. ls_caller s t \<noteq> CQuit) \<and> \<not> el_quit (ls_el s') \<and> ls_pc s' \<noteq> PcExit"
  using assms
  by (induction rule: loop_step.induct)
     (auto dest: swap_pendingD split: if_splits, (metis caller_pc.distinct)+)

lemma quiet_inv_loop:
  assumes "loop_step (ho_sys s) sys" "quiet_inv s"
  shows "quiet_inv (s\<lparr>ho_sys := sys\<rparr>)"
  using loop_step_unquit [OF assms(1)] assms(2) by (auto simp: quiet_inv_def unquit_def)

lemma quiet_inv_step: "hand_step s s' \<Longrightarrow> lock_inv s \<Longrightarrow> quiet_inv s \<Longrightarrow> quiet_inv s'"
proof (induction rule: hand_step.induct)
  case (loops s sys)
  then show ?case using quiet_inv_loop by (simp add: own_step_def)
next
  case (others s sys t)
  then show ?case using quiet_inv_loop by simp
next
  case (sleeps s)
  then show ?case by (auto simp: quiet_inv_def unquit_def lock_inv_def)
next
  case (quits s)
  then show ?case by (auto simp: quiet_inv_def unquit_def)
qed (simp_all add: quiet_inv_def unquit_def)

lemma hand_reach_inv: "hand_reach s \<Longrightarrow> start_inv s \<and> lock_inv s \<and> result_inv s \<and> quiet_inv s"
proof (induction rule: hand_reach.induct)
  case (start t name)
  show ?case
    by (simp add: EventLoopThread_def start_inv_def lock_inv_def result_inv_def quiet_inv_def initial_loop_def)
next
  case (step s s')
  then show ?case using start_inv_step lock_inv_step result_inv_step quiet_inv_step by blast
qed

subsection \<open>Starting\<close>

text \<open>C22. In every interleaving \<open>StartLoop\<close> returns the loop and never a null pointer; the mutex keeps
  the two threads apart; and as long as nobody has quit the loop, the owner only sleeps on the
  condition variable while the notification is still to come.\<close>

theorem start_loop_safe:
  assumes "hand_reach s"
  shows "(ho_owner s = OReturned \<longrightarrow> ho_result s = Some True) \<and> ho_result s \<noteq> Some False \<and>
    \<not> (owner_holds (ho_owner s) \<and> worker_holds (ho_worker s)) \<and>
    (unquit s \<and> ho_owner s = OAsleep \<longrightarrow>
       ho_worker s \<in> {WConstruct, WInit, WLock, WPublish, WNotify})"
proof -
  note inv = hand_reach_inv [OF assms]
  have "ho_worker s \<in> {WConstruct, WInit, WLock, WPublish, WNotify}" if "unquit s" "ho_owner s = OAsleep"
    using inv that by (cases "ho_worker s") (simp_all add: quiet_inv_def start_inv_def)
  with inv show ?thesis by (simp add: result_inv_def lock_inv_def)
qed

text \<open>A distance to the return of \<open>StartLoop\<close>.\<close>

fun owner_rank :: "owner_pc \<Rightarrow> nat" where
  "owner_rank OIdle = 8" | "owner_rank OSem = 7" | "owner_rank OLock = 6" | "owner_rank OWoken = 5"
| "owner_rank OTest = 4" | "owner_rank OAsleep = 3" | "owner_rank ORead = 1" | "owner_rank _ = 0"

definition hand_rank :: "hand_over \<Rightarrow> nat" where
  "hand_rank s = 10 * worker_rank (ho_worker s) + owner_rank (ho_owner s)"

definition starting :: "owner_pc \<Rightarrow> bool" where
  "starting pc \<longleftrightarrow> pc \<in> {OIdle, OSem, OLock, OTest, OAsleep, OWoken, ORead}"

lemma hand_progressI:
  assumes "hand_step s s'" "unquit s" "ho_sys s' = ho_sys s" "hand_rank s' < hand_rank s"
    "starting (ho_owner s') \<or> ho_owner s' = OReturned"
  shows "\<exists>s'. hand_step s s' \<and> unquit s' \<and> hand_rank s' < hand_rank s \<and>
    (starting (ho_owner s') \<or> ho_owner s' = OReturned)"
  using assms by (auto simp: unquit_def)

text \<open>The step that leads on: the worker's where it can always go on, \<close>

lemma hand_progress_worker:
  assumes "unquit s" "starting (ho_owner s)"
    and "ho_worker s \<in> {WTid, WPost, WConstruct, WInit, WPublish, WNotify, WUnlock}"
  shows "\<exists>s'. hand_step s s' \<and> unquit s' \<and> hand_rank s' < hand_rank s \<and>
    (starting (ho_owner s') \<or> ho_owner s' = OReturned)"
proof -
  note start = hand_progressI [OF _ assms(1)]
  note defs = hand_rank_def starting_def
  from assms(3) consider "ho_worker s = WTid" | "ho_worker s = WPost" | "ho_worker s = WConstruct"
    | "ho_worker s = WInit" | "ho_worker s = WPublish" | "ho_worker s = WNotify" | "ho_worker s = WUnlock"
    by blast
  then show ?thesis
  proof cases
    case 1 then show ?thesis by (rule start [OF hand_step.stores_tid]) (use 1 assms(2) in \<open>simp_all add: defs\<close>)
  next
    case 2 then show ?thesis by (rule start [OF hand_step.posts]) (use 2 assms(2) in \<open>simp_all add: defs\<close>)
  next
    case 3 then show ?thesis by (rule start [OF hand_step.constructs]) (use 3 assms(2) in \<open>simp_all add: defs\<close>)
  next
    case 4 then show ?thesis by (rule start [OF hand_step.inits]) (use 4 assms(2) in \<open>simp_all add: defs\<close>)
  next
    case 5 then show ?thesis by (rule start [OF hand_step.publishes]) (use 5 assms(2) in \<open>simp_all add: defs\<close>)
  next
    case 6 then show ?thesis by (rule start [OF hand_step.notifies]) (use 6 assms(2) in \<open>auto simp: defs\<close>)
  next
    case 7 then show ?thesis by (rule start [OF hand_step.worker_unlocks]) (use 7 assms(2) in \<open>simp_all add: defs\<close>)
  qed
qed

text \<open>the owner's or the worker's where the mutex decides,\<close>

lemma hand_progress_lock:
  assumes "unquit s" "starting (ho_owner s)" "lock_inv s" "ho_worker s = WLock"
  shows "\<exists>s'. hand_step s s' \<and> unquit s' \<and> hand_rank s' < hand_rank s \<and>
    (starting (ho_owner s') \<or> ho_owner s' = OReturned)"
proof -
  note start = hand_progressI [OF _ assms(1)]
  note defs = hand_rank_def starting_def
  have "\<not> ho_loop s" and free: "\<not> owner_holds (ho_owner s) \<Longrightarrow> ho_mtx s = None"
    using assms(3,4) by (simp_all add: lock_inv_def)
  consider "\<not> owner_holds (ho_owner s)" | "ho_owner s = OTest" | "ho_owner s = ORead"
    by (cases "ho_owner s") simp_all
  then show ?thesis
  proof cases
    case 1 show ?thesis
      by (rule start [OF hand_step.worker_locks [OF assms(4) free [OF 1]]])
         (use assms(2,4) in \<open>simp_all add: defs\<close>)
  next
    case 2 show ?thesis
      by (rule start [OF hand_step.sleeps [OF 2 \<open>\<not> ho_loop s\<close>]]) (use 2 in \<open>simp_all add: defs\<close>)
  next
    case 3 then show ?thesis by (rule start [OF hand_step.returns]) (use 3 in \<open>simp_all add: defs\<close>)
  qed
qed

text \<open>and the owner's once the worker is in its loop.\<close>

lemma hand_progress_loop:
  assumes "unquit s" "starting (ho_owner s)" "start_inv s" "lock_inv s" "quiet_inv s" "ho_worker s = WLoop"
  shows "\<exists>s'. hand_step s s' \<and> unquit s' \<and> hand_rank s' < hand_rank s \<and>
    (starting (ho_owner s') \<or> ho_owner s' = OReturned)"
proof -
  note start = hand_progressI [OF _ assms(1)]
  note defs = hand_rank_def starting_def
  have loop: "ho_loop s" and free: "\<not> owner_holds (ho_owner s) \<Longrightarrow> ho_mtx s = None"
    using assms(4,6) by (simp_all add: lock_inv_def)
  have "ho_owner s \<noteq> OIdle" "ho_owner s \<noteq> OAsleep" "ho_owner s = OSem \<Longrightarrow> 0 < ho_sem s"
    using assms(1,3,5,6) by (auto simp: start_inv_def quiet_inv_def)
  then consider "ho_owner s = OSem" "0 < ho_sem s" | "ho_owner s = OLock" | "ho_owner s = OTest"
    | "ho_owner s = OWoken" | "ho_owner s = ORead"
    using assms(2) by (auto simp: starting_def)
  then show ?thesis
  proof cases
    case 1 then show ?thesis by (rule start [OF hand_step.sem_waits]) (use 1 in \<open>simp_all add: defs\<close>)
  next
    case 2 show ?thesis
      by (rule start [OF hand_step.owner_locks [OF 2 free]]) (use 2 in \<open>simp_all add: defs\<close>)
  next
    case 3 show ?thesis by (rule start [OF hand_step.passes [OF 3 loop]]) (use 3 in \<open>simp_all add: defs\<close>)
  next
    case 4 show ?thesis
      by (rule start [OF hand_step.relocks [OF 4 free]]) (use 4 in \<open>simp_all add: defs\<close>)
  next
    case 5 then show ?thesis by (rule start [OF hand_step.returns]) (use 5 in \<open>simp_all add: defs\<close>)
  qed
qed

lemma hand_progress:
  assumes "hand_reach s" "unquit s" "starting (ho_owner s)"
  shows "\<exists>s'. hand_step s s' \<and> unquit s' \<and> hand_rank s' < hand_rank s \<and>
    (starting (ho_owner s') \<or> ho_owner s' = OReturned)"
proof -
  have inv: "start_inv s" "lock_inv s" "quiet_inv s" using hand_reach_inv [OF assms(1)] by simp_all
  consider "ho_worker s = WNone" | "ho_worker s \<in> {WTid, WPost, WConstruct, WInit, WPublish, WNotify, WUnlock}"
    | "ho_worker s = WLock" | "ho_worker s = WLoop"
    using inv(3) assms(2) by (cases "ho_worker s") (simp_all add: quiet_inv_def)
  then show ?thesis
  proof cases
    case 1
    then have idle: "ho_owner s = OIdle" using inv(1) assms(3) by (auto simp: start_inv_def starting_def)
    show ?thesis
      by (rule hand_progressI [OF hand_step.starts [OF idle] assms(2)])
         (use 1 idle in \<open>simp_all add: hand_rank_def starting_def\<close>)
  qed (use hand_progress_worker hand_progress_lock hand_progress_loop assms inv in blast)+
qed

text \<open>C23. \<open>StartLoop\<close> can always return, whatever has happened so far: from every state it passes through
  while nobody has quit the loop, the threads can go on to a state in which it has returned the
  loop; each step on the way brings it nearer.\<close>

theorem start_loop_returns:
  assumes "hand_reach s" "unquit s" "starting (ho_owner s)"
  shows "\<exists>s'. hand_step\<^sup>*\<^sup>* s s' \<and> ho_owner s' = OReturned \<and> ho_result s' = Some True \<and>
    published (ho_worker s')"
  using assms
proof (induction "hand_rank s" arbitrary: s rule: less_induct)
  case less
  obtain s1 where s1: "hand_step s s1" "unquit s1" "hand_rank s1 < hand_rank s"
    "starting (ho_owner s1) \<or> ho_owner s1 = OReturned"
    using hand_progress [OF less.prems] by blast
  have reach: "hand_reach s1" by (rule hand_reach.step [OF less.prems(1) s1(1)])
  show ?case
  proof (cases "ho_owner s1 = OReturned")
    case True
    have inv: "result_inv s1" "start_inv s1" "lock_inv s1" "quiet_inv s1"
      using hand_reach_inv [OF reach] by simp_all
    from inv(1,4) s1(2) True have "published (ho_worker s1)"
      by (cases "ho_worker s1") (auto simp: result_inv_def quiet_inv_def)
    with inv(1) s1(1) True show ?thesis by (auto simp: result_inv_def)
  next
    case False
    with less.hyps [OF s1(3) reach s1(2)] s1 show ?thesis
      by (blast intro: converse_rtranclp_into_rtranclp)
  qed
qed

subsection \<open>A run\<close>

lemma own_set_looping: "ls_pc s = PcBefore \<Longrightarrow>
    own_step s (s\<lparr>ls_el := (ls_el s)\<lparr>el_looping := True\<rparr>, ls_pc := PcEnter\<rparr>)"
  by (simp add: own_step_def loop_step.set_looping)

lemma own_clear_quit: "ls_pc s = PcEnter \<Longrightarrow>
    own_step s (s\<lparr>ls_el := (ls_el s)\<lparr>el_quit := False\<rparr>, ls_pc := PcCheck\<rparr>)"
  by (simp add: own_step_def loop_step.clear_quit)

lemma demo_idle: "hand_reach (EventLoopThread 1 ''io'')"
  by (rule hand_reach.start) (simp add: owner_tid_def)

lemmas demo_created = demo_idle [unfolded EventLoopThread_def initial_loop_def Thread_ctor_def SetDefaultName_def,
    simplified]

text \<open>The owner sleeps until the worker notifies it, and returns the loop.\<close>

lemmas demo_1 = hand_reach.step [OF demo_created hand_step.starts, simplified]
lemmas demo_2 = hand_reach.step [OF demo_1 hand_step.stores_tid, simplified]
lemmas demo_3 = hand_reach.step [OF demo_2 hand_step.posts, simplified]
lemmas demo_4 = hand_reach.step [OF demo_3 hand_step.sem_waits, simplified]
lemmas demo_5 = hand_reach.step [OF demo_4 hand_step.owner_locks, simplified]
lemmas demo_asleep = hand_reach.step [OF demo_5 hand_step.sleeps, simplified]
lemmas demo_6 = hand_reach.step [OF demo_asleep hand_step.constructs, simplified]
lemmas demo_7 = hand_reach.step [OF demo_6 hand_step.inits, simplified]
lemmas demo_8 = hand_reach.step [OF demo_7 hand_step.worker_locks, simplified]
lemmas demo_9 = hand_reach.step [OF demo_8 hand_step.publishes, simplified]
lemmas demo_10 = hand_reach.step [OF demo_9 hand_step.notifies, simplified]
lemmas demo_11 = hand_reach.step [OF demo_10 hand_step.worker_unlocks, simplified]
lemmas demo_12 = hand_reach.step [OF demo_11 hand_step.relocks, simplified]
lemmas demo_13 = hand_reach.step [OF demo_12 hand_step.passes, simplified]
lemmas demo_returned = hand_reach.step [OF demo_13 hand_step.returns, simplified]

text \<open>It destroys the object before the worker has entered \<open>Loop\<close>.\<close>

lemmas demo_14 = hand_reach.step [OF demo_returned hand_step.exits, simplified]
lemmas demo_15 = hand_reach.step [OF demo_14 hand_step.sees_loop, simplified]
lemmas demo_16 = hand_reach.step [OF demo_15 hand_step.quits, simplified owner_tid_def, simplified]
lemmas demo_17 = hand_reach.step [OF demo_16 hand_step.quit_wakes_loop, simplified owner_tid_def, simplified]
lemmas demo_18 = hand_reach.step [OF demo_17 hand_step.joins, simplified]
lemmas demo_19 = hand_reach.step [OF demo_18 hand_step.loops [OF _ own_set_looping], simplified]
lemmas demo_hung = hand_reach.step [OF demo_19 hand_step.loops [OF _ own_clear_quit], simplified]

theorem start_loop_safe_witness:
  "\<exists>s. hand_reach s \<and> ho_owner s = OAsleep \<and> unquit s \<and>
     ho_worker s \<in> {WConstruct, WInit, WLock, WPublish, WNotify}"
  by (intro exI conjI, rule demo_asleep)
     (use start_loop_safe [OF demo_asleep] in \<open>simp_all add: unquit_def\<close>)

theorem start_loop_returns_witness:
  "\<exists>s s'. hand_reach s \<and> ho_owner s = OAsleep \<and> hand_step\<^sup>*\<^sup>* s s' \<and> ho_owner s' = OReturned \<and>
     ho_result s' = Some True"
proof -
  obtain s where s: "hand_reach s" "unquit s" "ho_owner s = OAsleep"
    by (rule that [OF demo_asleep]) (simp_all add: unquit_def)
  then show ?thesis using start_loop_returns [OF s(1,2)] by (auto simp: starting_def)
qed

subsection \<open>A destructor that never returns\<close>

text \<open>The owner joins a worker whose loop nobody is going to quit.\<close>

definition hung_inv :: "hand_over \<Rightarrow> bool" where
  "hung_inv s \<longleftrightarrow> 1 \<le> ls_quits (ho_sys s) \<and> going_on 1 (ho_sys s) \<and>
     (ls_quits (ho_sys s) = 1 \<and> (\<forall>t. ls_caller (ho_sys s) t \<noteq> CQuit) \<longrightarrow>
        ho_owner s = OJoining \<and> ho_worker s = WLoop)"

lemma loop_step_quiet:
  assumes "loop_step s s'" "1 \<le> ls_quits s" "ls_quits s' = 1" "\<forall>t. ls_caller s' t \<noteq> CQuit"
  shows "ls_quits s = 1 \<and> (\<forall>t. ls_caller s t \<noteq> CQuit)"
  using assms
  by (induction rule: loop_step.induct) (auto split: if_splits, (metis caller_pc.distinct)+)

lemma hung_inv_loop:
  assumes "loop_step (ho_sys s) sys" "hung_inv s"
  shows "hung_inv (s\<lparr>ho_sys := sys\<rparr>)"
proof -
  have s: "1 \<le> ls_quits (ho_sys s)" "going_on 1 (ho_sys s)" using assms(2) by (simp_all add: hung_inv_def)
  show ?thesis
    using going_on_step [OF assms(1) s(2,1)] loop_step_quiet [OF assms(1) s(1)] assms(2)
    by (simp add: hung_inv_def)
qed

lemma hung_inv_step: "hand_step s s' \<Longrightarrow> hung_inv s \<Longrightarrow> hung_inv s'"
proof (induction rule: hand_step.induct)
  case (loops s sys)
  then show ?case using hung_inv_loop by (simp add: own_step_def)
next
  case (others s sys t)
  then show ?case using hung_inv_loop by simp
next
  case (leaves s)
  then show ?case by (auto simp: hung_inv_def going_on_def)
next
  case (quits s)
  then show ?case by (auto simp: hung_inv_def going_on_def)
next
  case (quit_wakes_loop s)
  then show ?case by (auto simp: hung_inv_def going_on_def)
qed (auto simp: hung_inv_def)

lemma hung_inv_steps: "hand_step\<^sup>*\<^sup>* s s' \<Longrightarrow> hung_inv s \<Longrightarrow> hung_inv s'"
  by (induction rule: rtranclp_induct) (auto intro: hung_inv_step)

text \<open>C24. The destructor of an \<open>EventLoopThread\<close> can hang: when it runs after \<open>StartLoop\<close> has returned but
  before the worker has entered \<open>Loop\<close>, which clears \<open>quit_\<close>, the owner waits in \<open>join\<close> for ever
  and the worker loops for ever, unless somebody else quits that loop.\<close>

theorem early_destruction_hangs:
  "\<exists>s. hand_reach s \<and> ho_owner s = OJoining \<and> ls_quits (ho_sys s) = 1 \<and>
     ls_pc (ho_sys s) = PcCheck \<and> ho_worker s = WLoop \<and> \<not> el_quit (ls_el (ho_sys s)) \<and>
     (\<forall>t. ls_caller (ho_sys s) t = CIdle) \<and>
     (\<forall>s'. hand_step\<^sup>*\<^sup>* s s' \<longrightarrow> ls_quits (ho_sys s') = 1 \<longrightarrow> (\<forall>t. ls_caller (ho_sys s') t \<noteq> CQuit) \<longrightarrow>
        ho_owner s' = OJoining \<and> ho_worker s' = WLoop)"
proof -
  obtain s where s: "hand_reach s" "ho_owner s = OJoining" "ls_quits (ho_sys s) = 1" "ls_pc (ho_sys s) = PcCheck"
    "ho_worker s = WLoop" "\<not> el_quit (ls_el (ho_sys s))" "\<forall>t. ls_caller (ho_sys s) t = CIdle"
    by (rule that [OF demo_hung]) simp_all
  have "hung_inv s" using s by (simp add: hung_inv_def going_on_def)
  then have "ho_owner s' = OJoining \<and> ho_worker s' = WLoop"
    if "hand_step\<^sup>*\<^sup>* s s'" "ls_quits (ho_sys s') = 1" "\<forall>t. ls_caller (ho_sys s') t \<noteq> CQuit" for s'
    using hung_inv_steps [OF that(1)] that(2,3) by (auto simp: hung_inv_def)
  with s show ?thesis by blast
qed

text \<open>Such a run, and one step later.\<close>

theorem early_destruction_hangs_witness:
  "\<exists>s s'. hand_reach s \<and> ls_quits (ho_sys s) = 1 \<and> hand_step s s' \<and> ls_pc (ho_sys s') = PcPoll \<and>
     ho_owner s' = OJoining \<and> ho_worker s' = WLoop"
proof -
  obtain s where s: "hand_reach s" "ho_owner s = OJoining" "ls_quits (ho_sys s) = 1" "ls_pc (ho_sys s) = PcCheck"
    "ho_worker s = WLoop" "\<not> el_quit (ls_el (ho_sys s))" "\<forall>t. ls_caller (ho_sys s) t = CIdle"
    and never: "\<And>s'. hand_step\<^sup>*\<^sup>* s s' \<Longrightarrow> ls_quits (ho_sys s') = 1 \<Longrightarrow>
      \<forall>t. ls_caller (ho_sys s') t \<noteq> CQuit \<Longrightarrow> ho_owner s' = OJoining \<and> ho_worker s' = WLoop"
    using early_destruction_hangs by auto
  let ?s' = "s\<lparr>ho_sys := (ho_sys s)\<lparr>ls_pc := PcPoll\<rparr>\<rparr>"
  have step: "hand_step s ?s'"
    using s by (intro hand_step.loops) (simp_all add: own_step_def loop_step.go_on)
  then have "ho_owner ?s' = OJoining \<and> ho_worker ?s' = WLoop"
    by (intro never r_into_rtranclp) (simp_all add: s)
  with s(1,3) step show ?thesis by (intro exI [of _ s] exI [of _ ?s']) simp
qed

end
