(* ===== verification/ServerCorrect.thy ===== *)
theory ServerCorrect
  imports TcpServer ConnStream DemoKernel
begin

text \<open>
  What the server guarantees between an accepted descriptor and its removal: each connection
  gets the next loop in turn and a name no other connection has; the table of connections
  gains exactly it and, at its removal, loses exactly it.
\<close>

subsection \<open>Turns\<close>

lemma one_round:
  "map (\<lambda>i. xs ! ((k + i) mod length xs)) [0..<length xs] = rotate k xs"
  by (rule nth_equalityI) (simp_all add: nth_rotate)

lemma many_rounds:
  "map (\<lambda>i. f (i mod m)) [0..<n * m] = concat (replicate n (map f [0..<m]))"
proof (induction n)
  case (Suc n)
  have "[0..<Suc n * m] = [0..<m] @ map (\<lambda>i. i + m) [0..<n * m]"
    by (simp add: map_add_upt upt_add_eq_append [of 0 m "n * m", simplified] add.commute)
  then show ?case using Suc by (simp add: o_def)
qed simp

text \<open>The loops are taken in turns: over any number of full rounds every loop is handed out exactly
  once a round, in the order of the list, starting where the last choice left off, and the pool
  ends as it began.\<close>

theorem round_robin:
  assumes "pool_ok tp"
  shows "next_loops (n * length (get_loops tp)) tp =
           Inr (concat (replicate n (rotate (tp_next tp) (get_loops tp))), tp)"
proof -
  let ?L = "get_loops tp" and ?k = "tp_next tp"
  have below: "?k < length ?L" using assms by (auto simp: pool_ok_def get_loops_def split: if_splits)
  have "map (\<lambda>i. ?L ! ((?k + i) mod length ?L)) [0..<n * length ?L] =
        map (\<lambda>i. ?L ! ((?k + i mod length ?L) mod length ?L)) [0..<n * length ?L]"
    by (simp add: mod_simps)
  also have "\<dots> = concat (replicate n (rotate ?k ?L))"
    using many_rounds [of "\<lambda>i. ?L ! ((?k + i) mod length ?L)"] by (simp add: one_round)
  finally show ?thesis using below by (simp add: next_loops_ok [OF assms])
qed

definition demo_pool :: thread_pool where
  "demo_pool = (EventLoopThreadPool 9 ''server#0'')\<lparr>tp_started := True, tp_num_threads := 3, tp_next := 2,
     tp_loops := [10, 11, 12]\<rparr>"

theorem round_robin_witness:
  "next_loops (2 * 3) demo_pool = Inr ([12, 10, 11, 12, 10, 11], demo_pool)"
proof -
  have ok: "pool_ok demo_pool" and loops: "get_loops demo_pool = [10, 11, 12]"
    and k: "tp_next demo_pool = 2"
    by (simp_all add: pool_ok_def demo_pool_def get_loops_def)
  have "rotate 2 [10, 11, 12 :: nat] = [12, 10, 11]" by (simp add: rotate_def numeral_2_eq_2)
  then have "concat (replicate 2 (rotate 2 [10, 11, 12 :: nat])) = [12, 10, 11, 12, 10, 11]"
    by (simp add: numeral_2_eq_2)
  with round_robin [OF ok, of 2] show ?thesis
    unfolding loops k by (simp del: next_loops.simps)
qed

subsection \<open>The table of connections\<close>

text \<open>
  The name of a connection ends with its number, as long as the address, the number sign and the
  number fit in the 63 characters \<open>snprintf\<close> leaves.
\<close>

definition name_fits :: "tcp_server \<Rightarrow> bool" where
  "name_fits sv \<longleftrightarrow> length (sv_ip_port sv) + length (decimal (sv_next_connection_id sv)) < 63"

lemma conn_name_whole:
  "name_fits sv \<Longrightarrow>
     conn_name sv = sv_name sv @ sv_ip_port sv @ ''#'' @ decimal (sv_next_connection_id sv)"
  by (simp add: name_fits_def conn_name_def)

text \<open>
  One entry per name; each name leads to an object that has been made and bears it. All the
  connections ever made have names of their own, with numbers already given out.
\<close>

definition made_name :: "tcp_server \<Rightarrow> string \<Rightarrow> bool" where
  "made_name sv n \<longleftrightarrow>
     (\<exists>i < sv_next_connection_id sv. n = sv_name sv @ sv_ip_port sv @ ''#'' @ decimal i)"

definition table_ok :: "('k, 'z) sstate_scheme \<Rightarrow> bool" where
  "table_ok s \<longleftrightarrow>
     distinct (map fst (sv_connections (server s))) \<and>
     (\<forall>(n, c) \<in> set (sv_connections (server s)). c < fresh_conn s \<and> tc_name (conns s c) = n) \<and>
     inj_on (\<lambda>c. tc_name (conns s c)) {..<fresh_conn s} \<and>
     (\<forall>c < fresh_conn s. made_name (server s) (tc_name (conns s c)))"

definition live_conns :: "('k, 'z) sstate_scheme \<Rightarrow> conn set" where
  "live_conns s = snd ` set (sv_connections (server s))"

lemma conn_name_new: "name_fits sv \<Longrightarrow> \<not> made_name sv (conn_name sv)"
  by (auto simp: made_name_def conn_name_whole)

lemma table_ok_name_new:
  assumes "table_ok s" "name_fits (server s)"
  shows "map_of (sv_connections (server s)) (conn_name (server s)) = None"
proof (rule ccontr)
  assume "\<not> ?thesis"
  then obtain c where "(conn_name (server s), c) \<in> set (sv_connections (server s))"
    by (auto dest: map_of_SomeD)
  with assms conn_name_new [OF assms(2)] show False by (fastforce simp: table_ok_def)
qed

lemma table_ok_live:
  assumes "table_ok s"
  shows "map_of (sv_connections (server s)) (tc_name (conns s c)) = Some c \<longleftrightarrow> c \<in> live_conns s"
      "c \<in> live_conns s \<Longrightarrow> c < fresh_conn s"
  using assms by (force simp: table_ok_def live_conns_def)+

text \<open>What \<open>NewConnection\<close> builds before it hands the connection to its loop.\<close>

definition new_conn :: "loop \<Rightarrow> fd \<Rightarrow> sockaddr_in \<Rightarrow> sockaddr_in \<Rightarrow> chan \<Rightarrow> tcp_server \<Rightarrow> tcp_connection" where
  "new_conn l fd local peer ch sv =
     \<lparr>tc_loop = l, tc_name = conn_name sv, tc_state = kConnecting, tc_reading = True, tc_fd = fd,
      tc_channel = ch, tc_local_addr = local, tc_peer_addr = peer,
      tc_conn_cb = sv_connection_cb sv, tc_msg_cb = sv_message_cb sv,
      tc_write_complete_cb = sv_write_complete_cb sv, tc_high_water_mark_cb = None,
      tc_close_cb = Some FnRemoveConnection, tc_high_water_mark = high_water_mark_default,
      tc_input = Buffer kInitialSize, tc_output = Buffer kInitialSize\<rparr>"

definition local_addr_of :: "'k os \<Rightarrow> fd \<Rightarrow> 'k \<Rightarrow> sockaddr_in" where
  "local_addr_of os fd k = (case fst (sys_getsockname os fd k) of Inr a \<Rightarrow> a | Inl e \<Rightarrow> no_addr)"

lemma upper_server [simp]:
  fixes s :: "('k, 'z) sstate_scheme"
  shows "server (upd_chan ch f s) = server s" "pool (upd_chan ch f s) = pool s"
    "fresh_conn (upd_chan ch f s) = fresh_conn s"
    "server (upd_conn c g s) = server s" "pool (upd_conn c g s) = pool s"
    "fresh_conn (upd_conn c g s) = fresh_conn s"
    "server (upd_loop l h s) = server s" "pool (upd_loop l h s) = pool s"
    "fresh_conn (upd_loop l h s) = fresh_conn s"
    "fresh_chan (upd_chan ch f s) = fresh_chan s"
    "the_acceptor (upd_chan ch f s) = the_acceptor s" "the_acceptor (upd_conn c g s) = the_acceptor s"
    "the_acceptor (upd_loop l h s) = the_acceptor s" "the_acceptor (upd_server k s) = the_acceptor s"
  by (simp_all add: upd_chan_def upd_conn_def upd_loop_def upd_server_def)

lemma QueueInLoop_server [simp]:
  fixes s :: "('k, 'z) sstate_scheme"
  shows "server (QueueInLoop os t l f s) = server s" "pool (QueueInLoop os t l f s) = pool s"
    "fresh_conn (QueueInLoop os t l f s) = fresh_conn s" "the_acceptor (QueueInLoop os t l f s) = the_acceptor s"
    "fresh_chan (QueueInLoop os t l f s) = fresh_chan s"
  by (simp_all add: QueueInLoop_def WakeUp_def Let_def)

lemma NewConnection_runs:
  fixes s :: "('k, 'z) sstate_scheme"
  assumes pool: "pool_ok (pool s)"
    and other: "\<not> IsInLoopThread t (get_loops (pool s) ! tp_next (pool s)) s"
  defines "l \<equiv> get_loops (pool s) ! tp_next (pool s)" and "c \<equiv> fresh_conn s" and "ch \<equiv> fresh_chan s"
  obtains s' where "NewConnection os call t fd addr s = Inr s'"
    "server s' = (server s)\<lparr>sv_next_connection_id := sv_next_connection_id (server s) + 1,
       sv_connections := AList.update (conn_name (server s)) c (sv_connections (server s))\<rparr>"
    "conns s' = (conns s)(c := new_conn l fd (local_addr_of os fd (kern s)) addr ch (server s))"
    "chans s' = (chans s)(ch := (Channel l fd)
       \<lparr>ch_read_cb := Some (ConnHandleRead c), ch_write_cb := Some (ConnHandleWrite c),
        ch_close_cb := Some (ConnHandleClose c), ch_error_cb := Some (ConnHandleError c)\<rparr>)"
    "evloops s' = (evloops s)(l := push_pending (BindConnectionEstablished c) (evloops s l))"
    "pool s' = (pool s)\<lparr>tp_next := (tp_next (pool s) + 1) mod length (get_loops (pool s))\<rparr>"
    "fresh_conn s' = c + 1" "pollers s' = pollers s" "fresh_chan s' = ch + 1" "the_acceptor s' = the_acceptor s"
proof -
  obtain r k' where gs: "sys_getsockname os fd (kern s) = (r, k')" by fastforce
  have other': "\<not> el_thread_id (evloops s l) = t" using other by (simp add: IsInLoopThread_def l_def)
  show thesis
    by (rule that,
        simp add: NewConnection_def get_next_loop_ok [OF pool] Let_def gs TcpConnection_ctor_def
          CheckLoopNotNull_def RunInLoop_def IsInLoopThread_def other' [unfolded l_def])
       (simp_all add: l_def c_def ch_def new_conn_def local_addr_of_def gs conn_name_def
          split: sum.split)
qed

subsection \<open>Accepting and removing\<close>

lemma update_new:
  assumes "map_of m k = None"
  shows "AList.update k v m = m @ [(k, v)]"
  using assms by (induction m) (auto split: if_splits)

lemma NewConnection_table:
  fixes s :: "('k, 'z) sstate_scheme"
  assumes ok: "table_ok s" and fits: "name_fits (server s)" and c: "c = fresh_conn s"
    and sv: "server s' = (server s)\<lparr>sv_next_connection_id := sv_next_connection_id (server s) + 1,
       sv_connections := AList.update (conn_name (server s)) c (sv_connections (server s))\<rparr>"
    and cn: "conns s' = (conns s)(c := tc)" "tc_name tc = conn_name (server s)"
    and fc: "fresh_conn s' = c + 1"
  shows "table_ok s'" "live_conns s' = insert c (live_conns s)"
proof -
  let ?n = "conn_name (server s)"
  have upd: "sv_connections (server s') = sv_connections (server s) @ [(?n, c)]"
    by (simp add: sv update_new [OF table_ok_name_new [OF ok fits]])
  show "live_conns s' = insert c (live_conns s)" by (simp add: live_conns_def upd)
  have fresh: "?n \<notin> fst ` set (sv_connections (server s))"
    using table_ok_name_new [OF ok fits] by (simp add: map_of_eq_None_iff)
  have made: "made_name (server s) n \<Longrightarrow> made_name (server s') n" for n
    by (auto simp: made_name_def sv intro: less_SucI)
  have "made_name (server s') ?n" by (auto simp: made_name_def sv conn_name_whole [OF fits])
  moreover have old: "tc_name (conns s d) \<noteq> ?n" if "d < c" for d
    using ok that conn_name_new [OF fits] by (auto simp: table_ok_def c)
  have "inj_on (\<lambda>d. tc_name (conns s' d)) {..<c + 1}"
    using ok old by (auto simp: table_ok_def c [symmetric] cn inj_on_def less_Suc_eq)
      (metis lessThan_iff)+
  ultimately show "table_ok s'"
    using ok fresh made by (auto simp: table_ok_def upd fc cn c [symmetric] less_Suc_eq)
qed

lemma RemoveConnectionInLoop_table:
  fixes s :: "('k, 'z) sstate_scheme" and c :: conn and os :: "'k os" and t :: tid
  assumes ok: "table_ok s"
  defines "s' \<equiv> RemoveConnectionInLoop os t c s"
  shows "c < fresh_conn s \<Longrightarrow> live_conns s' = live_conns s - {c}" "table_ok s'"
    "sv_next_connection_id (server s') = sv_next_connection_id (server s)"
    "sv_ip_port (server s') = sv_ip_port (server s)"
    "pool s' = pool s" "fresh_conn s' = fresh_conn s"
    "el_thread_id (evloops s' l) = el_thread_id (evloops s l)"
proof -
  let ?m = "sv_connections (server s)"
  have m: "sv_connections (server s') = AList.delete (tc_name (conns s c)) ?m"
    by (simp add: s'_def RemoveConnectionInLoop_def Let_def)
  have same: "conns s' = conns s" "fresh_conn s' = fresh_conn s" "made_name (server s') = made_name (server s)"
    by (simp_all add: s'_def RemoveConnectionInLoop_def Let_def made_name_def fun_eq_iff)
  have sub: "set (AList.delete k ?m) = {p \<in> set ?m. fst p \<noteq> k}" for k
    by (auto simp: AList.delete_eq)
  show "table_ok s'"
    using ok unfolding table_ok_def m same sub by (simp add: distinct_delete)
  show "live_conns s' = live_conns s - {c}" if "c < fresh_conn s"
  proof -
    have "n = tc_name (conns s c) \<longleftrightarrow> d = c" if "(n, d) \<in> set ?m" for n d
      using ok that \<open>c < fresh_conn s\<close> by (fastforce simp: table_ok_def inj_on_def)
    then show ?thesis unfolding live_conns_def m sub by force
  qed
qed (simp_all add: s'_def RemoveConnectionInLoop_def Let_def push_pending_def)

datatype server_event = Accepted fd sockaddr_in | Removed conn

fun run_server ::
  "'k os \<Rightarrow> (conn_fn \<Rightarrow> conn \<Rightarrow> ('k, 'z) sstate_scheme \<Rightarrow> ('k, 'z) sstate_scheme res) \<Rightarrow> tid \<Rightarrow>
   server_event list \<Rightarrow> ('k, 'z) sstate_scheme \<Rightarrow> ('k, 'z) sstate_scheme res" where
  "run_server os call t [] s = Inr s"
| "run_server os call t (Accepted fd addr # evs) s =
     bind_res (NewConnection os call t fd addr s) (run_server os call t evs)"
| "run_server os call t (Removed c # evs) s =
     run_server os call t evs (RemoveConnectionInLoop os t c s)"

text \<open>The abstract server: the next connection's identity and the set of those in service.\<close>

fun serve :: "server_event \<Rightarrow> conn \<times> conn set \<Rightarrow> conn \<times> conn set" where
  "serve (Accepted fd addr) (n, L) = (n + 1, insert n L)"
| "serve (Removed c) (n, L) = (n, L - {c})"

definition accepted :: "server_event list \<Rightarrow> nat" where
  "accepted evs = length (filter (\<lambda>e. case e of Accepted fd addr \<Rightarrow> True | Removed c \<Rightarrow> False) evs)"

lemma accepted_simps [simp]:
  "accepted [] = 0" "accepted (Accepted fd addr # evs) = Suc (accepted evs)"
  "accepted (Removed c # evs) = accepted evs"
  by (simp_all add: accepted_def)

text \<open>Only connections that have been accepted can be removed.\<close>

fun only_made :: "conn \<Rightarrow> server_event list \<Rightarrow> bool" where
  "only_made n [] = True"
| "only_made n (Accepted fd addr # evs) = only_made (n + 1) evs"
| "only_made n (Removed c # evs) = (c < n \<and> only_made n evs)"

lemma length_decimal_mono: "m \<le> n \<Longrightarrow> length (decimal m) \<le> length (decimal n)"
proof (induction n arbitrary: m rule: decimal.induct)
  case (1 n)
  show ?case
  proof (cases "n < 10")
    case True
    with 1(2) show ?thesis by (subst (1 2) decimal.simps) simp
  next
    case False
    have "length (decimal (m div 10)) \<le> length (decimal (n div 10))"
      by (rule 1(1) [OF False]) (rule div_le_mono [OF 1(2)])
    with False show ?thesis by (subst (1 2) decimal.simps) simp
  qed
qed

text \<open>
  The server's thread runs no loop of the pool, and all the numbers of a history fit.
\<close>

definition serving :: "tid \<Rightarrow> nat \<Rightarrow> ('k, 'z) sstate_scheme \<Rightarrow> bool" where
  "serving t n s \<longleftrightarrow>
     table_ok s \<and> pool_ok (pool s) \<and> (\<forall>l \<in> set (get_loops (pool s)). \<not> IsInLoopThread t l s) \<and>
     length (sv_ip_port (server s)) + length (decimal (sv_next_connection_id (server s) + n)) < 63"

lemma NewConnection_serving:
  fixes s :: "('k, 'z) sstate_scheme"
  assumes "serving t (Suc n) s"
  obtains s' where "NewConnection os call t fd addr s = Inr s'" "serving t n s'"
    "fresh_conn s' = fresh_conn s + 1" "live_conns s' = insert (fresh_conn s) (live_conns s)"
proof -
  let ?l = "get_loops (pool s) ! tp_next (pool s)"
  have ok: "table_ok s" "pool_ok (pool s)" and other: "\<forall>l \<in> set (get_loops (pool s)). \<not> IsInLoopThread t l s"
    using assms by (simp_all add: serving_def)
  have fits: "name_fits (server s)"
    using assms length_decimal_mono [of "sv_next_connection_id (server s)"
        "sv_next_connection_id (server s) + Suc n"]
    unfolding serving_def name_fits_def by linarith
  have "tp_next (pool s) < length (get_loops (pool s))"
    using ok(2) by (auto simp: pool_ok_def get_loops_def split: if_splits)
  then have "\<not> IsInLoopThread t ?l s" using other by simp
  from NewConnection_runs [OF ok(2) this, of os call fd addr] obtain s' where
    run: "NewConnection os call t fd addr s = Inr s'"
    and sv: "server s' = (server s)\<lparr>sv_next_connection_id := sv_next_connection_id (server s) + 1,
       sv_connections := AList.update (conn_name (server s)) (fresh_conn s) (sv_connections (server s))\<rparr>"
    and cn: "conns s' = (conns s)(fresh_conn s := new_conn ?l fd (local_addr_of os fd (kern s)) addr
                 (fresh_chan s) (server s))"
    and el: "evloops s' = (evloops s)(?l := push_pending (BindConnectionEstablished (fresh_conn s)) (evloops s ?l))"
    and tp: "pool s' = (pool s)\<lparr>tp_next := (tp_next (pool s) + 1) mod length (get_loops (pool s))\<rparr>"
    and fc: "fresh_conn s' = fresh_conn s + 1" by metis
  note table = NewConnection_table [OF ok(1) fits refl sv cn _ fc]
  have "serving t n s'"
    using assms table(1) pool_ok_next [OF ok(2), of "tp_next (pool s) + 1"]
    by (simp add: serving_def sv tp IsInLoopThread_def el push_pending_def new_conn_def)
  with run fc table(2) show thesis by (intro that) (simp_all add: new_conn_def)
qed

lemma RemoveConnectionInLoop_serving:
  fixes s :: "('k, 'z) sstate_scheme"
  assumes "serving t n s"
  shows "serving t n (RemoveConnectionInLoop os t' c s)"
  using assms RemoveConnectionInLoop_table [where s = s and t = t' and os = os and c = c]
  by (simp add: serving_def IsInLoopThread_def)

text \<open>C10. Over any history of accepted descriptors and removals the table of the server is the set of
  the connections accepted and not removed, each under a name of its own; accepting never
  fails, and a number once given to a connection is not given to another.\<close>

theorem server_history:
  fixes s :: "('k, 'z) sstate_scheme"
  assumes "serving t (accepted evs) s" "only_made (fresh_conn s) evs"
  shows "\<exists>s'. run_server os call t evs s = Inr s' \<and> table_ok s' \<and>
    (fresh_conn s', live_conns s') = fold serve evs (fresh_conn s, live_conns s)"
  using assms
proof (induction evs arbitrary: s)
  case Nil
  then show ?case by (simp add: serving_def)
next
  case (Cons e evs)
  show ?case
  proof (cases e)
    case (Accepted fd addr)
    with Cons.prems(1) have "serving t (Suc (accepted evs)) s" by simp
    then obtain s1 where "NewConnection os call t fd addr s = Inr s1"
      "serving t (accepted evs) s1" "fresh_conn s1 = fresh_conn s + 1"
      "live_conns s1 = insert (fresh_conn s) (live_conns s)"
      by (rule NewConnection_serving)
    with Cons.IH [of s1] Cons.prems(2) Accepted show ?thesis by simp
  next
    case (Removed c)
    let ?s = "RemoveConnectionInLoop os t c s"
    have "table_ok s" "c < fresh_conn s" using Cons.prems Removed by (auto simp: serving_def)
    with RemoveConnectionInLoop_table [where s = s and t = t and os = os and c = c]
    have "live_conns ?s = live_conns s - {c}" "fresh_conn ?s = fresh_conn s" by simp_all
    with Cons.IH [of ?s] RemoveConnectionInLoop_serving [of t "accepted evs" s os t c] Cons.prems Removed
    show ?thesis by auto
  qed
qed

subsection \<open>A server to try things on\<close>

text \<open>The server of \<open>main\<close> in loop 9 and thread 1, with three I/O loops of their own threads.\<close>

definition demo_server :: "demo sstate" where
  "demo_server =
     \<lparr>kern = demo_kernel 100, chans = (\<lambda>_. Channel 9 0),
      pollers = (\<lambda>l. \<lparr>epoll_fd = int l + 100, p_channels = Map.empty, events_size = 16\<rparr>),
      evloops = (\<lambda>l. \<lparr>el_looping = True, el_quit = False, el_calling = False,
        el_thread_id = (if l = 9 then 1 else int l), el_return_time = 0, el_wakeup_fd = -1,
        el_wakeup_channel = 0, el_active = [], el_pending = []\<rparr>),
      thread_loop = [1 \<mapsto> 9], fresh_loop = 13, fresh_chan = 5, fresh_tid = 20,
      conns = (\<lambda>_. new_conn 9 0 no_addr no_addr 0 undefined),
      server = \<lparr>sv_loop = 9, sv_ip_port = ''127.0.0.1:12345'', sv_name = ''server#0'',
        sv_connection_cb = Some FnOnConnection, sv_message_cb = Some FnReadCb,
        sv_write_complete_cb = None, sv_started = 1, sv_next_connection_id = 1,
        sv_connections = []\<rparr>,
      the_acceptor = \<lparr>ac_loop = 9, ac_fd = 4, ac_channel = 4, ac_new_cb = Some FnNewConnection,
        ac_listenning = True\<rparr>,
      pool = demo_pool, fresh_conn = 0\<rparr>"

lemma demo_serving: "n \<le> 90 \<Longrightarrow> serving 1 n demo_server"
proof -
  assume "n \<le> 90"
  then have "length (decimal (1 + n)) \<le> length (decimal 91)" by (intro length_decimal_mono) simp
  also have "\<dots> = 2" by (simp add: decimal.simps)
  finally show ?thesis
    by (simp add: serving_def demo_server_def table_ok_def pool_ok_def demo_pool_def get_loops_def
        IsInLoopThread_def)
qed

theorem server_history_witness:
  "\<exists>s'. run_server demo_os (\<lambda>f c s. Inr s) 1 [Accepted 20 no_addr, Accepted 21 no_addr, Removed 0] demo_server = Inr s' \<and>
     live_conns s' = {1} \<and> fresh_conn s' = 2"
proof -
  let ?evs = "[Accepted 20 no_addr, Accepted 21 no_addr, Removed 0]"
  have "serving 1 (accepted ?evs) demo_server" by (rule demo_serving) simp
  moreover have start: "fresh_conn demo_server = 0" "live_conns demo_server = {}"
    by (simp_all add: demo_server_def live_conns_def)
  ultimately show ?thesis
    using server_history [of 1 ?evs demo_server demo_os "\<lambda>f c s. Inr s"]
    by auto
qed

subsection \<open>One connection\<close>

text \<open>An accepted descriptor becomes a connection that is connecting, on the loop whose turn it is,
  with the server's callbacks; the loop is told to establish it, and no other loop and no other
  connection changes. Removing it again leaves the table as it was and tells the same loop, after
  that, to destroy it.\<close>

theorem accept_then_remove:
  fixes s :: "('k, 'z) sstate_scheme"
  assumes up: "serving t 1 s" and run: "NewConnection os call t fd addr s = Inr s1"
  defines "c \<equiv> fresh_conn s" and "l \<equiv> get_loops (pool s) ! tp_next (pool s)"
  shows "conns s1 = (conns s)(c := new_conn l fd (local_addr_of os fd (kern s)) addr (fresh_chan s) (server s)) \<and>
    evloops s1 = (evloops s)(l := push_pending (BindConnectionEstablished c) (evloops s l)) \<and>
    map_of (sv_connections (server s1)) = (map_of (sv_connections (server s)))(conn_name (server s) \<mapsto> c) \<and>
    (let s2 = RemoveConnectionInLoop os t c s1
     in map_of (sv_connections (server s2)) = map_of (sv_connections (server s)) \<and>
        evloops s2 = (evloops s)(l := push_pending (BindConnectDestroyed c)
                                    (push_pending (BindConnectionEstablished c) (evloops s l))))"
proof -
  have ok: "table_ok s" "pool_ok (pool s)" and other: "\<forall>l \<in> set (get_loops (pool s)). \<not> IsInLoopThread t l s"
    using up by (simp_all add: serving_def)
  have fits: "name_fits (server s)"
    using up length_decimal_mono [of "sv_next_connection_id (server s)"
        "sv_next_connection_id (server s) + 1"]
    unfolding serving_def name_fits_def by linarith
  have "tp_next (pool s) < length (get_loops (pool s))"
    using ok(2) by (auto simp: pool_ok_def get_loops_def split: if_splits)
  then have "\<not> IsInLoopThread t l s" using other by (simp add: l_def)
  from NewConnection_runs [OF ok(2) this [unfolded l_def], of os call fd addr]
  have state: "server s1 = (server s)\<lparr>sv_next_connection_id := sv_next_connection_id (server s) + 1,
       sv_connections := AList.update (conn_name (server s)) c (sv_connections (server s))\<rparr>"
    "conns s1 = (conns s)(c := new_conn l fd (local_addr_of os fd (kern s)) addr (fresh_chan s) (server s))"
    "evloops s1 = (evloops s)(l := push_pending (BindConnectionEstablished c) (evloops s l))"
    using run unfolding c_def l_def by (metis sum.inject(2))+
  have "map_of (sv_connections (server (RemoveConnectionInLoop os t c s1))) = map_of (sv_connections (server s))"
    using al.insert_then_erase [OF table_ok_name_new [OF ok(1) fits], of c]
    by (simp add: RemoveConnectionInLoop_def Let_def state new_conn_def)
  moreover have "evloops (RemoveConnectionInLoop os t c s1) =
      (evloops s)(l := push_pending (BindConnectDestroyed c)
                         (push_pending (BindConnectionEstablished c) (evloops s l)))"
    by (simp add: RemoveConnectionInLoop_def Let_def state new_conn_def)
  ultimately show ?thesis by (simp add: state al.lookup_insert Let_def)
qed

theorem accept_then_remove_witness:
  "\<exists>s1. NewConnection demo_os (\<lambda>f c s. Inr s) 1 20 no_addr demo_server = Inr s1 \<and>
     tc_loop (conns s1 0) = 12 \<and> el_pending (evloops s1 12) = [BindConnectionEstablished 0] \<and>
     map_of (sv_connections (server (RemoveConnectionInLoop demo_os 1 0 s1))) = Map.empty"
proof -
  have up: "serving 1 1 demo_server" by (rule demo_serving) simp
  then obtain s1 where run: "NewConnection demo_os (\<lambda>f c s. Inr s) 1 20 no_addr demo_server = Inr s1"
    using NewConnection_serving [of 1 0 demo_server] by (metis One_nat_def)
  have vals: "fresh_conn demo_server = 0" "get_loops (pool demo_server) ! tp_next (pool demo_server) = 12"
    "sv_connections (server demo_server) = []" "el_pending (evloops demo_server 12) = []"
    by (simp_all add: demo_server_def demo_pool_def get_loops_def)
  from accept_then_remove [OF up run] run show ?thesis
    by (simp add: vals Let_def push_pending_def new_conn_def)
qed

end
