(* ===== verification/Teardown.thy ===== *)
theory Teardown
  imports World ChatCorrect
begin

text \<open>
  The way of a connection out of the program, through all its layers: the I/O loop sees the end
  of the stream, the room forgets the user and tells the others, the server's loop takes the
  connection out of its table, the I/O loop destroys it. And the one functor that can end the
  process: the notification of the high-water mark.
\<close>

subsection \<open>Leaving the room\<close>

lemma pool_upd_chat [simp]: "pool (upd_chat f s) = pool s"
  by (simp add: upd_chat_def)

lemma QueueInLoop_world [simp]:
  fixes s :: "('k, 'z) world_scheme"
  shows "chat (QueueInLoop os t l f s) = chat s" "server (QueueInLoop os t l f s) = server s"
  by (rule world_more [OF QueueInLoop_conns(2)])+

lemma chat_upd_server [simp]: "chat (upd_server f s) = chat s"
  by (simp add: upd_server_def)

lemma UserExit_run:
  assumes ok: "chat_ok (chat s)"
  shows "UserExit os t c s =
    (if name_of c (chat s) \<noteq> []
     then bind_res (foldR (\<lambda>d. Send os t d (char22 # name_of c (chat s)))
            (filter (\<lambda>d. d \<noteq> c) (map snd (name_conn_map (chat s)))) s)
          (\<lambda>s1. Inr (upd_chat (\<lambda>r. r\<lparr>name_conn_map := AList.delete (name_of c (chat s)) (name_conn_map r),
                                      conn_name_map := AList.delete c (conn_name_map r)\<rparr>) s1))
     else Inr (upd_chat (\<lambda>r. r\<lparr>conn_name_map := AList.delete c (conn_name_map r)\<rparr>)
                 (upd_chat (touched c) s)))"
  using chat_ok_source(1) [OF ok]
  by (simp add: UserExit_def index_conn_name_touched registered_upd_chat BroadcastNoSelf_sends)

text \<open>What an exit does beyond the maps: connection \<open>d\<close> gets one announcement if it is another user's.\<close>

definition bereaved ::
  "'k os \<Rightarrow> ('k \<Rightarrow> fd \<Rightarrow> string) \<Rightarrow> tid \<Rightarrow> conn \<Rightarrow> conn \<Rightarrow> ('k, 'z) world_scheme \<Rightarrow> ('k, 'z) world_scheme \<Rightarrow> bool" where
  "bereaved os wire t c d s s' \<longleftrightarrow>
     (if name_of c (chat s) \<noteq> [] \<and> d \<noteq> c \<and> d \<in> snd ` set (name_conn_map (chat s))
      then posted os wire t (char22 # name_of c (chat s)) d s s' else untouched wire d s s')"

lemma UserExit_mail:
  assumes room: "room_ok os wire interest D c s"
  shows "(\<exists>s'. UserExit os t c s = Inr s' \<and> mail_ok interest D s' \<and> server s' = server s \<and> pool s' = pool s \<and>
      (\<forall>d. tc_state (conns s' d) = tc_state (conns s d) \<and> tc_loop (conns s' d) = tc_loop (conns s d) \<and>
         tc_name (conns s' d) = tc_name (conns s d) \<and> tc_fd (conns s' d) = tc_fd (conns s d) \<and>
         tc_close_cb (conns s' d) = tc_close_cb (conns s d)) \<and>
      (\<forall>l. el_thread_id (evloops s' l) = el_thread_id (evloops s l)) \<and>
      (\<forall>d \<in> D. bereaved os wire t c d s s')) \<or>
    UserExit os t c s = Inl HeapOverrun \<and>
      (\<exists>d \<in> snd ` set (name_conn_map (chat s)) - {c}. overflows t (char22 # name_of c (chat s)) d s)"
proof (cases "name_of c (chat s) = []")
  case True
  then show ?thesis
    using room_okD(3) [OF room]
    by (simp add: UserExit_run [OF room_okD(2) [OF room]] mail_ok_upd_chat bereaved_def untouched_def)
next
  case False
  note r = room_okD [OF room]
  let ?ds = "filter (\<lambda>d. d \<noteq> c) (map snd (name_conn_map (chat s)))"
  have ds: "set ?ds \<subseteq> D" "distinct ?ds" using r(4) chat_ok_recipients [OF r(2)] by auto
  from Send_all [OF r(1,3) ds, of t "char22 # name_of c (chat s)"] show ?thesis
  proof (elim disjE exE conjE)
    fix s1 assume s1: "foldR (\<lambda>d. Send os t d (char22 # name_of c (chat s))) ?ds s = Inr s1"
      "mail_ok interest D s1" "same_status s s1"
      "\<forall>d\<in>D. if d \<in> set ?ds then posted os wire t (char22 # name_of c (chat s)) d s s1 else untouched wire d s s1"
    have "cstate.more s1 = cstate.more s" using s1(3) by (simp add: same_status_def)
    then have "server s1 = server s" "pool s1 = pool s" by (cases s, cases s1, simp)+
    then show ?thesis
      using s1 False
      by (simp add: UserExit_run [OF r(2)] mail_ok_upd_chat bereaved_def same_status_def)
  next
    assume "foldR (\<lambda>d. Send os t d (char22 # name_of c (chat s))) ?ds s = Inl HeapOverrun"
      "\<exists>d \<in> set ?ds. overflows t (char22 # name_of c (chat s)) d s"
    with False show ?thesis by (auto simp: UserExit_run [OF r(2)])
  qed
qed

subsection \<open>The four steps\<close>

text \<open>A connection in service whose callbacks are those the server gave it, closed in thread \<open>t\<close>.\<close>

definition in_service :: "tid \<Rightarrow> conn \<Rightarrow> ('k, 'z) world_scheme \<Rightarrow> bool" where
  "in_service t c s \<longleftrightarrow>
     tc_conn_cb (conns s c) = Some FnOnConnection \<and> tc_close_cb (conns s c) = Some FnRemoveConnection \<and>
     ch_index (conn_channel s c) = kAdded \<and> \<not> IsInLoopThread t (sv_loop (server s)) s"

lemma UserExit_forgets:
  assumes "UserExit os t c s = Inr s'" "chat_ok (chat s)"
  shows "chat_ok (chat s')" "map_of (conn_name_map (chat s')) c = None"
    "map_of (name_conn_map (chat s')) n \<noteq> Some c"
proof -
  show ok: "chat_ok (chat s')" by (rule UserExit_chat_ok [OF assms])
  show none: "map_of (conn_name_map (chat s')) c = None"
    using UserExit_cases [OF assms(1)] by (auto simp: delete_conv')
  show "map_of (name_conn_map (chat s')) n \<noteq> Some c"
    using mutualD(1) [of "[]" "map_of (name_conn_map (chat s'))" "map_of (conn_name_map (chat s'))" n c]
      ok none by (auto simp: chat_ok_def)
qed

lemma bereaved_from:
  assumes "untouched wire d s s1" "bereaved os wire t c d s1 s2" "chat s1 = chat s"
    and "d \<noteq> c \<longrightarrow> conns s1 d = conns s d" "evloops s1 = evloops s"
  shows "bereaved os wire t c d s s2"
proof -
  have "lost os wire msg d s1 = lost os wire msg d s" if "d \<noteq> c" for msg
    using assms(1,4) that by (simp add: lost_def untouched_def stream_def)
  with assms show ?thesis
    by (auto simp: bereaved_def posted_def untouched_def IsInLoopThread_def split: if_splits)
qed

lemma bereaved_then:
  "bereaved os wire t c d s s1 \<Longrightarrow> untouched wire d s1 s2 \<Longrightarrow> bereaved os wire t c d s s2"
  unfolding bereaved_def by (metis (full_types) posted_then untouched_trans)

text \<open>The first half of \<open>HandleClose\<close>: the descriptor is no longer watched, and the user's callback is due.\<close>

lemma close_begun:
  assumes room: "room_ok os wire interest D c s" and serv: "in_service t c s"
  obtains s1 where "HandleClose os (call_conn os t) c s = bind_res (UserExit os t c s1)
      (\<lambda>s2. call_conn_fn (call_conn os t) (tc_close_cb (conns s2 c)) c s2)"
    "conns s1 = (conns s)(c := (conns s c)\<lparr>tc_state := kDisconnected\<rparr>)" "evloops s1 = evloops s"
    "cstate.more s1 = cstate.more s" "room_ok os wire interest D c s1" "\<And>d. d \<in> D \<Longrightarrow> untouched wire d s s1"
proof -
  note r = room_okD [OF room]
  have net: "net_ok interest s" and ready: "conn_ready c s" using r(3,5) by (simp_all add: mail_ok_def)
  obtain s1 where s1: "HandleClose os (call_conn os t) c s =
        bind_res (call_conn_fn (call_conn os t) (tc_conn_cb (conns s c)) c s1)
          (\<lambda>s2. call_conn_fn (call_conn os t) (tc_close_cb (conns s2 c)) c s2)"
    "conns s1 = (conns s)(c := (conns s c)\<lparr>tc_state := kDisconnected\<rparr>)"
    "net_ok interest s1" "conn_ready c s1" "evloops s1 = evloops s"
    "send_frame wire c (set_state kDisconnected c s) s1" "stream wire c s1 = stream wire c s"
    by (rule HandleClose_first [OF r(1) net ready]) (use serv in \<open>simp_all add: in_service_def\<close>)
  have mail1: "mail_ok interest D s1"
    by (rule mail_ok_frame [OF state_mail(1) [OF r(3)] r(5) s1(6,3,4)])
  have more: "cstate.more s1 = cstate.more s" using s1(6) by (simp add: send_frame_def set_state_def)
  note same = world_more [OF more]
  have room1: "room_ok os wire interest D c s1" using room mail1 by (simp add: room_ok_def same)
  have untouched1: "untouched wire d s s1" if "d \<in> D" for d
  proof (cases "d = c")
    case True
    then show ?thesis using s1(7) by (simp add: untouched_def waiting_def s1(2,5))
  next
    case False
    have "stream wire d s1 = stream wire d (set_state kDisconnected c s)"
      using stream_other [OF s1(6), of d] False that r(3,5) state_mail(1) [OF r(3), of kDisconnected c]
      by (auto simp: mail_ok_def)
    with False show ?thesis by (simp add: untouched_def waiting_def stream_def set_state_def s1(2,5))
  qed
  have "HandleClose os (call_conn os t) c s = bind_res (UserExit os t c s1)
      (\<lambda>s2. call_conn_fn (call_conn os t) (tc_close_cb (conns s2 c)) c s2)"
    using serv s1(2) by (simp add: s1(1) in_service_def call_conn_fn_def call_conn_def OnConnection_def IsConnected_def)
  from that [OF this s1(2,5) more room1 untouched1] show thesis .
qed

lemma close_room:
  assumes room: "room_ok os wire interest D c s" and serv: "in_service t c s"
  shows "(\<exists>s1. HandleClose os (call_conn os t) c s = Inr s1 \<and> mail_ok interest D s1 \<and>
       server s1 = server s \<and> tc_state (conns s1 c) = kDisconnected \<and>
       tc_loop (conns s1 c) = tc_loop (conns s c) \<and> tc_fd (conns s1 c) = tc_fd (conns s c) \<and>
       last (el_pending (evloops s1 (sv_loop (server s)))) = BindRemoveConnectionInLoop c \<and>
       chat_ok (chat s1) \<and> map_of (conn_name_map (chat s1)) c = None \<and>
       (\<forall>n. map_of (name_conn_map (chat s1)) n \<noteq> Some c) \<and>
       (\<forall>d \<in> D. bereaved os wire t c d s s1)) \<or>
    HandleClose os (call_conn os t) c s = Inl HeapOverrun \<and>
      (\<exists>d \<in> snd ` set (name_conn_map (chat s)) - {c}. overflows t (char22 # name_of c (chat s)) d s)"
proof -
  note r = room_okD [OF room]
  obtain s1 where close: "HandleClose os (call_conn os t) c s = bind_res (UserExit os t c s1)
      (\<lambda>s2. call_conn_fn (call_conn os t) (tc_close_cb (conns s2 c)) c s2)"
    and s1: "conns s1 = (conns s)(c := (conns s c)\<lparr>tc_state := kDisconnected\<rparr>)" "evloops s1 = evloops s"
      "cstate.more s1 = cstate.more s"
    and room1: "room_ok os wire interest D c s1" and untouched1: "\<And>d. d \<in> D \<Longrightarrow> untouched wire d s s1"
    using close_begun [OF room serv] by blast
  note same = world_more [OF s1(3)]
  from UserExit_mail [OF room1, of t] show ?thesis
  proof (elim disjE exE conjE)
    fix s2 assume s2: "UserExit os t c s1 = Inr s2" "mail_ok interest D s2" "server s2 = server s1"
      "\<forall>d. tc_state (conns s2 d) = tc_state (conns s1 d) \<and> tc_loop (conns s2 d) = tc_loop (conns s1 d) \<and>
         tc_name (conns s2 d) = tc_name (conns s1 d) \<and> tc_fd (conns s2 d) = tc_fd (conns s1 d) \<and>
         tc_close_cb (conns s2 d) = tc_close_cb (conns s1 d)"
      "\<forall>l. el_thread_id (evloops s2 l) = el_thread_id (evloops s1 l)"
      "\<forall>d \<in> D. bereaved os wire t c d s1 s2"
    define s3 where "s3 = QueueInLoop os t (sv_loop (server s)) (BindRemoveConnectionInLoop c) s2"
    have away: "\<not> IsInLoopThread t (sv_loop (server s)) s2"
      using serv s2(5) by (simp add: in_service_def IsInLoopThread_def s1(2))
    have run: "HandleClose os (call_conn os t) c s = Inr s3"
      using serv s2(1,3,4) away
      by (simp add: close in_service_def s1(1) call_conn_fn_def call_conn_def RemoveConnection_def
          RunInLoop_def s3_def same)
    have "cstate.more s3 = cstate.more s2" by (simp add: s3_def)
    note same3 = world_more [OF this]
    have "bereaved os wire t c d s s3" if "d \<in> D" for d
    proof -
      have "bereaved os wire t c d s s2"
        by (rule bereaved_from [OF untouched1 [OF that]]) (use s2(6) that in \<open>simp_all add: same s1(1,2)\<close>)
      moreover have "untouched wire d s2 s3"
        unfolding s3_def by (rule QueueInLoop_untouched [OF r(1) s2(2) that]) simp
      ultimately show ?thesis by (rule bereaved_then)
    qed
    moreover have "mail_ok interest D s3" unfolding s3_def by (rule QueueInLoop_mail(1) [OF r(1) s2(2)])
    moreover have "tc_state (conns s3 c) = kDisconnected" "tc_loop (conns s3 c) = tc_loop (conns s c)"
      "tc_fd (conns s3 c) = tc_fd (conns s c)"
      using s2(4) by (simp_all add: s3_def s1(1))
    moreover have "last (el_pending (evloops s3 (sv_loop (server s)))) = BindRemoveConnectionInLoop c"
      by (simp add: s3_def push_pending_def)
    moreover have "chat_ok (chat s1)" using r(2) by (simp add: same)
    ultimately show ?thesis
      using run UserExit_forgets [OF s2(1)] s2(3) by (simp add: same same3)
  next
    assume "UserExit os t c s1 = Inl HeapOverrun"
      "\<exists>d \<in> snd ` set (name_conn_map (chat s1)) - {c}. overflows t (char22 # name_of c (chat s1)) d s1"
    then show ?thesis by (auto simp: close same overflows_def chokes_def IsInLoopThread_def s1(1,2))
  qed
qed

text \<open>C12. A connection whose peer has closed leaves the whole program in four steps, in the threads that
  run them: \<open>HandleClose\<close> in its I/O loop takes it out of the room and announces its exit, if it had a
  name, to every other user once (\<open>bereaved\<close>, \<open>posted\<close>: unless that user's connection is not connected
  any more, or broken), and tells the server's loop; that loop, when this functor is run next, takes
  it out of the server's table and tells the I/O loop; and that loop, when this functor is run next,
  takes the descriptor out of its poller and out of the kernel's interest list. Afterwards neither
  map, nor the table, nor the poller knows it, the room and all pollers are consistent, and no other
  descriptor has left a poller. The one fault is that the announcement overruns the output buffer of
  another user, and only at a length that this buffer misjudges. (What other events may come between
  the steps is the subject of theory \<open>ServerRuns\<close>.)\<close>

theorem connection_teardown:
  assumes room: "room_ok os wire interest D c s" and serv: "in_service t c s"
  shows "(\<exists>s1 s2 s3. HandleClose os (call_conn os t) c s = Inr s1 \<and>
       last (el_pending (evloops s1 (sv_loop (server s)))) = BindRemoveConnectionInLoop c \<and>
       (\<forall>d \<in> D. bereaved os wire t c d s s1) \<and>
       exec_task os hwm tb (BindRemoveConnectionInLoop c) s1 = Inr s2 \<and>
       last (el_pending (evloops s2 (tc_loop (conns s c)))) = BindConnectDestroyed c \<and>
       exec_task os hwm t (BindConnectDestroyed c) s2 = Inr s3 \<and>
       tc_state (conns s3 c) = kDisconnected \<and> chat_ok (chat s3) \<and>
       map_of (conn_name_map (chat s3)) c = None \<and> (\<forall>n. map_of (name_conn_map (chat s3)) n \<noteq> Some c) \<and>
       map_of (sv_connections (server s3)) (tc_name (conns s3 c)) = None \<and>
       p_channels (pollers s3 (tc_loop (conns s c))) (tc_fd (conns s c)) = None \<and>
       interest (kern s3) (epoll_fd (pollers s3 (tc_loop (conns s c)))) (tc_fd (conns s c)) = None \<and>
       net_ok interest s3 \<and>
       (\<forall>l fd. (l, fd) \<noteq> (tc_loop (conns s c), tc_fd (conns s c)) \<longrightarrow>
          p_channels (pollers s3 l) fd = p_channels (pollers s1 l) fd)) \<or>
    HandleClose os (call_conn os t) c s = Inl HeapOverrun \<and>
      (\<exists>d \<in> snd ` set (name_conn_map (chat s)) - {c}. overflows t (char22 # name_of c (chat s)) d s)"
  using close_room [OF assms]
proof (elim disjE exE conjE)
  fix s1 assume s1: "HandleClose os (call_conn os t) c s = Inr s1" "mail_ok interest D s1"
    "server s1 = server s" "tc_state (conns s1 c) = kDisconnected"
    "tc_loop (conns s1 c) = tc_loop (conns s c)" "tc_fd (conns s1 c) = tc_fd (conns s c)"
    "last (el_pending (evloops s1 (sv_loop (server s)))) = BindRemoveConnectionInLoop c"
    "chat_ok (chat s1)" "map_of (conn_name_map (chat s1)) c = None"
    "\<forall>n. map_of (name_conn_map (chat s1)) n \<noteq> Some c" "\<forall>d \<in> D. bereaved os wire t c d s s1"
  note r = room_okD [OF room]
  define s2 where "s2 = RemoveConnectionInLoop os tb c s1"
  have mail2: "mail_ok interest D s2"
  proof -
    have "net_ok interest (upd_server f s1)" for f
      by (rule net_ok_cong [of interest s1]) (use s1(2) in \<open>simp_all add: mail_ok_def\<close>)
    then have "mail_ok interest D (upd_server f s1)" for f
      using s1(2) by (simp add: mail_ok_def conn_ready_def)
    then show ?thesis
      unfolding s2_def RemoveConnectionInLoop_def Let_def by (rule QueueInLoop_mail(1) [OF r(1)])
  qed
  have s2: "conns s2 = conns s1" "pollers s2 = pollers s1" "chat s2 = chat s1"
    "map_of (sv_connections (server s2)) (tc_name (conns s2 c)) = None"
    "last (el_pending (evloops s2 (tc_loop (conns s c)))) = BindConnectDestroyed c"
    by (simp_all add: s2_def RemoveConnectionInLoop_def Let_def push_pending_def s1(5) delete_conv')
  obtain s3 where s3: "ConnectDestroyed os (call_conn os t) c s2 = Inr s3" "net_ok interest s3"
    "cstate.more s3 = cstate.more s2" "conns s3 = conns s2"
    "\<forall>l fd. p_channels (pollers s3 l) fd =
         (if l = tc_loop (conns s2 c) \<and> fd = tc_fd (conns s2 c) then None
          else p_channels (pollers s2 l) fd)"
    "interest (kern s3) (epoll_fd (pollers s3 (tc_loop (conns s2 c)))) (tc_fd (conns s2 c)) = None"
    using ConnectDestroyed_removes [OF r(1), of s2 c "call_conn os t"] mail2 r(5) s1(4)
    by (auto simp: mail_ok_def s2(1))
  note same = world_more [OF s3(3)]
  show ?thesis
    using s1 s2 s3
    by (intro disjI1 exI [of _ s1] exI [of _ s2] exI [of _ s3])
       (simp add: exec_task_def same s2_def [symmetric])
qed blast

text \<open>Ann (connection 2) leaves; bob (connection 3) stays. The server's loop has a thread of its own.\<close>

definition demo_leaving :: "demo world" where
  "demo_leaving = upd_loop 9 (\<lambda>el. el\<lparr>el_thread_id := 5\<rparr>) (demo_world 100 demo_full_room)"

lemma demo_leaving_simps [simp]:
  "chat demo_leaving = demo_full_room" "conns demo_leaving = conns (demo_cstate 100)"
  "kern demo_leaving = kern (demo_cstate 100)" "chans demo_leaving = chans (demo_cstate 100)"
  "pollers demo_leaving = pollers (demo_cstate 100)" "sv_loop (server demo_leaving) = 9"
  "el_thread_id (evloops demo_leaving l) = (if l = 9 then 5 else 1)"
  by (simp_all add: demo_leaving_def) (simp_all add: demo_world_def upd_loop_def Let_def)

lemma demo_leaving_room: "room_ok demo_os dk_wire dk_interest {2, 3} 2 demo_leaving"
proof -
  have net: "net_ok dk_interest demo_leaving"
    by (rule net_ok_cong [OF demo_net_ok [of 100]]) simp_all
  have "conn_ready d demo_leaving" if "d = 2 \<or> d = 3" for d
    using that demo_conn_ready [of 100]
    by (auto simp: conn_ready_def demo_leaving_def)
  then have "mail_ok dk_interest {2, 3} demo_leaving"
    using net demo_mail_ok [of 100 demo_full_room] by (simp add: mail_ok_def)
  then show ?thesis
    by (simp add: room_ok_def demo_laws demo_room_ok) (simp add: demo_full_room_def)
qed

lemma demo_exit_state:
  fixes u :: "demo world"
  assumes "chat u = demo_full_room" "dk_cap (kern u) = 100" "conns u 3 = conns (demo_cstate 100) 3"
    and "chans u 3 = chans (demo_cstate 100) 3" "el_thread_id (evloops u 0) = 1"
  shows "\<exists>u'. UserExit demo_os 1 2 u = Inr u' \<and> conns u' = conns u \<and> server u' = server u \<and> evloops u' = evloops u"
  using assms demo_room_ok(2)
  by (simp add: UserExit_run demo_full_room_def name_of_def demo_Send_any)

lemma demo_leaving_closes:
  "\<exists>s1. HandleClose demo_os (call_conn demo_os 1) 2 demo_leaving = Inr s1"
proof -
  have chan: "chans (demo_cstate 100) 2 = demo_channel 7" "epoll_fd (pollers (demo_cstate 100) 0) = 100"
    "dk_interest (kern (demo_cstate 100)) 100 7 = Some \<lparr>ev_events = kReadEvent, ev_ptr = 2\<rparr>"
    by (simp_all add: demo_cstate_def)
  obtain s1 where s1: "DisableAll demo_os 2 (set_state kDisconnected 2 demo_leaving) = Inr s1"
    "chat s1 = demo_full_room" "dk_cap (kern s1) = 100" "chans s1 3 = chans (demo_cstate 100) 3"
    "conns s1 = (conns (demo_cstate 100))(2 := (conns (demo_cstate 100) 2)\<lparr>tc_state := kDisconnected\<rparr>)"
    "evloops s1 = evloops demo_leaving" "server s1 = server demo_leaving"
    by (simp add: DisableAll_def Channel_Update_def UpdateChannel_def Update_def set_state_def chan
        demo_channel_def Channel_def del_all_def IsNoneEvent_def channel_index demo_ctl_def ctl_legal_def)
       (simp add: upd_chan_def upd_conn_def)
  obtain u where u: "UserExit demo_os 1 2 s1 = Inr u" "conns u = conns s1" "server u = server s1"
    "evloops u = evloops s1"
    using demo_exit_state [of s1] s1 by auto
  show ?thesis
    by (simp add: HandleClose_def s1 set_state_def [symmetric] call_conn_fn_def call_conn_def OnConnection_def
        IsConnected_def u RemoveConnection_def RunInLoop_def IsInLoopThread_def)
qed

theorem connection_teardown_witness:
  "\<exists>s1 s2 s3. HandleClose demo_os (call_conn demo_os 1) 2 demo_leaving = Inr s1 \<and>
     exec_task demo_os (\<lambda>g c n s. Inr s) 5 (BindRemoveConnectionInLoop 2) s1 = Inr s2 \<and>
     exec_task demo_os (\<lambda>g c n s. Inr s) 1 (BindConnectDestroyed 2) s2 = Inr s3 \<and>
     posted demo_os dk_wire 1 (char22 # ''ann'') 3 demo_leaving s1 \<and>
     p_channels (pollers s3 0) 7 = None \<and> dk_interest (kern s3) (epoll_fd (pollers s3 0)) 7 = None"
proof -
  have serv: "in_service 1 2 demo_leaving" by (simp add: in_service_def IsInLoopThread_def)
  have vals: "tc_loop (conns demo_leaving 2) = 0" "tc_fd (conns demo_leaving 2) = 7"
    "name_of 2 (chat demo_leaving) = ''ann''" "3 \<in> snd ` set (name_conn_map (chat demo_leaving))"
    by (simp_all add: name_of_def demo_full_room_def)
  have "bereaved demo_os dk_wire 1 2 3 demo_leaving s1 = posted demo_os dk_wire 1 (char22 # ''ann'') 3 demo_leaving s1" for s1
    using vals(3,4) by (simp add: bereaved_def)
  with connection_teardown [OF demo_leaving_room serv, of "\<lambda>g c n s. Inr s" 5] demo_leaving_closes
  show ?thesis unfolding vals by fastforce
qed

subsection \<open>The high-water mark\<close>

lemma send_buffered_pending:
  fixes s s' :: "('k, 'z) cstate_scheme"
  assumes run: "send_buffered os t c rest s = Inr s'"
    and below: "ReadeableBytes (tc_output (conns s c)) < tc_high_water_mark (conns s c)"
    and cross: "tc_high_water_mark (conns s c) \<le> ReadeableBytes (tc_output (conns s c)) + length rest"
  shows "el_pending (evloops s' (tc_loop (conns s c))) =
    el_pending (evloops s (tc_loop (conns s c))) @
      [BindHighWaterMark (tc_high_water_mark_cb (conns s c)) c
         (ReadeableBytes (tc_output (conns s c)) + length rest)]"
  using run below cross
  by (auto simp: send_buffered_def Let_def bind_res_Inr push_pending_def
      dest!: EnableWriting_upper(2) split: if_splits)

text \<open>C36. A message that takes the output buffer over the high-water mark of a connection made by the
  server, which sets no callback for it, queues the call of an empty function: the next
  \<open>DoPendingFunctors\<close> of that loop always ends in a fault, in \<open>std::bad_function_call\<close> itself when
  no functor before it fails.\<close>

theorem high_water_mark_unset:
  fixes s s' :: "('k, 'z) world_scheme" and c :: conn
  defines "l \<equiv> tc_loop (conns s c)" and "old \<equiv> ReadeableBytes (tc_output (conns s c))"
  assumes unset: "tc_high_water_mark_cb (conns s c) = None"
    and cross: "old < tc_high_water_mark (conns s c)"
      "tc_high_water_mark (conns s c) \<le> old + length rest"
    and run: "send_buffered os t c rest s = Inr s'"
  shows "\<exists>e. DoPendingFunctors (exec_task os hwm t') l s' = Inl e \<and>
    (el_pending (evloops s l) = [] \<longrightarrow> e = BadFunctionCall)"
proof -
  have pending: "el_pending (evloops s' l) =
      el_pending (evloops s l) @ [BindHighWaterMark None c (old + length rest)]"
    using send_buffered_pending [OF run] cross by (simp add: l_def old_def unset)
  have bad: "exec_task os hwm t' (BindHighWaterMark None c n) s1 = Inl BadFunctionCall" for n s1
    by (simp add: exec_task_def)
  define s2 where "s2 = upd_loop l (\<lambda>el. snd (swap_pending el)) (upd_loop l (\<lambda>el. el\<lparr>el_calling := True\<rparr>) s')"
  have "DoPendingFunctors (exec_task os hwm t') l s' =
      bind_res (foldR (exec_task os hwm t') (el_pending (evloops s' l)) s2)
        (\<lambda>s3. Inr (upd_loop l (\<lambda>el. el\<lparr>el_calling := False\<rparr>) s3))"
    by (simp add: DoPendingFunctors_def Let_def swap_pending_def s2_def)
  then show ?thesis
    unfolding pending
    by (cases "foldR (exec_task os hwm t') (el_pending (evloops s l)) s2") (auto simp: bad)
qed

text \<open>A connection with a mark of four bytes, asked to queue five.\<close>

definition demo_low_mark :: "demo world" where
  "demo_low_mark = upd_conn 2 (\<lambda>tc. tc\<lparr>tc_high_water_mark := 4\<rparr>) (demo_world 100 demo_full_room)"

theorem high_water_mark_unset_witness:
  "\<exists>s'. send_buffered demo_os 1 2 ''hello'' demo_low_mark = Inr s' \<and>
     DoPendingFunctors (exec_task demo_os (\<lambda>g c n s. Inr s) 1) 0 s' = Inl BadFunctionCall"
proof -
  have vals: "conns demo_low_mark 2 = (conns (demo_cstate 100) 2)\<lparr>tc_high_water_mark := 4\<rparr>"
    "el_pending (evloops demo_low_mark 0) = []"
    by (simp_all add: demo_low_mark_def) (simp add: demo_cstate_def)
  have mail: "mail_ok dk_interest {2, 3} demo_low_mark"
  proof -
    have "net_ok dk_interest demo_low_mark"
      by (rule net_ok_cong [OF demo_net_ok [of 100]]) (simp_all add: demo_low_mark_def)
    with demo_mail_ok [of 100 demo_full_room] show ?thesis
      by (simp add: mail_ok_def conn_ready_def demo_low_mark_def)
  qed
  have "append_fits (length ''hello'') (tc_output (conns demo_low_mark 2))"
    by (simp add: vals append_fits_def Buffer_sizes kCheapPrepend_def)
  then obtain s' where run: "send_buffered demo_os 1 2 ''hello'' demo_low_mark = Inr s'"
    using send_buffered_stream [OF demo_laws, of demo_low_mark 2 "''hello''" 1] mail
    by (auto simp: mail_ok_def)
  have "tc_high_water_mark_cb (conns demo_low_mark 2) = None"
    by (simp add: vals) (simp add: demo_cstate_def demo_conn_def)
  from high_water_mark_unset [OF this _ _ run, of "\<lambda>g c n s. Inr s" 1] run show ?thesis
    by (auto simp: vals Buffer_sizes)
qed

end
