(* ===== verification/Lifetimes.thy ===== *)
theory Lifetimes
  imports World
begin

text \<open>
  How long a connection lives. It is freed with its last \<open>shared_ptr\<close> (\<open>TcpConnectionPtr\<close>): in the
  server's table, in the maps of the chat room, in a functor that waits in a loop, or in a handler
  that runs. But \<open>Send\<close> and \<open>Shutdown\<close> of \<open>server/src/tcp_connection.cpp\<close> queue functors that hold
  a bare \<open>this\<close>, and the room's sends of \<open>server/example/server.cpp\<close> go through references into its
  map, with \<open>map_mtx\<close> held by the broadcasts but not by \<open>SendPrivateMsg\<close>. The machine follows one
  connection \<open>c\<close>, its I/O loop, the server's loop, and any number of threads that send to it.
\<close>

subsection \<open>State\<close>

text \<open>
  The I/O loop is between handlers, or in \<open>HandleClose\<close>: before the room's entries go (under the
  exclusive lock), before the server is told, or after it.
\<close>

datatype handler_pc = HIdle | HExit | HNotify | HGone

text \<open>
  A thread that sends: under the shared lock, before and after the test of the state, and after the
  send; and the same without the lock.
\<close>

datatype sender_pc = SIdle | SLocked | SChecked | SDone | PFound | PChecked

record life =
  li_state :: conn_state
  li_reading :: bool            \<comment> \<open>established, and not yet closed\<close>
  li_table :: bool              \<comment> \<open>in the server's \<open>connections_\<close>\<close>
  li_room :: bool               \<comment> \<open>in the room's maps\<close>
  li_io :: "task list"          \<comment> \<open>its functors pending in its I/O loop\<close>
  li_batch :: "task list"       \<comment> \<open>those of the batch being run there\<close>
  li_main :: "task list"        \<comment> \<open>its functors pending in the server's loop\<close>
  li_handler :: handler_pc
  li_senders :: "tid \<Rightarrow> sender_pc"

text \<open>As \<open>NewConnection\<close> leaves it.\<close>

definition life_init :: "conn \<Rightarrow> life \<Rightarrow> bool" where
  "life_init c s \<longleftrightarrow>
     s = \<lparr>li_state = kConnecting, li_reading = False, li_table = True, li_room = False,
          li_io = [BindConnectionEstablished c], li_batch = [], li_main = [], li_handler = HIdle,
          li_senders = (\<lambda>_. SIdle)\<rparr>"

text \<open>Some reference exists. A handler runs under the \<open>guard\<close> of \<open>HandleEvent\<close>.\<close>

definition owned :: "conn \<Rightarrow> life \<Rightarrow> bool" where
  "owned c s \<longleftrightarrow>
     li_table s \<or> li_room s \<or> li_handler s \<in> {HExit, HNotify} \<or>
     list_ex (task_owns c) (li_batch s @ li_io s @ li_main s)"

text \<open>Some thread still goes to the object through a bare pointer.\<close>

definition raw_user :: "conn \<Rightarrow> life \<Rightarrow> bool" where
  "raw_user c s \<longleftrightarrow>
     (\<exists>t. li_senders s t \<in> {SLocked, SChecked, PFound, PChecked}) \<or>
     list_ex (\<lambda>f. \<not> task_owns c f) (li_batch s @ li_io s)"

definition no_readers :: "life \<Rightarrow> bool" where
  "no_readers s \<longleftrightarrow> (\<forall>t. li_senders s t \<notin> {SLocked, SChecked, SDone})"

subsection \<open>Steps\<close>

inductive life_step :: "conn \<Rightarrow> life \<Rightarrow> life \<Rightarrow> bool" for c where
  \<comment> \<open>the I/O loop's batch\<close>
  swaps: "li_batch s = [] \<Longrightarrow> li_handler s \<in> {HIdle, HGone} \<Longrightarrow>
     life_step c s (s\<lparr>li_batch := li_io s, li_io := []\<rparr>)"
| runs_established: "li_batch s = BindConnectionEstablished c # fs \<Longrightarrow>
     life_step c s (s\<lparr>li_state := kConnected, li_reading := True, li_batch := fs\<rparr>)"
| runs_send: "li_batch s = BindSendInLoop c msg # fs \<Longrightarrow> life_step c s (s\<lparr>li_batch := fs\<rparr>)"
| runs_destroyed: "li_batch s = BindConnectDestroyed c # fs \<Longrightarrow> life_step c s (s\<lparr>li_batch := fs\<rparr>)"
  \<comment> \<open>its handlers: a login, which enters the room or is refused; the end of the stream\<close>
| logs_in: "li_reading s \<Longrightarrow> li_handler s = HIdle \<Longrightarrow> li_batch s = [] \<Longrightarrow> no_readers s \<Longrightarrow>
     life_step c s (s\<lparr>li_room := True\<rparr>)"
| is_refused: "li_reading s \<Longrightarrow> li_handler s = HIdle \<Longrightarrow> li_batch s = [] \<Longrightarrow>
     life_step c s (s\<lparr>li_state := kDisconnected\<rparr>)"
| closes: "li_reading s \<Longrightarrow> li_handler s = HIdle \<Longrightarrow> li_batch s = [] \<Longrightarrow> owned c s \<Longrightarrow>
     life_step c s (s\<lparr>li_state := kDisconnected, li_reading := False, li_handler := HExit\<rparr>)"
| leaves_room: "li_handler s = HExit \<Longrightarrow> no_readers s \<Longrightarrow>
     life_step c s (s\<lparr>li_room := False, li_handler := HNotify\<rparr>)"
| tells_server: "li_handler s = HNotify \<Longrightarrow>
     life_step c s (s\<lparr>li_main := li_main s @ [BindRemoveConnectionInLoop c], li_handler := HGone\<rparr>)"
  \<comment> \<open>the server's loop\<close>
| server_removes: "li_main s = BindRemoveConnectionInLoop c # fs \<Longrightarrow>
     life_step c s (s\<lparr>li_table := False, li_main := fs, li_io := li_io s @ [BindConnectDestroyed c]\<rparr>)"
  \<comment> \<open>a broadcast of some other thread, at its entry for \<open>c\<close>\<close>
| locks: "li_senders s t = SIdle \<Longrightarrow> li_room s \<Longrightarrow>
     life_step c s (s\<lparr>li_senders := (li_senders s)(t := SLocked)\<rparr>)"
| finds_connected: "li_senders s t = SLocked \<Longrightarrow> li_state s = kConnected \<Longrightarrow>
     life_step c s (s\<lparr>li_senders := (li_senders s)(t := SChecked)\<rparr>)"
| finds_closed: "li_senders s t = SLocked \<Longrightarrow> li_state s \<noteq> kConnected \<Longrightarrow>
     life_step c s (s\<lparr>li_senders := (li_senders s)(t := SDone)\<rparr>)"
| queues: "li_senders s t = SChecked \<Longrightarrow>
     life_step c s (s\<lparr>li_io := li_io s @ [BindSendInLoop c msg], li_senders := (li_senders s)(t := SDone)\<rparr>)"
| unlocks: "li_senders s t = SDone \<Longrightarrow>
     life_step c s (s\<lparr>li_senders := (li_senders s)(t := SIdle)\<rparr>)"

text \<open>\<open>SendPrivateMsg\<close> of some other thread to \<open>c\<close>: the same without the lock.\<close>

inductive private_step :: "conn \<Rightarrow> life \<Rightarrow> life \<Rightarrow> bool" for c where
  finds_entry: "li_senders s t = SIdle \<Longrightarrow> li_room s \<Longrightarrow>
     private_step c s (s\<lparr>li_senders := (li_senders s)(t := PFound)\<rparr>)"
| checks: "li_senders s t = PFound \<Longrightarrow> li_state s = kConnected \<Longrightarrow>
     private_step c s (s\<lparr>li_senders := (li_senders s)(t := PChecked)\<rparr>)"
| gives_up: "li_senders s t = PFound \<Longrightarrow> li_state s \<noteq> kConnected \<Longrightarrow>
     private_step c s (s\<lparr>li_senders := (li_senders s)(t := SIdle)\<rparr>)"
| queues_raw: "li_senders s t = PChecked \<Longrightarrow>
     private_step c s (s\<lparr>li_io := li_io s @ [BindSendInLoop c msg], li_senders := (li_senders s)(t := SIdle)\<rparr>)"


subsection \<open>Broadcasts are safe\<close>

text \<open>
  Readers see the room's entry; the entry is there only before \<open>HandleClose\<close> has taken it out, and
  only after that does the server take the connection out of its table. What is queued when the
  table has let go ends with the functor that destroys the connection, which holds it.
\<close>

definition phase_inv :: "conn \<Rightarrow> life \<Rightarrow> bool" where
  "phase_inv c s \<longleftrightarrow>
     (li_room s \<longrightarrow> li_reading s \<or> li_handler s = HExit) \<and>
     (li_reading s \<longrightarrow> li_handler s = HIdle) \<and>
     (if li_handler s = HGone
      then li_main s = (if li_table s then [BindRemoveConnectionInLoop c] else [])
      else li_table s \<and> li_main s = [])"

text \<open>It is established once, before anything else happens to it.\<close>

definition new_inv :: "conn \<Rightarrow> life \<Rightarrow> bool" where
  "new_inv c s \<longleftrightarrow>
     BindConnectionEstablished c \<notin> set (li_batch s @ li_io s) \<or>
     (BindConnectionEstablished c \<notin> set (tl (li_batch s @ li_io s)) \<and>
      \<not> li_reading s \<and> li_handler s = HIdle)"

definition reader_inv :: "life \<Rightarrow> bool" where
  "reader_inv s \<longleftrightarrow>
     (\<forall>t. li_senders s t \<in> {SIdle, SLocked, SChecked, SDone}) \<and> (no_readers s \<or> li_room s)"

definition queue_inv :: "conn \<Rightarrow> life \<Rightarrow> bool" where
  "queue_inv c s \<longleftrightarrow>
     (li_table s \<or> li_batch s @ li_io s = [] \<or> task_owns c (last (li_batch s @ li_io s)))"

lemma new_inv_step: "life_step c s s' \<Longrightarrow> phase_inv c s \<Longrightarrow> new_inv c s \<Longrightarrow> new_inv c s'"
  by (induction rule: life_step.induct)
     (simp_all add: new_inv_def phase_inv_def tl_append split: if_splits list.splits, auto)

lemma phase_inv_step: "life_step c s s' \<Longrightarrow> new_inv c s \<Longrightarrow> phase_inv c s \<Longrightarrow> phase_inv c s'"
  by (induction rule: life_step.induct)
     (simp_all add: phase_inv_def new_inv_def split: if_splits, auto)

lemma reader_inv_step: "life_step c s s' \<Longrightarrow> reader_inv s \<Longrightarrow> reader_inv s'"
  by (induction rule: life_step.induct) (auto simp: reader_inv_def no_readers_def)

lemma queue_inv_pop:
  "queue_inv c s \<Longrightarrow> li_batch s = f # fs \<Longrightarrow> li_table s' = li_table s \<Longrightarrow> li_io s' = li_io s \<Longrightarrow>
     li_batch s' = fs \<Longrightarrow> queue_inv c s'"
  by (cases "fs @ li_io s") (auto simp: queue_inv_def)

lemma queue_inv_step:
  assumes "life_step c s s'" "phase_inv c s" "reader_inv s" "queue_inv c s"
  shows "queue_inv c s'"
  using assms
proof (induction rule: life_step.induct)
  case (queues s t msg)
  then have "li_room s" by (auto simp: reader_inv_def no_readers_def)
  then have "li_table s" using queues.prems by (auto simp: phase_inv_def split: if_splits)
  then show ?case by (simp add: queue_inv_def)
next
  case (runs_established s fs)
  then show ?case by (simp add: queue_inv_pop)
next
  case (runs_send s msg fs)
  then show ?case by (simp add: queue_inv_pop)
next
  case (runs_destroyed s fs)
  then show ?case by (simp add: queue_inv_pop)
next
  case (server_removes s fs)
  then show ?case by (simp add: queue_inv_def task_owns_def)
qed (simp_all add: queue_inv_def)

definition life_inv :: "conn \<Rightarrow> life \<Rightarrow> bool" where
  "life_inv c s \<longleftrightarrow> new_inv c s \<and> phase_inv c s \<and> reader_inv s \<and> queue_inv c s"

lemma life_reach_inv: "reach (life_init c) (life_step c) s \<Longrightarrow> life_inv c s"
proof (erule reach_invariant)
  show "life_init c s \<Longrightarrow> life_inv c s" for s
    by (auto simp: life_init_def life_inv_def new_inv_def phase_inv_def reader_inv_def queue_inv_def no_readers_def)
  show "life_step c s s' \<Longrightarrow> life_inv c s \<Longrightarrow> life_inv c s'" for s s'
    unfolding life_inv_def by (blast intro: new_inv_step phase_inv_step reader_inv_step queue_inv_step)
qed

text \<open>C13. In every interleaving of logins, broadcasts and the end of a connection, a bare pointer to the
  connection is only ever used, by a broadcast in progress or by a functor still queued, while
  some \<open>shared_ptr\<close> keeps it alive: the bare \<open>this\<close> that \<open>Send\<close> binds is safe there, because the lock
  keeps the sender's functor in front of the one that destroys the connection.\<close>

theorem broadcast_never_dangles:
  assumes "reach (life_init c) (life_step c) s" "raw_user c s"
  shows "owned c s"
proof (rule ccontr)
  assume freed: "\<not> owned c s"
  note inv = life_reach_inv [OF assms(1), unfolded life_inv_def]
  let ?q = "li_batch s @ li_io s"
  have "?q = []"
  proof (rule ccontr)
    assume "?q \<noteq> []"
    then have "last ?q \<in> set ?q" by (rule last_in_set)
    moreover have "task_owns c (last ?q)"
      using inv freed \<open>?q \<noteq> []\<close> by (auto simp: queue_inv_def owned_def)
    ultimately show False using freed by (auto simp: owned_def list_ex_iff)
  qed
  moreover have "no_readers s" using inv freed by (simp add: reader_inv_def owned_def)
  ultimately show False
    using assms(2) inv by (fastforce simp: raw_user_def reader_inv_def no_readers_def)
qed

text \<open>Some broadcast, and the functor it queued.\<close>

definition live_step :: "conn \<Rightarrow> life \<Rightarrow> life \<Rightarrow> bool" where
  "live_step c s s' \<longleftrightarrow> life_step c s s' \<or> private_step c s s'"

lemmas live_life = live_step_def [THEN iffD2, OF disjI1]
lemmas live_private = live_step_def [THEN iffD2, OF disjI2]

lemma live_reach: "reach (life_init c) (life_step c) s \<Longrightarrow> reach (life_init c) (live_step c) s"
  by (erule reach_mono) (rule live_life)

lemma life_then: "reach (life_init c) (live_step c) s \<Longrightarrow> life_step c s s' \<Longrightarrow> reach (life_init c) (live_step c) s'"
  by (erule reach_step, erule live_life)

lemma private_then: "reach (life_init c) (live_step c) s \<Longrightarrow> private_step c s s' \<Longrightarrow> reach (life_init c) (live_step c) s'"
  by (erule reach_step, erule live_private)

lemma live_start:
  "reach (life_init c) (life_step c)
     \<lparr>li_state = kConnecting, li_reading = False, li_table = True, li_room = False,
      li_io = [BindConnectionEstablished c], li_batch = [], li_main = [], li_handler = HIdle,
      li_senders = (\<lambda>_. SIdle)\<rparr>"
  by (rule reach_init) (simp add: life_init_def)

lemma cast_then: "reach (life_init c) (life_step c) s \<Longrightarrow> life_step c s s' \<Longrightarrow> reach (life_init c) (life_step c) s'"
  by (rule reach_step)

lemmas live_1 = cast_then [OF live_start life_step.swaps, simplified]
lemmas live_2 = cast_then [OF live_1 life_step.runs_established [where fs = "[]"], simplified]
lemmas live_entered = cast_then [OF live_2 life_step.logs_in, simplified no_readers_def, simplified]

lemmas cast_1 = cast_then [OF live_entered life_step.locks [where t = 7], simplified]
lemmas cast_2 = cast_then [OF cast_1 life_step.finds_connected [where t = 7], simplified]
lemmas cast_queued = cast_then [OF cast_2 life_step.queues [where t = 7 and msg = "''hi''"], simplified]

theorem broadcast_never_dangles_witness:
  "\<exists>s. reach (life_init 2) (life_step 2) s \<and> li_io s = [BindSendInLoop 2 ''hi''] \<and> raw_user 2 s \<and> owned 2 s"
  by (intro exI conjI, rule cast_queued)
     (use broadcast_never_dangles [OF cast_queued] in \<open>simp_all add: raw_user_def task_owns_def\<close>)

subsection \<open>Private messages are not\<close>

text \<open>Thread 7 finds the entry and the state; then the connection ends; then the thread goes on.\<close>

lemmas priv_0 = live_reach [OF live_entered]
lemmas priv_1 = private_then [OF priv_0 private_step.finds_entry [where t = 7], simplified]
lemmas priv_2 = private_then [OF priv_1 private_step.checks [where t = 7], simplified]
lemmas priv_3 = life_then [OF priv_2 life_step.closes, simplified owned_def, simplified]
lemmas priv_4 = life_then [OF priv_3 life_step.leaves_room, simplified no_readers_def, simplified]
lemmas priv_5 = life_then [OF priv_4 life_step.tells_server, simplified]
lemmas priv_6 = life_then [OF priv_5 life_step.server_removes [where fs = "[]"], simplified]
lemmas priv_7 = life_then [OF priv_6 life_step.swaps, simplified]
lemmas priv_freed = life_then [OF priv_7 life_step.runs_destroyed [where fs = "[]"], simplified]

text \<open>C35. A private message can go to a freed connection: between the sender's test of its state and
  the call that queues the message, the addressee can leave, be removed and be destroyed, since
  \<open>SendPrivateMsg\<close> holds neither the lock nor a reference. The sender then goes on in the freed
  object and leaves a functor behind that will run on it.\<close>

theorem private_message_dangles:
  "\<exists>s s'. reach (life_init c) (live_step c) s \<and> \<not> owned c s \<and> li_senders s 7 = PChecked \<and>
     live_step c s s' \<and> \<not> owned c s' \<and> li_io s' = [BindSendInLoop c ''hi''] \<and>
     (\<exists>s''. live_step c s' s'' \<and> li_batch s'' = [BindSendInLoop c ''hi''] \<and> \<not> owned c s'')"
proof -
  obtain s where s: "reach (life_init c) (live_step c) s" "\<not> owned c s" "li_senders s 7 = PChecked"
    "li_io s = []" "li_batch s = []" "li_handler s = HGone"
    by (rule that [OF priv_freed]) (simp_all add: owned_def)
  define s' where "s' = s\<lparr>li_io := li_io s @ [BindSendInLoop c ''hi''], li_senders := (li_senders s)(7 := SIdle)\<rparr>"
  define s'' where "s'' = s'\<lparr>li_batch := li_io s', li_io := []\<rparr>"
  have "live_step c s s'" unfolding s'_def by (rule live_private) (rule private_step.queues_raw [OF s(3)])
  moreover have "live_step c s' s''"
    unfolding s''_def by (rule live_life, rule life_step.swaps) (simp_all add: s'_def s)
  moreover have "\<not> owned c s'" "\<not> owned c s''"
    using s(2) by (simp_all add: owned_def s'_def s''_def s task_owns_def)
  moreover have "li_io s' = [BindSendInLoop c ''hi'']" "li_batch s'' = [BindSendInLoop c ''hi'']"
    by (simp_all add: s'_def s''_def s)
  ultimately show ?thesis using s(1-3) by blast
qed

end
