(* ===== verification/Lifecycle.thy ===== *)
theory Lifecycle
  imports Teardown ServerCorrect
begin

text \<open>
  The way of a connection into the program: the server's loop makes it and enters it into its table,
  its I/O loop establishes it, and then it is one of the connections the theorems on messages speak
  of. And the way of a message from a loop's queue of functors to the socket.
\<close>

subsection \<open>What the server's half leaves in the kernel\<close>

lemma NewConnection_queues:
  fixes s :: "('k, 'z) sstate_scheme"
  assumes pool: "pool_ok (pool s)" and run: "NewConnection os call t fd addr s = Inr s'"
    and other: "\<not> IsInLoopThread t (get_loops (pool s) ! tp_next (pool s)) s"
  obtains sx where
    "s' = QueueInLoop os t (get_loops (pool s) ! tp_next (pool s)) (BindConnectionEstablished (fresh_conn s)) sx"
    "kern sx = SetKeepAlive os fd True (snd (sys_getsockname os fd (kern s)))" "evloops sx = evloops s"
    "sstate.more sx = sstate.more s"
proof -
  obtain r k' where gs: "sys_getsockname os fd (kern s) = (r, k')" by fastforce
  have other': "el_thread_id (evloops s (get_loops (pool s) ! tp_next (pool s))) \<noteq> t"
    using other by (simp add: IsInLoopThread_def)
  show thesis
    using run
    by (simp add: NewConnection_def get_next_loop_ok [OF pool] Let_def gs TcpConnection_ctor_def
        CheckLoopNotNull_def RunInLoop_def IsInLoopThread_def other')
       (erule that [OF sym], simp_all add: gs upd_chan_def upd_conn_def upd_server_def)
qed

subsection \<open>What the I/O loop's half does\<close>

lemma ConnectionEstablished_runs:
  fixes s :: "('k, 'z) cstate_scheme" and c :: conn
  defines "ch \<equiv> tc_channel (conns s c)" and "l \<equiv> tc_loop (conns s c)" and "fd \<equiv> tc_fd (conns s c)"
  assumes laws: "kernel_laws os wire interest" and net: "net_ok interest s"
    and chan: "ch_fd (chans s ch) = fd" "ch_loop (chans s ch) = l" "ch_index (chans s ch) = kNew"
      "ch_events (chans s ch) = kNoneEvent"
    and free: "p_channels (pollers s l) fd = None"
  obtains s1 where
    "\<And>call. ConnectionEstablished os call c s = call_conn_fn call (tc_conn_cb (conns s c)) c s1"
    "net_ok interest s1" "conns s1 = (conns s)(c := (conns s c)\<lparr>tc_state := kConnected\<rparr>)"
    "chans s1 = (chans s)(ch := (Tie c (chans s ch))\<lparr>ch_events := kReadEvent, ch_index := kAdded\<rparr>)"
    "wire (kern s1) = wire (kern s)" "evloops s1 = evloops s" "cstate.more s1 = cstate.more s"
    "interest (kern s1) (epoll_fd (pollers s1 l)) fd = Some \<lparr>ev_events = kReadEvent, ev_ptr = ch\<rparr>"
    "updated ch (upd_chan ch (\<lambda>x. add_read (Tie c x)) (set_state kConnected c s)) s1"
proof -
  define s0 where "s0 = set_state kConnected c s"
  have s0: "chans s0 = chans s" "pollers s0 = pollers s" "kern s0 = kern s" "evloops s0 = evloops s"
    "cstate.more s0 = cstate.more s" "conns s0 = (conns s)(c := (conns s c)\<lparr>tc_state := kConnected\<rparr>)"
    "tc_channel (conns s0 c) = ch"
    by (simp_all add: s0_def set_state_def ch_def)
  have net0: "net_ok interest s0" by (rule net_ok_cong [OF net]) (simp_all add: s0)
  have f: "keeps (\<lambda>x. add_read (Tie c x))" by (simp add: keeps_def add_read_def Tie_def)
  obtain s1 where run: "Channel_Update os ch (upd_chan ch (\<lambda>x. add_read (Tie c x)) s0) = Inr s1"
    and net1: "net_ok interest s1" and upd: "updated ch (upd_chan ch (\<lambda>x. add_read (Tie c x)) s0) s1"
    using Channel_Update_net [OF kernel_lawsD(3) [OF laws] net0 f, of ch] chan(1,2) free
    by (auto simp: s0)
  have two: "upd_chan ch add_read (upd_chan ch (Tie c) s0) = upd_chan ch (\<lambda>x. add_read (Tie c x)) s0"
    by (simp add: upd_chan_def)
  have events: "ch_events (add_read (Tie c (chans s ch))) = kReadEvent"
    using chan(4) by (simp add: add_read_def Tie_def kNoneEvent_def)
  have new: "chans s1 = (chans s)(ch := (Tie c (chans s ch))\<lparr>ch_events := kReadEvent, ch_index := kAdded\<rparr>)"
    using upd chan(3) events
    by (simp add: updated_def Let_def s0 next_index_def add_read_def Tie_def index_distinct)
  have more: "pstate.more s1 = pstate.more s0" using upd by (simp add: updated_def Let_def)
  have mapped: "p_channels (pollers s1 l) fd = Some ch"
    using upd chan(1,2) by (simp add: updated_def Let_def s0 add_read_def Tie_def)
  show thesis
  proof (rule that [OF _ net1 _ _ _ _ _ _ upd [unfolded s0_def]])
    show "ConnectionEstablished os call c s = call_conn_fn call (tc_conn_cb (conns s c)) c s1" for call
      using run more_upper(2) [OF more]
      by (simp add: ConnectionEstablished_def s0_def [symmetric] s0(7) EnableReading_def two Let_def) (simp add: s0)
    show "wire (kern s1) = wire (kern s)"
      using Channel_Update_view [OF kernel_lawsD(6) [OF laws] run] by (simp add: s0)
    show "interest (kern s1) (epoll_fd (pollers s1 l)) fd = Some \<lparr>ev_events = kReadEvent, ev_ptr = ch\<rparr>"
      using poller_ok_interest [OF net_okD(1) [OF net1], of l fd] mapped by (simp add: new)
  qed (simp_all add: new more_upper [OF more] s0)
qed

subsection \<open>Both halves\<close>

text \<open>A channel that is registered nowhere can be replaced by another such channel.\<close>

lemma net_ok_new_chan:
  assumes ok: "net_ok interest s" and new: "ch_index (chans s ch) = kNew" "ch_index x = kNew"
    and same: "chans s' = (chans s)(ch := x)" "pollers s' = pollers s" "interest (kern s') = interest (kern s)"
  shows "net_ok interest s'"
proof -
  have "poller_ok interest l s'" for l
  proof -
    note here = net_okD(1) [OF ok, of l]
    have other: "d \<noteq> ch" if "p_channels (pollers s l) fd = Some d" for fd d
      using poller_ok_mapped [OF here that] new(1) by (auto simp: channel_index)
    have mapped: "p_channels (pollers s' l) fd = Some d \<longleftrightarrow> p_channels (pollers s l) fd = Some d \<and> d \<noteq> ch" for fd d
      using other by (auto simp: same(2))
    have "interest (kern s') (epoll_fd (pollers s' l)) fd =
        (case p_channels (pollers s' l) fd of None \<Rightarrow> None
         | Some c \<Rightarrow> if ch_index (chans s' c) = kAdded
                     then Some \<lparr>ev_events = ch_events (chans s' c), ev_ptr = c\<rparr> else None)" for fd
      using poller_ok_interest [OF here, of fd] other [of fd]
      by (cases "p_channels (pollers s l) fd") (simp_all add: same)
    moreover have "ch_index (chans s' c) = kNew \<or> p_channels (pollers s' l) (ch_fd (chans s' c)) = Some c"
      if "ch_loop (chans s' c) = l" for c
      using poller_ok_new_or_owned [OF here, of c] that new(2) by (cases "c = ch") (auto simp: same)
    moreover have "ch_fd (chans s' c) = fd \<and> ch_loop (chans s' c) = l \<and> ch_index (chans s' c) \<in> {kAdded, kDeleted}"
      if "p_channels (pollers s' l) fd = Some c" for fd c
      using poller_ok_mapped [OF here, of fd c] that mapped by (simp add: same(1))
    ultimately show ?thesis unfolding poller_ok_def by blast
  qed
  then show ?thesis using ok by (simp add: net_ok_def same(2))
qed

text \<open>The descriptor is one \<open>accept\<close> has just given out, and the new objects get addresses not in use.\<close>

definition fresh_for :: "conn set \<Rightarrow> fd \<Rightarrow> ('k, 'z) world_scheme \<Rightarrow> bool" where
  "fresh_for D fd s \<longleftrightarrow>
     ch_index (chans s (fresh_chan s)) = kNew \<and> fresh_conn s \<notin> D \<and>
     (\<forall>d \<in> D. tc_channel (conns s d) \<noteq> fresh_chan s \<and> tc_fd (conns s d) \<noteq> fd) \<and>
     (\<forall>l. fd \<noteq> el_wakeup_fd (evloops s l) \<and> p_channels (pollers s l) fd = None)"

lemma serving_next:
  assumes "serving t n s"
  shows "pool_ok (pool s)" "\<not> IsInLoopThread t (get_loops (pool s) ! tp_next (pool s)) s" "table_ok s"
    "name_fits (server s)"
proof -
  show ok: "pool_ok (pool s)" "table_ok s" using assms by (simp_all add: serving_def)
  have "tp_next (pool s) < length (get_loops (pool s))"
    using ok(1) by (auto simp: pool_ok_def get_loops_def split: if_splits)
  then show "\<not> IsInLoopThread t (get_loops (pool s) ! tp_next (pool s)) s"
    using assms by (simp add: serving_def)
  show "name_fits (server s)"
    using assms length_decimal_mono [of "sv_next_connection_id (server s)" "sv_next_connection_id (server s) + n"]
    unfolding serving_def name_fits_def by linarith
qed

lemma NewConnection_mail:
  fixes s :: "('k, 'z) world_scheme"
  assumes laws: "kernel_laws os wire interest" and mail: "mail_ok interest D s" and up: "serving t 1 s"
    and fresh: "fresh_for D fd s"
  defines "c \<equiv> fresh_conn s" and "ch \<equiv> fresh_chan s" and "l \<equiv> get_loops (pool s) ! tp_next (pool s)"
  obtains s1 where "NewConnection os call t fd addr s = Inr s1" "net_ok interest s1"
    "conns s1 = (conns s)(c := new_conn l fd (local_addr_of os fd (kern s)) addr ch (server s))"
    "ch_fd (chans s1 ch) = fd" "ch_loop (chans s1 ch) = l" "ch_index (chans s1 ch) = kNew"
    "ch_events (chans s1 ch) = kNoneEvent" "\<forall>d. d \<noteq> ch \<longrightarrow> chans s1 d = chans s d"
    "p_channels (pollers s1 l) fd = None"
    "evloops s1 = (evloops s)(l := push_pending (BindConnectionEstablished c) (evloops s l))"
    "live_conns s1 = insert c (live_conns s)" "sv_loop (server s1) = sv_loop (server s)" "chat s1 = chat s"
    "\<forall>x. (\<forall>l. x \<noteq> el_wakeup_fd (evloops s l)) \<longrightarrow> wire (kern s1) x = wire (kern s) x"
proof -
  note nx = serving_next [OF up]
  obtain s1 where run: "NewConnection os call t fd addr s = Inr s1"
    and sv: "server s1 = (server s)\<lparr>sv_next_connection_id := sv_next_connection_id (server s) + 1,
       sv_connections := AList.update (conn_name (server s)) c (sv_connections (server s))\<rparr>"
    and cn: "conns s1 = (conns s)(c := new_conn l fd (local_addr_of os fd (kern s)) addr ch (server s))"
    and cs: "chans s1 = (chans s)(ch := (Channel l fd)
       \<lparr>ch_read_cb := Some (ConnHandleRead c), ch_write_cb := Some (ConnHandleWrite c),
        ch_close_cb := Some (ConnHandleClose c), ch_error_cb := Some (ConnHandleError c)\<rparr>)"
    and el: "evloops s1 = (evloops s)(l := push_pending (BindConnectionEstablished c) (evloops s l))"
    and fc: "fresh_conn s1 = c + 1" and ps: "pollers s1 = pollers s"
    using NewConnection_runs [OF nx(1,2), of os call fd addr] unfolding c_def l_def ch_def by metis
  obtain sx where sx: "s1 = QueueInLoop os t l (BindConnectionEstablished c) sx"
    "kern sx = SetKeepAlive os fd True (snd (sys_getsockname os fd (kern s)))" "evloops sx = evloops s" "sstate.more sx = sstate.more s"
    using NewConnection_queues [OF nx(1) run nx(2)] unfolding l_def c_def by metis
  have int: "interest (kern s1) = interest (kern s)"
    unfolding sx(1) QueueInLoop_kernel(1) [OF laws] sx(2)
    using quiet_lawD(5,6) [OF kernel_lawsD(5) [OF laws]] by (simp add: SetKeepAlive_def)
  have wire: "wire (kern s1) x = wire (kern s) x" if "\<And>l. x \<noteq> el_wakeup_fd (evloops s l)" for x
  proof -
    have "wire (kern s1) x = wire (kern sx) x"
      unfolding sx(1) by (rule QueueInLoop_kernel(2) [OF laws]) (simp add: sx(3) that)
    then show ?thesis
      unfolding sx(2) using quiet_lawD(5,6) [OF kernel_lawsD(4) [OF laws]] by (simp add: SetKeepAlive_def)
  qed
  have net: "net_ok interest s1"
    by (rule net_ok_new_chan [OF _ _ _ cs ps int])
       (use mail fresh in \<open>simp_all add: mail_ok_def fresh_for_def Channel_def kNew_def ch_def\<close>)
  have "live_conns s1 = insert c (live_conns s)"
    by (rule NewConnection_table(2) [OF nx(3,4) c_def [THEN meta_eq_to_obj_eq] sv cn _ fc]) (simp add: new_conn_def)
  moreover have "chat s1 = chat s"
    unfolding sx(1) using sx(4) by (simp, cases s, cases sx) simp
  ultimately show thesis
    using fresh by (intro that [OF run net cn _ _ _ _ _ _ el]) (simp_all add: cs ps sv wire Channel_def kNew_def kNoneEvent_def fresh_for_def)
qed

text \<open>A connection that has just become ready joins those that messages can be sent to.\<close>

lemma mail_ok_insert:
  assumes mail: "mail_ok interest D s" and net: "net_ok interest s'" and ready: "conn_ready c s'"
    and old: "\<And>d. d \<in> D \<Longrightarrow> conns s' d = conns s d"
      "\<And>d. d \<in> D \<Longrightarrow> chans s' (tc_channel (conns s d)) = chans s (tc_channel (conns s d))"
    and wakeup: "\<And>l. el_wakeup_fd (evloops s' l) = el_wakeup_fd (evloops s l)"
    and own: "\<And>d. d \<in> D \<Longrightarrow> tc_channel (conns s d) \<noteq> tc_channel (conns s' c) \<and> tc_fd (conns s d) \<noteq> tc_fd (conns s' c)"
  shows "mail_ok interest (insert c D) s'"
proof -
  have "conn_ready d s'" if "d \<in> D" for d
    using mail that old [OF that] by (simp add: mail_ok_def conn_ready_def wakeup)
  then show ?thesis using mail net ready old(1) own by (fastforce simp: mail_ok_def)
qed

text \<open>Both halves together: the new connection and its channel, and the rest of the program.\<close>

definition joined :: "'k interest \<Rightarrow> conn \<Rightarrow> loop \<Rightarrow> fd \<Rightarrow> ('k, 'z) world_scheme \<Rightarrow> ('k, 'z) world_scheme \<Rightarrow> bool" where
  "joined interest c l fd s s' \<longleftrightarrow>
     (let tc = conns s' c; ch = chans s' (fresh_chan s) in
      tc_channel tc = fresh_chan s \<and> tc_loop tc = l \<and> tc_fd tc = fd \<and> tc_state tc = kConnected \<and>
      tc_conn_cb tc = Some FnOnConnection \<and> tc_close_cb tc = Some FnRemoveConnection \<and> tc_output tc = Buffer kInitialSize \<and>
      ch_fd ch = fd \<and> ch_loop ch = l \<and> ch_tie ch = Some c \<and> ch_tied ch \<and> ch_events ch = kReadEvent \<and> ch_index ch = kAdded) \<and>
     (\<forall>d. d \<noteq> c \<longrightarrow> conns s' d = conns s d) \<and> (\<forall>ch. ch \<noteq> fresh_chan s \<longrightarrow> chans s' ch = chans s ch) \<and>
     evloops s' = (evloops s)(l := push_pending (BindConnectionEstablished c) (evloops s l)) \<and>
     live_conns s' = insert c (live_conns s) \<and> sv_loop (server s') = sv_loop (server s) \<and> chat s' = chat s \<and>
     net_ok interest s' \<and>
     interest (kern s') (epoll_fd (pollers s' l)) fd = Some \<lparr>ev_events = kReadEvent, ev_ptr = fresh_chan s\<rparr>"

lemma joinedD:
  assumes "joined interest c l fd s s'"
  shows "tc_channel (conns s' c) = fresh_chan s" "tc_loop (conns s' c) = l" "tc_fd (conns s' c) = fd" "IsConnected c s'"
    "tc_conn_cb (conns s' c) = Some FnOnConnection" "tc_close_cb (conns s' c) = Some FnRemoveConnection"
    "tc_output (conns s' c) = Buffer kInitialSize"
    "ch_fd (chans s' (fresh_chan s)) = fd" "ch_loop (chans s' (fresh_chan s)) = l" "ch_tie (chans s' (fresh_chan s)) = Some c"
    "ch_tied (chans s' (fresh_chan s))" "ch_events (chans s' (fresh_chan s)) = kReadEvent" "ch_index (chans s' (fresh_chan s)) = kAdded"
    "d \<noteq> c \<Longrightarrow> conns s' d = conns s d" "ch \<noteq> fresh_chan s \<Longrightarrow> chans s' ch = chans s ch"
    "evloops s' = (evloops s)(l := push_pending (BindConnectionEstablished c) (evloops s l))"
    "live_conns s' = insert c (live_conns s)" "sv_loop (server s') = sv_loop (server s)" "chat s' = chat s"
    "net_ok interest s'"
    "interest (kern s') (epoll_fd (pollers s' l)) fd = Some \<lparr>ev_events = kReadEvent, ev_ptr = fresh_chan s\<rparr>"
  using assms by (simp_all add: joined_def Let_def IsConnected_def)

lemma joins:
  fixes s :: "('k, 'z) world_scheme"
  assumes laws: "kernel_laws os wire interest" and mail: "mail_ok interest D s" and up: "serving t 1 s"
    and fresh: "fresh_for D fd s" and cb: "sv_connection_cb (server s) = Some FnOnConnection"
  defines "c \<equiv> fresh_conn s" and "l \<equiv> get_loops (pool s) ! tp_next (pool s)"
  obtains s1 s2 where "NewConnection os (call_conn os t) t fd addr s = Inr s1"
    "exec_task os hwm t' (BindConnectionEstablished c) s1 = Inr s2" "joined interest c l fd s s2"
    "evloops s1 = evloops s2"
    "\<forall>x. (\<forall>l. x \<noteq> el_wakeup_fd (evloops s l)) \<longrightarrow> wire (kern s2) x = wire (kern s) x"
proof -
  let ?ch = "fresh_chan s"
  obtain s1 where run: "NewConnection os (call_conn os t) t fd addr s = Inr s1" and net1: "net_ok interest s1"
    and cn: "conns s1 = (conns s)(c := new_conn l fd (local_addr_of os fd (kern s)) addr ?ch (server s))"
    and chan: "ch_fd (chans s1 ?ch) = fd" "ch_loop (chans s1 ?ch) = l" "ch_index (chans s1 ?ch) = kNew"
      "ch_events (chans s1 ?ch) = kNoneEvent"
    and others: "\<forall>d. d \<noteq> ?ch \<longrightarrow> chans s1 d = chans s d" and free: "p_channels (pollers s1 l) fd = None"
    and el: "evloops s1 = (evloops s)(l := push_pending (BindConnectionEstablished c) (evloops s l))"
    and table: "live_conns s1 = insert c (live_conns s)" and sv: "sv_loop (server s1) = sv_loop (server s)"
    and room: "chat s1 = chat s"
    and wire1: "\<forall>x. (\<forall>l. x \<noteq> el_wakeup_fd (evloops s l)) \<longrightarrow> wire (kern s1) x = wire (kern s) x"
    unfolding c_def l_def by (rule NewConnection_mail [OF laws mail up fresh, where call = "call_conn os t" and addr = addr])
  have at: "tc_channel (conns s1 c) = ?ch" "tc_loop (conns s1 c) = l" "tc_fd (conns s1 c) = fd"
    "tc_conn_cb (conns s1 c) = Some FnOnConnection" "tc_close_cb (conns s1 c) = Some FnRemoveConnection"
    "tc_output (conns s1 c) = Buffer kInitialSize"
    by (simp_all add: cn new_conn_def cb)
  obtain s2 where est: "\<And>call. ConnectionEstablished os call c s1 = call_conn_fn call (Some FnOnConnection) c s2"
    and net2: "net_ok interest s2"
    and cn2: "conns s2 = (conns s1)(c := (conns s1 c)\<lparr>tc_state := kConnected\<rparr>)"
    and cs2: "chans s2 = (chans s1)(?ch := (Tie c (chans s1 ?ch))\<lparr>ch_events := kReadEvent, ch_index := kAdded\<rparr>)"
    and s2: "wire (kern s2) = wire (kern s1)" "evloops s2 = evloops s1" "cstate.more s2 = cstate.more s1"
      "interest (kern s2) (epoll_fd (pollers s2 l)) fd = Some \<lparr>ev_events = kReadEvent, ev_ptr = ?ch\<rparr>"
    using ConnectionEstablished_runs [OF laws net1, of c] unfolding at using chan free by metis
  have self: "tc_state (conns s2 c) = kConnected" "tc_channel (conns s2 c) = ?ch" "tc_loop (conns s2 c) = l" "tc_fd (conns s2 c) = fd"
    "tc_conn_cb (conns s2 c) = Some FnOnConnection" "tc_close_cb (conns s2 c) = Some FnRemoveConnection"
    "tc_output (conns s2 c) = Buffer kInitialSize" and rest: "\<And>d. d \<noteq> c \<Longrightarrow> conns s2 d = conns s d"
    using at by (simp_all add: cn2 cn)
  have "joined interest c l fd s s2"
    unfolding joined_def Let_def self
    using chan others net2 s2(4) rest table sv room by (simp add: cs2 Tie_def s2(2) el live_conns_def world_more [OF s2(3)])
  moreover have "exec_task os hwm t' (BindConnectionEstablished c) s1 = Inr s2"
    using self(1) by (simp add: exec_task_def est call_conn_fn_def call_conn_def OnConnection_def IsConnected_def)
  ultimately show thesis using run s2(1,2) wire1 by (intro that [of s1 s2]) simp_all
qed

text \<open>C11. Accepting and establishing a connection, in the threads that run the two halves, always succeeds:
  the connection is up, watched for reading by the poller of the loop whose turn it was, tied to its
  channel, in the server's table, and carries the server's callbacks, so that it can be sent to like
  those already there (\<open>mail_ok\<close>) and closed as \<open>connection_teardown\<close> says (\<open>in_service\<close>). Nothing
  has been sent on it, and what is on its way to the others is as before.\<close>

theorem connection_setup:
  fixes s :: "('k, 'z) world_scheme"
  assumes laws: "kernel_laws os wire interest" and mail: "mail_ok interest D s" and up: "serving t 1 s"
    and fresh: "fresh_for D fd s" and cb: "sv_connection_cb (server s) = Some FnOnConnection"
    and io: "\<not> IsInLoopThread t' (sv_loop (server s)) s"
  defines "c \<equiv> fresh_conn s" and "l \<equiv> get_loops (pool s) ! tp_next (pool s)"
  shows "\<exists>s1 s2. NewConnection os (call_conn os t) t fd addr s = Inr s1 \<and>
    last (el_pending (evloops s1 l)) = BindConnectionEstablished c \<and>
    exec_task os hwm t' (BindConnectionEstablished c) s1 = Inr s2 \<and>
    IsConnected c s2 \<and> tc_loop (conns s2 c) = l \<and> tc_fd (conns s2 c) = fd \<and>
    ch_tie (conn_channel s2 c) = Some c \<and> ch_tied (conn_channel s2 c) \<and>
    interest (kern s2) (epoll_fd (pollers s2 l)) fd =
      Some \<lparr>ev_events = kReadEvent, ev_ptr = tc_channel (conns s2 c)\<rparr> \<and>
    mail_ok interest (insert c D) s2 \<and> in_service t' c s2 \<and>
    live_conns s2 = insert c (live_conns s) \<and> chat s2 = chat s \<and>
    stream wire c s2 = wire (kern s) fd \<and> waiting c s2 = waiting c (upd_conn c (\<lambda>tc. tc\<lparr>tc_loop := l\<rparr>) s) \<and>
    (\<forall>d \<in> D. untouched wire d s s2)"
proof -
  obtain s1 s2 where run: "NewConnection os (call_conn os t) t fd addr s = Inr s1"
    "exec_task os hwm t' (BindConnectionEstablished c) s1 = Inr s2" and j: "joined interest c l fd s s2"
    and el: "evloops s1 = evloops s2" and wire: "\<forall>x. (\<forall>l. x \<noteq> el_wakeup_fd (evloops s l)) \<longrightarrow> wire (kern s2) x = wire (kern s) x"
    by (rule joins [OF laws mail up fresh cb, where t' = t' and addr = addr and hwm = hwm, folded c_def l_def]) (rule that)
  note j = joinedD [OF j]
  have f: "d \<noteq> c" "tc_channel (conns s d) \<noteq> fresh_chan s" "tc_fd (conns s d) \<noteq> fd" if "d \<in> D" for d
    using fresh that by (auto simp: fresh_for_def c_def)
  have wake: "fd \<noteq> el_wakeup_fd (evloops s k)" for k using fresh by (simp add: fresh_for_def)
  have loops: "el_wakeup_fd (evloops s2 k) = el_wakeup_fd (evloops s k)" "el_thread_id (evloops s2 k) = el_thread_id (evloops s k)"
    for k by (simp_all add: j(16) push_pending_def)
  have old: "conns s2 d = conns s d" "chans s2 (tc_channel (conns s d)) = chans s (tc_channel (conns s d))" if "d \<in> D" for d
    using j(14,15) f [OF that] by simp_all
  have "conn_ready c s2" using wake by (simp add: conn_ready_def j(1-13) loops kNew_def kAdded_def)
  then have mail2: "mail_ok interest (insert c D) s2"
    by (rule mail_ok_insert [OF mail j(20) _ old loops(1)]) (use f j(1,3) in auto)
  have "untouched wire d s s2" if d: "d \<in> D" for d
  proof -
    have "wire (kern s2) (tc_fd (conns s d)) = wire (kern s) (tc_fd (conns s d))"
      using wire mail d by (simp add: mail_ok_def conn_ready_def)
    then show ?thesis by (simp add: untouched_def stream_def waiting_def old [OF d] j(16) push_pending_def)
  qed
  moreover have "stream wire c s2 = wire (kern s) fd" using wire wake by (simp add: stream_def j(3,7))
  moreover have "in_service t' c s2"
    using io by (simp add: in_service_def j(1-13,18) IsInLoopThread_def loops)
  ultimately show ?thesis
    using run j mail2 by (intro exI [of _ s1] exI [of _ s2]) (simp add: el push_pending_def waiting_def)
qed

text \<open>The server of theory \<open>ServerCorrect\<close> with nobody in its room; thread 12 runs loop 12.\<close>

definition demo_hall :: "demo world" where
  "demo_hall = sstate.extend demo_server (world.fields \<lparr>name_conn_map = [], conn_name_map = []\<rparr>)"

lemma demo_hall_simps [simp]:
  "kern demo_hall = kern demo_server" "chans demo_hall = chans demo_server"
  "pollers demo_hall = pollers demo_server" "evloops demo_hall = evloops demo_server"
  "conns demo_hall = conns demo_server" "server demo_hall = server demo_server"
  "pool demo_hall = pool demo_server" "fresh_conn demo_hall = fresh_conn demo_server"
  "fresh_chan demo_hall = fresh_chan demo_server"
  by (simp_all add: demo_hall_def demo_server_def sstate.defs world.defs)

lemma demo_hall_ok:
  "mail_ok dk_interest {} demo_hall" "serving 1 1 demo_hall" "fresh_for {} 20 demo_hall"
  using demo_serving [of 1]
  by (simp_all add: serving_def IsInLoopThread_def table_ok_def)
     (simp_all add: mail_ok_def net_ok_def poller_ok_def fresh_for_def demo_server_def demo_kernel_def Channel_def inj_def kNew_def)

theorem connection_setup_witness:
  "\<exists>s1 s2. NewConnection demo_os (call_conn demo_os 1) 1 20 no_addr demo_hall = Inr s1 \<and>
     exec_task demo_os (\<lambda>f c n s. Inr s) 12 (BindConnectionEstablished 0) s1 = Inr s2 \<and>
     IsConnected 0 s2 \<and> live_conns s2 = {0} \<and> mail_ok dk_interest {0} s2 \<and> in_service 12 0 s2"
proof -
  have "sv_connection_cb (server demo_hall) = Some FnOnConnection"
    "\<not> IsInLoopThread 12 (sv_loop (server demo_hall)) demo_hall" "fresh_conn demo_hall = 0"
    "live_conns demo_hall = {}"
    by (simp_all add: IsInLoopThread_def live_conns_def) (simp_all add: demo_server_def)
  from connection_setup [OF demo_laws demo_hall_ok this(1,2), of no_addr "\<lambda>f c n s. Inr s"] this(3,4)
  show ?thesis by auto
qed

subsection \<open>From a loop's queue to the sockets\<close>

lemma same_status_upd_loop:
  fixes s :: "('k, 'z) cstate_scheme" and l :: loop
  assumes "\<And>el. el_thread_id (f el) = el_thread_id el" "\<And>el. el_wakeup_fd (f el) = el_wakeup_fd el"
  shows "same_status s (upd_loop l f s)" "mail_ok interest D s \<Longrightarrow> mail_ok interest D (upd_loop l f s)"
    "stream wire d (upd_loop l f s) = stream wire d s"
proof -
  define s' where "s' = upd_loop l f s"
  have same: "kern s' = kern s" "chans s' = chans s" "pollers s' = pollers s" "conns s' = conns s"
    "el_wakeup_fd (evloops s' k) = el_wakeup_fd (evloops s k)" "el_thread_id (evloops s' k) = el_thread_id (evloops s k)"
    "cstate.more s' = cstate.more s" for k
    using assms by (simp_all add: s'_def)
  show "same_status s s'" by (simp add: same_status_def same)
  show "stream wire d s' = stream wire d s" by (simp add: stream_def same)
  show "mail_ok interest D s'" if "mail_ok interest D s"
  proof -
    have "net_ok interest s'" by (rule net_ok_cong) (use that in \<open>simp_all add: same mail_ok_def\<close>)
    then show ?thesis using that by (simp add: mail_ok_def conn_ready_def same)
  qed
qed

text \<open>The functors of one loop that carry messages to connections of that loop.\<close>

definition carries :: "conn set \<Rightarrow> loop \<Rightarrow> ('k, 'z) cstate_scheme \<Rightarrow> task \<Rightarrow> bool" where
  "carries D l s f \<longleftrightarrow> (\<exists>d \<in> D. \<exists>msg. f = BindSendInLoop d msg \<and> tc_loop (conns s d) = l)"

text \<open>
  The bytes that messages come to which are sent in order, each of them whole, but for those the
  kernel may refuse because the peer is gone.
\<close>

definition refuses :: "'k os \<Rightarrow> fd \<Rightarrow> string \<Rightarrow> bool" where
  "refuses os fd msg \<longleftrightarrow> (\<exists>k. fst (sys_write os fd msg k) \<in> {Inl EPIPE, Inl ECONNRESET})"

inductive delivered :: "(string \<Rightarrow> bool) \<Rightarrow> string list \<Rightarrow> string \<Rightarrow> bool" for R where
  nothing: "delivered R [] []"
| taken: "delivered R msgs bytes \<Longrightarrow> delivered R (msg # msgs) (msg @ bytes)"
| refused: "R msg \<Longrightarrow> delivered R msgs bytes \<Longrightarrow> delivered R (msg # msgs) bytes"

inductive_simps delivered_simps [simp]: "delivered R [] bytes" "delivered R (msg # msgs) bytes"

lemma delivered_append: "delivered R ms b \<Longrightarrow> delivered R ns c \<Longrightarrow> delivered R (ms @ ns) (b @ c)"
  by (induction rule: delivered.induct) auto

lemma delivered_all: "\<forall>m \<in> set ms. \<not> R m \<Longrightarrow> delivered R ms b \<longleftrightarrow> b = concat ms"
  by (induction ms arbitrary: b) auto

definition told ::
  "'k os \<Rightarrow> ('k \<Rightarrow> fd \<Rightarrow> string) \<Rightarrow> string list \<Rightarrow> conn \<Rightarrow> ('k, 'z) cstate_scheme \<Rightarrow> ('k, 'z) cstate_scheme \<Rightarrow> bool" where
  "told os wire msgs d s s' \<longleftrightarrow>
     (\<exists>bytes. stream wire d s' = stream wire d s @ bytes \<and>
        (if tc_state (conns s d) = kDisconnected then bytes = []
         else delivered (refuses os (tc_fd (conns s d))) msgs bytes))"

lemma told_nothing: "stream wire d s' = stream wire d s \<Longrightarrow> told os wire [] d s s'"
  by (simp add: told_def)

lemma told_trans:
  assumes "told os wire ms d s s1" "told os wire ns d s1 s2" "same_status s s1"
  shows "told os wire (ms @ ns) d s s2"
proof -
  have same: "tc_state (conns s1 d) = tc_state (conns s d)" "tc_fd (conns s1 d) = tc_fd (conns s d)"
    using assms(3) by (simp_all add: same_status_def)
  show ?thesis
  proof (cases "tc_state (conns s d) = kDisconnected")
    case True
    with assms(1,2) show ?thesis by (simp add: told_def same)
  next
    case False
    with assms(1,2) obtain b c where "stream wire d s1 = stream wire d s @ b" "stream wire d s2 = stream wire d s1 @ c"
      "delivered (refuses os (tc_fd (conns s d))) ms b" "delivered (refuses os (tc_fd (conns s d))) ns c"
      by (auto simp: told_def same)
    with False show ?thesis unfolding told_def by (auto intro: delivered_append)
  qed
qed

lemma carries_status: "same_status s s' \<Longrightarrow> carries D l s' f = carries D l s f"
  by (simp add: carries_def same_status_def)

text \<open>One message of the batch, and all of it; it ends early only where an output buffer misjudges a length.\<close>

lemma send_told:
  fixes s :: "('k, 'z) world_scheme"
  assumes laws: "kernel_laws os wire interest" and ok: "mail_ok interest D s" and c: "c \<in> D"
  shows "(\<exists>s'. exec_task os hwm t (BindSendInLoop c msg) s = Inr s' \<and> mail_ok interest D s' \<and> same_status s s' \<and>
       (\<forall>d \<in> D. waiting d s' = waiting d s \<and> told os wire (send_msg d (BindSendInLoop c msg)) d s s' \<and>
          (d \<noteq> c \<longrightarrow> untouched wire d s s'))) \<or>
    exec_task os hwm t (BindSendInLoop c msg) s = Inl HeapOverrun \<and> chokes c msg s"
proof (cases "tc_state (conns s c) = kDisconnected")
  case True
  with ok show ?thesis by (simp add: exec_task_def SendInLoop_def told_def untouched_def)
next
  case False
  from SendInLoop_mail [OF laws ok c False, of t msg]
  consider (sent) s' where "SendInLoop os t c msg s = Inr s'" "mail_ok interest D s'" "same_status s s'"
      "waiting c s' = waiting c s" "\<forall>d \<in> D. d \<noteq> c \<longrightarrow> untouched wire d s s'"
      "stream wire c s' = stream wire c s @ msg \<or> stream wire c s' = stream wire c s \<and> lost os wire msg c s"
    | (full) "SendInLoop os t c msg s = Inl HeapOverrun" "chokes c msg s"
    by blast
  then show ?thesis
  proof cases
    case s': sent
    then have here: "told os wire [msg] c s s'"
      using False by (auto simp: told_def lost_def refuses_def)
    have "waiting d s' = waiting d s \<and> told os wire (send_msg d (BindSendInLoop c msg)) d s s'" if "d \<in> D" for d
      using s'(4,5) here that by (cases "d = c") (auto simp: untouched_def told_nothing)
    with s' show ?thesis by (simp add: exec_task_def)
  next
    case full
    then show ?thesis by (simp add: exec_task_def)
  qed
qed

lemma sends_run:
  fixes s :: "('k, 'z) world_scheme"
  assumes laws: "kernel_laws os wire interest"
  shows "mail_ok interest D s \<Longrightarrow> \<forall>f \<in> set fs. carries D l s f \<Longrightarrow>
    (\<exists>s'. foldR (exec_task os hwm t) fs s = Inr s' \<and> mail_ok interest D s' \<and> same_status s s' \<and>
       (\<forall>d \<in> D. waiting d s' = waiting d s \<and> told os wire (concat (map (send_msg d) fs)) d s s' \<and>
          (tc_loop (conns s d) \<noteq> l \<longrightarrow> untouched wire d s s'))) \<or>
    foldR (exec_task os hwm t) fs s = Inl HeapOverrun \<and>
      (\<exists>before d msg rest s1. fs = before @ BindSendInLoop d msg # rest \<and>
         foldR (exec_task os hwm t) before s = Inr s1 \<and> chokes d msg s1)"
proof (induction fs arbitrary: s)
  case Nil
  then show ?case by (simp add: told_nothing untouched_def)
next
  case (Cons f fs)
  then obtain c msg where f: "f = BindSendInLoop c msg" and c: "c \<in> D" "tc_loop (conns s c) = l"
    by (auto simp: carries_def)
  from send_told [OF laws Cons.prems(1) c(1), of hwm t msg, folded f] show ?case
  proof (elim disjE exE conjE)
    fix s1 assume s1: "exec_task os hwm t f s = Inr s1" "mail_ok interest D s1" "same_status s s1"
      "\<forall>d \<in> D. waiting d s1 = waiting d s \<and> told os wire (send_msg d f) d s s1 \<and> (d \<noteq> c \<longrightarrow> untouched wire d s s1)"
    have "\<forall>g \<in> set fs. carries D l s1 g" using Cons.prems(2) by (simp add: carries_status [OF s1(3)])
    from Cons.IH [OF s1(2) this] show ?thesis
    proof (elim disjE exE conjE)
      fix s2 assume s2: "foldR (exec_task os hwm t) fs s1 = Inr s2" "mail_ok interest D s2" "same_status s1 s2"
        "\<forall>d \<in> D. waiting d s2 = waiting d s1 \<and> told os wire (concat (map (send_msg d) fs)) d s1 s2 \<and>
          (tc_loop (conns s1 d) \<noteq> l \<longrightarrow> untouched wire d s1 s2)"
      have "told os wire (send_msg d f @ concat (map (send_msg d) fs)) d s s2" if "d \<in> D" for d
        using s1(3,4) s2(4) that told_trans by blast
      moreover have "untouched wire d s s2" if "d \<in> D" "tc_loop (conns s d) \<noteq> l" for d
        using s1(3,4) s2(4) that c(2) untouched_trans by (metis same_status_def)
      ultimately show ?thesis
        using s1(1,4) s2 same_status_trans [OF s1(3) s2(3)] by simp
    next
      fix dn d m rest s2 assume "foldR (exec_task os hwm t) fs s1 = Inl HeapOverrun"
        "fs = dn @ BindSendInLoop d m # rest" "foldR (exec_task os hwm t) dn s1 = Inr s2" "chokes d m s2"
      with s1(1) show ?thesis
        by (intro disjI2 conjI exI [of _ "f # dn"] exI [of _ d] exI [of _ m] exI [of _ rest] exI [of _ s2]) simp_all
    qed
  next
    assume "exec_task os hwm t f s = Inl HeapOverrun" "chokes c msg s"
    then show ?thesis
      by (intro disjI2 conjI exI [of _ "[]"] exI [of _ c] exI [of _ msg] exI [of _ fs] exI [of _ s]) (simp_all add: f)
  qed
qed

text \<open>The state in which \<open>DoPendingFunctors\<close> runs its batch.\<close>

abbreviation swapped :: "loop \<Rightarrow> ('k, 'z) lstate_scheme \<Rightarrow> ('k, 'z) lstate_scheme" where
  "swapped l s \<equiv> upd_loop l (\<lambda>el. el\<lparr>el_calling := True, el_pending := []\<rparr>) s"

text \<open>C8. Messages that other threads have sent wait as functors in the loop of their connection. When the
  loop runs its functors, and they are all of this kind, every one of its connections that is not
  disconnected gets what waited for it, in the order in which it was sent and each message whole,
  behind what its stream held (\<open>told\<close>), but for messages whose write the kernel answers with \<open>EPIPE\<close> or
  \<open>ECONNRESET\<close>; what waited for a disconnected one is dropped. Nothing is left waiting, and nothing
  happens to the connections of other loops. The one fault is that a message overruns the output
  buffer of its connection, at its turn, and only at a length that the buffer misjudges (\<open>chokes\<close>).\<close>

theorem waiting_delivered:
  fixes s :: "('k, 'z) world_scheme"
  assumes laws: "kernel_laws os wire interest" and ok: "mail_ok interest D s"
    and mail: "\<forall>f \<in> set (el_pending (evloops s l)). carries D l s f"
  shows "(\<exists>s'. DoPendingFunctors (exec_task os hwm t) l s = Inr s' \<and> mail_ok interest D s' \<and> same_status s s' \<and>
       (\<forall>d \<in> D. if tc_loop (conns s d) = l
          then told os wire (waiting d s) d s s' \<and> waiting d s' = []
          else untouched wire d s s')) \<or>
    DoPendingFunctors (exec_task os hwm t) l s = Inl HeapOverrun \<and>
      (\<exists>before d msg rest s1. el_pending (evloops s l) = before @ BindSendInLoop d msg # rest \<and>
         foldR (exec_task os hwm t) before (swapped l s) = Inr s1 \<and> chokes d msg s1)"
proof -
  let ?fs = "el_pending (evloops s l)"
  define s1 where "s1 = swapped l s"
  have run: "DoPendingFunctors (exec_task os hwm t) l s = bind_res (foldR (exec_task os hwm t) ?fs s1)
      (\<lambda>s3. Inr (upd_loop l (\<lambda>el. el\<lparr>el_calling := False\<rparr>) s3))"
    by (simp add: DoPendingFunctors_def swap_pending_def s1_def upd_loop_def comp_def)
  have s1: "same_status s s1" "mail_ok interest D s1" "stream wire d s1 = stream wire d s" "conns s1 = conns s" for d
    unfolding s1_def using ok by (simp_all add: same_status_upd_loop)
  have wait1: "waiting d s1 = (if tc_loop (conns s d) = l then [] else waiting d s)" for d
    by (simp add: waiting_def s1_def)
  have fs: "\<forall>f \<in> set ?fs. carries D l s1 f" using mail by (simp add: carries_status [OF s1(1)])
  from sends_run [OF laws s1(2) fs, of hwm t] show ?thesis
  proof (elim disjE exE conjE)
    fix s2 assume s2: "foldR (exec_task os hwm t) ?fs s1 = Inr s2" "mail_ok interest D s2" "same_status s1 s2"
      "\<forall>d \<in> D. waiting d s2 = waiting d s1 \<and> told os wire (concat (map (send_msg d) ?fs)) d s1 s2 \<and>
          (tc_loop (conns s1 d) \<noteq> l \<longrightarrow> untouched wire d s1 s2)"
    define s3 where "s3 = upd_loop l (\<lambda>el. el\<lparr>el_calling := False\<rparr>) s2"
    have s3: "same_status s2 s3" "mail_ok interest D s3" "stream wire d s3 = stream wire d s2"
      "waiting d s3 = waiting d s2" "conns s3 = conns s2" for d
      unfolding s3_def using s2(2) by (simp_all add: same_status_upd_loop) (simp add: waiting_def)
    have "if tc_loop (conns s d) = l then told os wire (waiting d s) d s s3 \<and> waiting d s3 = []
          else untouched wire d s s3" if "d \<in> D" for d
    proof (cases "tc_loop (conns s d) = l")
      case True
      then have "waiting d s = concat (map (send_msg d) ?fs)" by (simp add: waiting_def)
      moreover have "told os wire ms d s s3 = told os wire ms d s1 s2" for ms by (simp only: told_def s1(3,4) s3(3))
      ultimately show ?thesis using True s2(4) that by (simp add: wait1 s3(4))
    next
      case False
      with s2(4) that show ?thesis by (simp add: untouched_def wait1 s1(3,4) s3(3-5))
    qed
    moreover have "DoPendingFunctors (exec_task os hwm t) l s = Inr s3" by (simp add: run s2(1) s3_def)
    moreover have "same_status s s3" using same_status_trans s1(1) s2(3) s3(1) by blast
    ultimately show ?thesis using s3(2) by blast
  next
    fix dn d msg rest s2 assume "foldR (exec_task os hwm t) ?fs s1 = Inl HeapOverrun"
      "?fs = dn @ BindSendInLoop d msg # rest" "foldR (exec_task os hwm t) dn s1 = Inr s2" "chokes d msg s2"
    then show ?thesis unfolding run s1_def [symmetric] by auto
  qed
qed

definition demo_mail :: "demo world" where
  "demo_mail = upd_loop 0 (\<lambda>el. el\<lparr>el_pending := [BindSendInLoop 2 ''hi'', BindSendInLoop 3 ''you'',
     BindSendInLoop 2 ''!'']\<rparr>) (demo_world 100 demo_full_room)"

lemma demo_exec_send:
  assumes "dk_cap (kern s) = 100" "length msg \<le> 100" "d = 2 \<or> d = 3"
    and "conns s d = conns (demo_cstate 100) d" "chans s d = chans (demo_cstate 100) d"
    and "el_thread_id (evloops s 0) = 1"
  shows "exec_task demo_os hwm 1 (BindSendInLoop d msg) s =
     Inr (s\<lparr>kern := demo_sent (if d = 2 then 7 else 8) msg (kern s)\<rparr>)"
proof -
  have "tc_state (conns s d) = kConnected" "tc_loop (conns s d) = 0"
    using assms(3,4) by (auto simp: demo_cstate_def demo_conn_def)
  then show ?thesis
    using demo_Send_any [OF assms] assms(6) by (simp add: exec_task_def Send_def IsInLoopThread_def)
qed

lemma demo_mail_ready:
  "mail_ok dk_interest {2, 3} demo_mail" "\<forall>f \<in> set (el_pending (evloops demo_mail 0)). carries {2, 3} 0 demo_mail f"
  unfolding demo_mail_def
  using demo_mail_ok by (simp_all add: same_status_upd_loop) (simp add: carries_def demo_cstate_def demo_conn_def)

theorem waiting_delivered_witness:
  "\<exists>s'. DoPendingFunctors (exec_task demo_os (\<lambda>f c n s. Inr s) 1) 0 demo_mail = Inr s' \<and>
     stream dk_wire 2 s' = ''hi!'' \<and> stream dk_wire 3 s' = ''you'' \<and> waiting 2 s' = []"
proof -
  have "\<exists>s'. DoPendingFunctors (exec_task demo_os (\<lambda>f c n s. Inr s) 1) 0 demo_mail = Inr s'"
    by (simp add: DoPendingFunctors_def swap_pending_def demo_mail_def demo_exec_send)
  moreover have "stream dk_wire 2 demo_mail = []" "stream dk_wire 3 demo_mail = []"
    "tc_loop (conns demo_mail 2) = 0" "tc_loop (conns demo_mail 3) = 0"
    "waiting 2 demo_mail = [''hi'', ''!'']" "waiting 3 demo_mail = [''you'']"
    by (simp_all add: demo_mail_def stream_def waiting_def) (simp_all add: demo_cstate_def demo_conn_def demo_kernel_def)
  moreover have "told demo_os dk_wire ms d s s' \<Longrightarrow> tc_state (conns s d) \<noteq> kDisconnected \<Longrightarrow>
      stream dk_wire d s' = stream dk_wire d s @ concat ms" for ms d and s s' :: "demo world"
    using delivered_all [of ms "refuses demo_os (tc_fd (conns s d))"]
    by (auto simp: told_def refuses_def demo_write_def Let_def)
  moreover have "tc_state (conns demo_mail d) = kConnected" if "d = 2 \<or> d = 3" for d
    using that by (auto simp: demo_mail_def) (simp add: demo_cstate_def demo_conn_def)
  ultimately show ?thesis
    using waiting_delivered [OF demo_laws demo_mail_ready, of "\<lambda>f c n s. Inr s" 1] by fastforce
qed

end
