(* ===== verification/Traffic.thy ===== *)
theory Traffic
  imports Lifecycle
begin

text \<open>
  What the sending of messages leaves alone, whoever sends and whatever the kernel answers:
  everything but the output buffers, the interest in writing, the kernel, and functors added at the
  end of the queues, which carry messages or report a high-water mark nobody listens to.
\<close>

subsection \<open>The frame\<close>

definition conn_core :: "tcp_connection \<Rightarrow> tcp_connection" where
  "conn_core tc = tc\<lparr>tc_output := Buffer 0\<rparr>"

definition chan_core :: "channel \<Rightarrow> channel" where
  "chan_core ch = ch\<lparr>ch_events := ch_events ch AND kReadEvent\<rparr>"

text \<open>The functors that sending may leave in the queue of loop \<open>l\<close>.\<close>

definition mail_task :: "('k, 'z) world_scheme \<Rightarrow> loop \<Rightarrow> task \<Rightarrow> bool" where
  "mail_task s l f \<longleftrightarrow>
     (case f of
        BindSendInLoop d msg \<Rightarrow>
          d < fresh_conn s \<and> l = tc_loop (conns s d) \<and> tc_state (conns s d) \<noteq> kConnecting
      | BindHighWaterMark g d n \<Rightarrow> g = None
      | _ \<Rightarrow> False)"

definition traffic :: "('k, 'z) world_scheme \<Rightarrow> ('k, 'z) world_scheme \<Rightarrow> bool" where
  "traffic s s' \<longleftrightarrow>
     (\<forall>d. conn_core (conns s' d) = conn_core (conns s d) \<and>
          (buffer_inv (tc_output (conns s d)) \<longrightarrow> buffer_inv (tc_output (conns s' d)))) \<and>
     (\<forall>ch. chan_core (chans s' ch) = chan_core (chans s ch) \<and>
           (ch_index (chans s ch) \<noteq> kAdded \<longrightarrow> chans s' ch = chans s ch)) \<and>
     pollers s' = pollers s \<and> fresh_chan s' = fresh_chan s \<and> cstate.more s' = cstate.more s \<and>
     (\<forall>l. \<exists>fs. evloops s' l = (evloops s l)\<lparr>el_pending := el_pending (evloops s l) @ fs\<rparr> \<and>
                (\<forall>f \<in> set fs. mail_task s l f))"

lemma conn_core_fields:
  assumes "conn_core x = conn_core y"
  shows "tc_loop x = tc_loop y" "tc_name x = tc_name y" "tc_state x = tc_state y" "tc_fd x = tc_fd y"
    "tc_channel x = tc_channel y" "tc_conn_cb x = tc_conn_cb y" "tc_msg_cb x = tc_msg_cb y"
    "tc_write_complete_cb x = tc_write_complete_cb y" "tc_high_water_mark_cb x = tc_high_water_mark_cb y"
    "tc_close_cb x = tc_close_cb y" "tc_input x = tc_input y"
  using assms by (cases x, cases y, simp add: conn_core_def)+

lemma chan_core_fields:
  assumes "chan_core x = chan_core y"
  shows "ch_loop x = ch_loop y" "ch_fd x = ch_fd y" "ch_index x = ch_index y" "IsReading x = IsReading y"
  using assms by (cases x, cases y, simp add: chan_core_def IsReading_def)+

lemma world_tail:
  fixes s s' :: "('k, 'z) world_scheme"
  assumes "cstate.more s' = cstate.more s"
  shows "server s' = server s" "chat s' = chat s" "pool s' = pool s" "fresh_conn s' = fresh_conn s"
    "the_acceptor s' = the_acceptor s"
  using assms by (cases s, cases s', simp)+

lemma trafficD:
  assumes "traffic s s'"
  shows "conn_core (conns s' d) = conn_core (conns s d)" "chan_core (chans s' ch) = chan_core (chans s ch)"
    "buffer_inv (tc_output (conns s d)) \<Longrightarrow> buffer_inv (tc_output (conns s' d))"
    "ch_index (chans s ch) \<noteq> kAdded \<Longrightarrow> chans s' ch = chans s ch"
    "pollers s' = pollers s" "fresh_chan s' = fresh_chan s" "cstate.more s' = cstate.more s"
    "\<exists>fs. evloops s' l = (evloops s l)\<lparr>el_pending := el_pending (evloops s l) @ fs\<rparr> \<and> (\<forall>f \<in> set fs. mail_task s l f)"
  using assms unfolding traffic_def by blast+

lemma traffic_loop:
  assumes "traffic s s'"
  shows "el_thread_id (evloops s' l) = el_thread_id (evloops s l)" "el_wakeup_fd (evloops s' l) = el_wakeup_fd (evloops s l)"
  using trafficD(8) [OF assms, of l] by auto

lemma mail_task_traffic:
  assumes "traffic s s1"
  shows "mail_task s1 l f = mail_task s l f"
  using conn_core_fields [OF trafficD(1) [OF assms]] world_tail(4) [OF trafficD(7) [OF assms]]
  by (simp add: mail_task_def split: task.split)

lemma traffic_refl: "traffic s s"
  unfolding traffic_def by (intro conjI allI exI [of _ "[]"]) simp_all

lemma traffic_trans:
  assumes 1: "traffic s s1" and 2: "traffic s1 s2"
  shows "traffic s s2"
proof -
  have "\<exists>fs. evloops s2 l = (evloops s l)\<lparr>el_pending := el_pending (evloops s l) @ fs\<rparr> \<and> (\<forall>f \<in> set fs. mail_task s l f)" for l
  proof -
    obtain fs gs where "evloops s1 l = (evloops s l)\<lparr>el_pending := el_pending (evloops s l) @ fs\<rparr>"
      "\<forall>f \<in> set fs. mail_task s l f" "evloops s2 l = (evloops s1 l)\<lparr>el_pending := el_pending (evloops s1 l) @ gs\<rparr>"
      "\<forall>f \<in> set gs. mail_task s1 l f"
      using trafficD(8) [OF 1, of l] trafficD(8) [OF 2, of l] by blast
    then show ?thesis by (intro exI [of _ "fs @ gs"]) (auto simp: mail_task_traffic [OF 1])
  qed
  moreover have "ch_index (chans s1 ch) = ch_index (chans s ch)" for ch
    by (rule chan_core_fields(3) [OF trafficD(2) [OF 1]])
  ultimately show ?thesis
    using trafficD(1-7) [OF 1] trafficD(1-7) [OF 2] unfolding traffic_def by auto
qed

lemma traffic_kern: "traffic s (s\<lparr>kern := k\<rparr>)"
  unfolding traffic_def by (intro conjI allI exI [of _ "[]"]) simp_all

lemma traffic_output: "buffer_inv b \<Longrightarrow> traffic s (upd_conn c (\<lambda>tc. tc\<lparr>tc_output := b\<rparr>) s)"
  unfolding traffic_def by (intro conjI allI exI [of _ "[]"]) (simp_all add: conn_core_def)

lemma traffic_queue:
  assumes "mail_task s l f"
  shows "traffic s (QueueInLoop os t l f s)"
  unfolding traffic_def
proof (intro conjI allI)
  fix k
  show "\<exists>fs. evloops (QueueInLoop os t l f s) k = (evloops s k)\<lparr>el_pending := el_pending (evloops s k) @ fs\<rparr> \<and>
      (\<forall>f \<in> set fs. mail_task s k f)"
    using assms by (intro exI [of _ "if k = l then [f] else []"]) (simp add: push_pending_def)
qed (simp_all add: QueueInLoop_def WakeUp_def Let_def)

subsection \<open>Interest in writing\<close>

lemma mask_simps:
  "(ev OR kWriteEvent) AND kReadEvent = ev AND kReadEvent"
  "(ev AND NOT kWriteEvent) AND kReadEvent = ev AND kReadEvent"
proof -
  have apart: "\<not> (bit kReadEvent n \<and> bit kWriteEvent n)" for n
    using mask_read_write by (metis bit_0_eq bit_and_iff bot_apply bot_bool_def)
  show "(ev OR kWriteEvent) AND kReadEvent = ev AND kReadEvent"
    by (rule bit_word_eqI) (use apart in \<open>auto simp: bit_simps\<close>)
  show "(ev AND NOT kWriteEvent) AND kReadEvent = ev AND kReadEvent"
    by (rule bit_word_eqI) (use apart in \<open>auto simp: bit_simps\<close>)
qed

lemma update_traffic:
  fixes s :: "('k, 'z) world_scheme"
  assumes laws: "kernel_laws os wire interest" and net: "net_ok interest s" and f: "keeps f"
    and added: "ch_index (chans s ch) = kAdded" and some: "\<not> IsNoneEvent (f (chans s ch))"
    and core: "\<And>x. chan_core (f x) = chan_core x"
    and run: "Channel_Update os ch (upd_chan ch f s) = Inr s'"
  shows "traffic s s'" "net_ok interest s'"
proof -
  obtain s1 where s1: "Channel_Update os ch (upd_chan ch f s) = Inr s1" "net_ok interest s1"
    "updated ch (upd_chan ch f s) s1"
    using Channel_Update_net [OF kernel_lawsD(3) [OF laws] net f, of ch] added by auto
  with run have s': "s' = s1" by simp
  show "net_ok interest s'" using s1(2) by (simp add: s')
  let ?x = "f (chans s ch)"
  have keep: "ch_index ?x = kAdded" "ch_fd ?x = ch_fd (chans s ch)" "ch_loop ?x = ch_loop (chans s ch)"
    using f added by (simp_all add: keeps_def)
  have "next_index ?x = kAdded" using some by (simp add: next_index_def)
  then have chans: "chans s1 = (chans s)(ch := ?x)"
    using s1(3) keep(1) by (cases ?x) (simp add: updated_def Let_def)
  have "p_channels (pollers s (ch_loop (chans s ch))) (ch_fd (chans s ch)) = Some ch"
    using poller_ok_owned [OF net_okD(1) [OF net] refl] added by simp
  then have pollers: "pollers s1 = pollers s"
    using s1(3) keep by (simp add: updated_def Let_def fun_upd_idem)
  have more: "pstate.more s1 = pstate.more s" using s1(3) by (simp add: updated_def Let_def)
  have "fresh_chan s1 = fresh_chan s" using more by (cases s, cases s1) simp
  then show "traffic s s'"
    unfolding traffic_def s'
    using core added by (auto simp: chans pollers more_upper [OF more] intro!: exI [of _ "[]"])
qed

lemma EnableWriting_traffic:
  fixes s :: "('k, 'z) world_scheme"
  assumes "kernel_laws os wire interest" "net_ok interest s" "ch_index (chans s ch) = kAdded"
    and "EnableWriting os ch s = Inr s'"
  shows "traffic s s'" "net_ok interest s'"
proof -
  have "IsWriting (add_write (chans s ch))" by (simp add: IsWriting_bit channel_events bit_simps)
  moreover have "\<not> IsWriting x" if "IsNoneEvent x" for x
    using that by (simp add: IsNoneEvent_def IsWriting_def kNoneEvent_def)
  ultimately have "\<not> IsNoneEvent (add_write (chans s ch))" by blast
  moreover have "chan_core (add_write x) = chan_core x" for x
    by (simp add: chan_core_def add_write_def mask_simps)
  ultimately show "traffic s s'" "net_ok interest s'"
    using update_traffic [OF assms(1,2) keeps_simps(3) assms(3)] assms(4) by (simp_all add: EnableWriting_def)
qed

lemma DisableWriting_traffic:
  fixes s :: "('k, 'z) world_scheme"
  assumes "kernel_laws os wire interest" "net_ok interest s" "ch_index (chans s ch) = kAdded"
    and reading: "IsReading (chans s ch)" and "DisableWriting os ch s = Inr s'"
  shows "traffic s s'" "net_ok interest s'"
proof -
  have core: "chan_core (del_write x) = chan_core x" for x
    by (simp add: chan_core_def del_write_def mask_simps)
  have "IsReading (del_write (chans s ch))"
    using reading chan_core_fields(4) [OF core] by blast
  then have "\<not> IsNoneEvent (del_write (chans s ch))"
    by (auto simp: IsNoneEvent_def IsReading_def kNoneEvent_def)
  then show "traffic s s'" "net_ok interest s'"
    using update_traffic [OF assms(1,2) keeps_simps(4) assms(3)] core assms(5) by (simp_all add: DisableWriting_def)
qed

subsection \<open>Sending\<close>

text \<open>A connection that can be sent to, as far as the sender can tell.\<close>

definition sendable :: "conn \<Rightarrow> ('k, 'z) world_scheme \<Rightarrow> bool" where
  "sendable d s \<longleftrightarrow>
     d < fresh_conn s \<and> conn_ready d s \<and> tc_write_complete_cb (conns s d) = None \<and>
     tc_high_water_mark_cb (conns s d) = None \<and>
     (tc_state (conns s d) \<noteq> kDisconnected \<longrightarrow> ch_index (conn_channel s d) = kAdded)"

lemma sendable_traffic:
  assumes tr: "traffic s s'" and ok: "sendable d s"
  shows "sendable d s'"
  using ok conn_core_fields [OF trafficD(1) [OF tr, of d]] trafficD(3) [OF tr, of d]
    chan_core_fields [OF trafficD(2) [OF tr, of "tc_channel (conns s d)"]]
    traffic_loop(2) [OF tr] world_tail(4) [OF trafficD(7) [OF tr]]
  by (simp add: sendable_def conn_ready_def)

lemma send_direct_traffic:
  fixes s :: "('k, 'z) world_scheme"
  assumes "send_direct os t c str s = (nwrote, remaining, fault, s1)" "tc_write_complete_cb (conns s c) = None"
  shows "traffic s s1"
  using assms
  by (auto simp: send_direct_def Let_def queue_write_complete_def traffic_kern traffic_refl split: if_splits prod.splits sum.splits)

lemma send_buffered_traffic:
  fixes s :: "('k, 'z) world_scheme"
  assumes laws: "kernel_laws os wire interest" and net: "net_ok interest s" and ok: "sendable c s"
    and added: "ch_index (conn_channel s c) = kAdded" and run: "send_buffered os t c rest s = Inr s'"
  shows "traffic s s'"
proof -
  let ?tc = "conns s c"
  define s1 where "s1 = (if tc_high_water_mark ?tc \<le> ReadeableBytes (tc_output ?tc) + length rest \<and>
                            ReadeableBytes (tc_output ?tc) < tc_high_water_mark ?tc
       then QueueInLoop os t (tc_loop ?tc) (BindHighWaterMark (tc_high_water_mark_cb ?tc) c
              (ReadeableBytes (tc_output ?tc) + length rest)) s else s)"
  have one: "traffic s s1" "net_ok interest s1" "conns s1 = conns s" "chans s1 = chans s"
    using ok net net_ok_QueueInLoop [OF laws net]
    by (auto simp: s1_def traffic_refl sendable_def mail_task_def intro!: traffic_queue)
  obtain b where b: "Append rest (tc_output ?tc) = Inr b"
    and last: "(let s2 = upd_conn c (\<lambda>tc. tc\<lparr>tc_output := b\<rparr>) s1 in
      if \<not> IsWriting (conn_channel s2 c) then EnableWriting os (tc_channel (conns s2 c)) s2 else Inr s2) = Inr s'"
    using run unfolding send_buffered_def Let_def s1_def [symmetric] bind_res_Inr one(3) by blast
  define s2 where "s2 = upd_conn c (\<lambda>tc. tc\<lparr>tc_output := b\<rparr>) s1"
  have inv: "buffer_inv (tc_output ?tc)" using ok by (simp add: sendable_def conn_ready_def)
  have "buffer_inv b"
    using b Append_fits [OF inv, of rest] Append_overrun [OF inv, of rest]
    by (cases "append_fits (length rest) (tc_output ?tc)") auto
  then have "traffic s1 s2" unfolding s2_def by (rule traffic_output)
  with one(1) have two: "traffic s s2" by (rule traffic_trans)
  have "net_ok interest s2" by (rule net_ok_cong [OF one(2)]) (simp_all add: s2_def)
  moreover have "ch_index (chans s2 (tc_channel (conns s2 c))) = kAdded" using added by (simp add: s2_def one)
  ultimately show ?thesis
    using last two traffic_trans [OF two EnableWriting_traffic(1) [OF laws]]
    by (auto simp: Let_def s2_def [symmetric] split: if_splits)
qed

lemma SendInLoop_traffic:
  fixes s :: "('k, 'z) world_scheme"
  assumes laws: "kernel_laws os wire interest" and net: "net_ok interest s" and ok: "sendable c s"
  shows "SendInLoop os t c str s = Inl HeapOverrun \<or>
    (\<exists>s'. SendInLoop os t c str s = Inr s' \<and> traffic s s' \<and> net_ok interest s')"
proof (cases "tc_state (conns s c) = kDisconnected")
  case True
  then show ?thesis using net by (simp add: SendInLoop_def traffic_refl)
next
  case False
  have ready: "conn_ready c s" and added: "ch_index (conn_channel s c) = kAdded"
    using ok False by (simp_all add: sendable_def)
  obtain nwrote remaining fault s1 where d: "send_direct os t c str s = (nwrote, remaining, fault, s1)"
    by (metis prod_cases4)
  note sd = send_direct_stream [OF laws ready d]
  have one: "traffic s s1" using send_direct_traffic [OF d] ok by (simp add: sendable_def)
  have net1: "net_ok interest s1" by (rule net_ok_cong [OF net sd(5,4,6)])
  have "traffic s s'" if "SendInLoop os t c str s = Inr s'" for s'
    using that False one added traffic_trans [OF one send_buffered_traffic [OF laws net1 sendable_traffic [OF one ok]]]
    by (auto simp: SendInLoop_def d sd(3,4) split: if_splits)
  with SendInLoop_stream [OF laws net ready False, where str = str and t = t] show ?thesis
    by (auto split: option.splits if_splits)
qed

lemma Send_traffic:
  fixes s :: "('k, 'z) world_scheme"
  assumes laws: "kernel_laws os wire interest" and net: "net_ok interest s" and ok: "sendable c s"
  shows "Send os t c msg s = Inl HeapOverrun \<or>
    (\<exists>s'. Send os t c msg s = Inr s' \<and> traffic s s' \<and> net_ok interest s')"
proof (cases "tc_state (conns s c) = kConnected \<and> \<not> IsInLoopThread t (tc_loop (conns s c)) s")
  case True
  moreover have "mail_task s (tc_loop (conns s c)) (BindSendInLoop c msg)"
    using True ok by (simp add: mail_task_def sendable_def)
  ultimately show ?thesis
    using traffic_queue net_ok_QueueInLoop [OF laws net] by (auto simp: Send_def RunInLoop_def)
next
  case False
  then show ?thesis
    using SendInLoop_traffic [OF assms, of t msg] net by (auto simp: Send_def traffic_refl)
qed

lemma sends_traffic:
  fixes s :: "('k, 'z) world_scheme"
  assumes laws: "kernel_laws os wire interest"
  shows "net_ok interest s \<Longrightarrow> \<forall>d \<in> set ds. sendable d s \<Longrightarrow>
    foldR (\<lambda>d. Send os t d msg) ds s = Inl HeapOverrun \<or>
    (\<exists>s'. foldR (\<lambda>d. Send os t d msg) ds s = Inr s' \<and> traffic s s' \<and> net_ok interest s')"
proof (induction ds arbitrary: s)
  case Nil
  then show ?case by (simp add: traffic_refl)
next
  case (Cons c ds)
  then have c: "sendable c s" and rest: "\<forall>d \<in> set ds. sendable d s" by simp_all
  from Send_traffic [OF laws Cons.prems(1) c, of t msg] show ?case
  proof (elim disjE exE conjE)
    fix s1 assume s1: "Send os t c msg s = Inr s1" "traffic s s1" "net_ok interest s1"
    have "\<forall>d \<in> set ds. sendable d s1" using rest sendable_traffic [OF s1(2)] by blast
    from Cons.IH [OF s1(3) this] show ?thesis
      using s1(1) traffic_trans [OF s1(2)] by auto
  qed simp
qed

subsection \<open>Writing\<close>

lemma drained_traffic:
  fixes s :: "('k, 'z) world_scheme"
  assumes laws: "kernel_laws os wire interest" and net: "net_ok interest s"
    and up: "ch_index (conn_channel s c) = kAdded" "IsReading (conn_channel s c)"
    and quiet: "tc_write_complete_cb (conns s c) = None" "tc_state (conns s c) \<noteq> kDisconnecting"
    and run: "bind_res (DisableWriting os (tc_channel (conns s c)) s) (\<lambda>s2.
        let s3 = queue_write_complete os t c s2 in
        Inr (if tc_state (conns s3 c) = kDisconnecting then ShutdownInLoop os c s3 else s3)) = Inr s'"
  shows "traffic s s'"
proof -
  from run obtain s2 where s2: "DisableWriting os (tc_channel (conns s c)) s = Inr s2"
    "s' = (if tc_state (conns (queue_write_complete os t c s2) c) = kDisconnecting
           then ShutdownInLoop os c (queue_write_complete os t c s2) else queue_write_complete os t c s2)"
    by (auto simp: Let_def bind_res_Inr)
  have "conns s2 = conns s" using more_upper(2) [OF chan_methods_more(3) [OF s2(1)]] .
  then have "s' = s2" using quiet by (simp add: s2(2) queue_write_complete_def)
  then show ?thesis using DisableWriting_traffic(1) [OF laws net up s2(1)] by simp
qed

lemma HandleWrite_traffic:
  fixes s :: "('k, 'z) world_scheme"
  assumes laws: "kernel_laws os wire interest" and net: "net_ok interest s" and ok: "sendable c s"
    and up: "ch_index (conn_channel s c) = kAdded" "IsReading (conn_channel s c)"
    and alive: "tc_state (conns s c) \<noteq> kDisconnecting"
  shows "\<exists>s'. HandleWrite os t c s = Inr s' \<and> traffic s s' \<and> net_ok interest s'"
proof -
  have ready: "conn_ready c s" using ok by (simp add: sendable_def)
  obtain s' where run: "HandleWrite os t c s = Inr s'" and net': "net_ok interest s'"
    using HandleWrite_stream [OF laws net ready, of t] by blast
  have "traffic s s'"
  proof (cases "IsWriting (conn_channel s c)")
    case False
    with run show ?thesis by (simp add: HandleWrite_idle traffic_refl)
  next
    case True
    obtain r k' where w: "WriteFd os (tc_fd (conns s c)) (tc_output (conns s c)) (kern s) = (r, k')" by fastforce
    show ?thesis
    proof (cases r)
      case (Inl e)
      with run True w show ?thesis by (auto simp: HandleWrite_def traffic_kern)
    next
      case (Inr n)
      define s1 where "s1 = upd_conn c (\<lambda>tc. tc\<lparr>tc_output := Retrive n (tc_output (conns s c))\<rparr>) (s\<lparr>kern := k'\<rparr>)"
      have s1': "s1 = upd_conn c (\<lambda>tc. tc\<lparr>tc_output := Retrive n (tc_output tc)\<rparr>) (s\<lparr>kern := k'\<rparr>)"
        by (simp add: s1_def upd_conn_def)
      have "buffer_inv (Retrive n (tc_output (conns s c)))"
        using ready by (simp add: conn_ready_def Retrive_inv)
      then have one: "traffic s s1"
        unfolding s1_def by (intro traffic_trans [OF traffic_kern traffic_output])
      have net1: "net_ok interest s1"
        unfolding s1' by (rule written_stream(1) [OF laws net ready w [unfolded Inr]])
      have cases: "HandleWrite os t c s =
          (if 0 < n
           then if ReadeableBytes (tc_output (conns s1 c)) = 0
                then bind_res (DisableWriting os (tc_channel (conns s1 c)) s1) (\<lambda>s2.
                       let s3 = queue_write_complete os t c s2 in
                       Inr (if tc_state (conns s3 c) = kDisconnecting then ShutdownInLoop os c s3 else s3))
                else Inr s1
           else Inr (s\<lparr>kern := k'\<rparr>))"
        unfolding HandleWrite_def w Inr s1' using True by (simp only: if_True sum.case prod.case Let_def)
      have drain: "traffic s1 s'" if "bind_res (DisableWriting os (tc_channel (conns s1 c)) s1) (\<lambda>s2.
          let s3 = queue_write_complete os t c s2 in
          Inr (if tc_state (conns s3 c) = kDisconnecting then ShutdownInLoop os c s3 else s3)) = Inr s'"
        by (rule drained_traffic [OF laws net1 _ _ _ _ that]) (use up alive ok in \<open>simp_all add: s1_def sendable_def\<close>)
      from run have "s' = s\<lparr>kern := k'\<rparr> \<or> s' = s1 \<or> traffic s1 s'"
        unfolding cases by (simp only: split: if_splits) (simp_all add: drain)
      then show ?thesis by (elim disjE) (simp_all add: traffic_kern one traffic_trans [OF one])
    qed
  qed
  with run net' show ?thesis by blast
qed

end
