(* ===== verification/ServerInv.thy ===== *)
theory ServerInv
  imports Traffic
begin

text \<open>
  The invariant of the server in operation: one predicate over all components, which says for every
  connection ever made in which stage of its life it is, which functors wait for it and where, and
  that the table of the server, the maps of the room, the pollers and the interest lists of the
  kernel agree. And the two kinds of steps that preserve it piece by piece: calm steps, in which no
  connection changes its stage, and steps around one connection.
\<close>

subsection \<open>Stages\<close>

text \<open>
  The functors a loop has swapped out of its queue and not yet run (\<open>DoPendingFunctors\<close>), and with
  them all that a loop still has to run.
\<close>

type_synonym batch = "loop \<Rightarrow> task list"

definition backlog :: "batch \<Rightarrow> loop \<Rightarrow> ('k, 'z) world_scheme \<Rightarrow> task list" where
  "backlog R l s = R l @ el_pending (evloops s l)"

text \<open>
  A connection has been made, and waits to be established; is in service; is closed, and the server
  is to be told; is out of the table, and waits to be destroyed; is gone. How often each of these
  functors waits: to establish it, to remove it, to destroy it.
\<close>

datatype stage = New | Up | Closing | Dying | Gone

definition owed :: "batch \<Rightarrow> conn \<Rightarrow> ('k, 'z) world_scheme \<Rightarrow> nat \<times> nat \<times> nat" where
  "owed R c s =
     (let own = backlog R (tc_loop (conns s c)) s; main = backlog R (sv_loop (server s)) s
      in (count_list own (BindConnectionEstablished c), count_list main (BindRemoveConnectionInLoop c),
          count_list own (BindConnectDestroyed c)))"

definition in_stage :: "batch \<Rightarrow> stage \<Rightarrow> conn \<Rightarrow> ('k, 'z) world_scheme \<Rightarrow> bool" where
  "in_stage R st c s \<longleftrightarrow>
     (let state = tc_state (conns s c); ch = conn_channel s c; live = c \<in> live_conns s in
      case st of
        New \<Rightarrow> state = kConnecting \<and> ch_index ch = kNew \<and> ch_events ch = kNoneEvent \<and>
          p_channels (pollers s (tc_loop (conns s c))) (tc_fd (conns s c)) = None \<and>
          owed R c s = (1, 0, 0) \<and> live
      | Up \<Rightarrow> state \<in> {kConnected, kDisconnected} \<and> ch_index ch = kAdded \<and> IsReading ch \<and>
          owed R c s = (0, 0, 0) \<and> live
      | Closing \<Rightarrow> state = kDisconnected \<and> ch_index ch = kDeleted \<and> ch_events ch = kNoneEvent \<and>
          owed R c s = (0, 1, 0) \<and> live
      | Dying \<Rightarrow> state = kDisconnected \<and> ch_index ch = kDeleted \<and> ch_events ch = kNoneEvent \<and>
          owed R c s = (0, 0, 1) \<and> \<not> live
      | Gone \<Rightarrow> state = kDisconnected \<and> ch_index ch = kNew \<and> owed R c s = (0, 0, 0) \<and> \<not> live)"

definition gone :: "conn \<Rightarrow> ('k, 'z) world_scheme \<Rightarrow> bool" where
  "gone c s \<longleftrightarrow> tc_state (conns s c) \<noteq> kConnecting \<and> ch_index (conn_channel s c) = kNew"

subsection \<open>The invariant\<close>

text \<open>An input buffer, which is only ever filled and emptied as a whole.\<close>

definition tidy :: "buffer \<Rightarrow> bool" where
  "tidy b \<longleftrightarrow> buffer_inv b \<and> reader_index b = kCheapPrepend"

text \<open>What holds of a connection from its construction on.\<close>

definition made_ok :: "conn \<Rightarrow> ('k, 'z) world_scheme \<Rightarrow> bool" where
  "made_ok c s \<longleftrightarrow>
     (let tc = conns s c; ch = conn_channel s c in
      tc_channel tc < fresh_chan s \<and> tc_loop tc \<in> set (get_loops (pool s)) \<and>
      ch_fd ch = tc_fd tc \<and> ch_loop ch = tc_loop tc \<and>
      ch_read_cb ch = Some (ConnHandleRead c) \<and> ch_write_cb ch = Some (ConnHandleWrite c) \<and>
      ch_close_cb ch = Some (ConnHandleClose c) \<and> ch_error_cb ch = Some (ConnHandleError c) \<and>
      (\<forall>l. tc_fd tc \<noteq> el_wakeup_fd (evloops s l)) \<and>
      tidy (tc_input tc) \<and> buffer_inv (tc_output tc) \<and>
      tc_conn_cb tc = Some FnOnConnection \<and> tc_msg_cb tc = Some FnReadCb \<and>
      tc_close_cb tc = Some FnRemoveConnection \<and> tc_write_complete_cb tc = None \<and>
      tc_high_water_mark_cb tc = None)"

text \<open>Connections have channels of their own, and those that are not gone descriptors of their own.\<close>

definition apart :: "('k, 'z) world_scheme \<Rightarrow> bool" where
  "apart s \<longleftrightarrow>
     (\<forall>c < fresh_conn s. \<forall>d < fresh_conn s. c \<noteq> d \<longrightarrow>
        tc_channel (conns s c) \<noteq> tc_channel (conns s d) \<and>
        (\<not> gone c s \<longrightarrow> \<not> gone d s \<longrightarrow> tc_fd (conns s c) \<noteq> tc_fd (conns s d))) \<and>
     (\<forall>ch \<ge> fresh_chan s. ch_index (chans s ch) = kNew)"

text \<open>Every functor waits in the loop that has to run it.\<close>

definition placed :: "('k, 'z) world_scheme \<Rightarrow> loop \<Rightarrow> task \<Rightarrow> bool" where
  "placed s l f \<longleftrightarrow>
     (case f of
        BindConnectionEstablished d \<Rightarrow> d < fresh_conn s \<and> l = tc_loop (conns s d)
      | BindConnectDestroyed d \<Rightarrow> d < fresh_conn s \<and> l = tc_loop (conns s d)
      | BindRemoveConnectionInLoop d \<Rightarrow> d < fresh_conn s \<and> l = sv_loop (server s)
      | _ \<Rightarrow> mail_task s l f)"

text \<open>What of a channel never changes once it is in use.\<close>

definition chan_static :: "channel \<Rightarrow> channel" where
  "chan_static ch = ch\<lparr>ch_events := 0, ch_index := 0, ch_tie := None, ch_tied := False\<rparr>"

lemma chan_static_fields:
  assumes "chan_static x = chan_static y"
  shows "ch_fd x = ch_fd y" "ch_loop x = ch_loop y" "ch_read_cb x = ch_read_cb y"
    "ch_write_cb x = ch_write_cb y" "ch_close_cb x = ch_close_cb y" "ch_error_cb x = ch_error_cb y"
  using assms by (cases x, cases y, simp add: chan_static_def)+

text \<open>The channels of the program's own descriptors: the eventfd of a loop, and the main loop's listening socket.\<close>

definition handled :: "loop \<Rightarrow> channel \<Rightarrow> bool" where
  "handled main ch \<longleftrightarrow>
     ch_write_cb ch = None \<and> ch_close_cb ch = None \<and> ch_error_cb ch = None \<and>
     ((\<exists>l. ch_read_cb ch = Some (LoopHandleRead l)) \<or> ch_read_cb ch = Some AcceptorHandleRead \<and> ch_loop ch = main)"

definition staffed :: "('k, 'z) world_scheme \<Rightarrow> bool" where
  "staffed s \<longleftrightarrow>
     (\<forall>ch. ch_index (chans s ch) = kAdded \<longrightarrow>
        (\<exists>c < fresh_conn s. tc_channel (conns s c) = ch) \<or> handled (sv_loop (server s)) (chans s ch))"

lemma handled_static: "chan_static x = chan_static y \<Longrightarrow> handled main x = handled main y"
  using chan_static_fields [of x y] by (simp add: handled_def)

lemma staffed_step:
  assumes "staffed s" "sv_loop (server s') = sv_loop (server s)"
    and "\<And>d. d < fresh_conn s \<Longrightarrow> d < fresh_conn s' \<and> tc_channel (conns s' d) = tc_channel (conns s d)"
    and "\<And>ch. ch_index (chans s' ch) = kAdded \<Longrightarrow> (\<exists>c < fresh_conn s'. tc_channel (conns s' c) = ch) \<or>
      ch_index (chans s ch) = kAdded \<and> chan_static (chans s' ch) = chan_static (chans s ch)"
  shows "staffed s'"
  unfolding staffed_def
proof (intro allI impI)
  fix ch assume added: "ch_index (chans s' ch) = kAdded"
  show "(\<exists>c < fresh_conn s'. tc_channel (conns s' c) = ch) \<or> handled (sv_loop (server s')) (chans s' ch)"
  proof (cases "\<exists>c < fresh_conn s. tc_channel (conns s c) = ch")
    case True
    then show ?thesis using assms(3) by metis
  next
    case False
    then show ?thesis using assms(1,2) assms(4) [OF added] handled_static [of "chans s' ch" "chans s ch"] by (auto simp: staffed_def)
  qed
qed

text \<open>
  The server has its callbacks, its own thread and room in its names: an address of up to 50
  characters and a number of up to ten digits fit into the 63 that \<open>snprintf\<close> leaves. Every channel
  in a poller is a connection's or one of the program's own.
\<close>

definition service_ok :: "('k, 'z) world_scheme \<Rightarrow> bool" where
  "service_ok s \<longleftrightarrow>
     table_ok s \<and> staffed s \<and> pool_ok (pool s) \<and> length (sv_ip_port (server s)) \<le> 50 \<and>
     (\<forall>l \<in> set (get_loops (pool s)).
        el_thread_id (evloops s l) \<noteq> el_thread_id (evloops s (sv_loop (server s)))) \<and>
     sv_connection_cb (server s) = Some FnOnConnection \<and> sv_message_cb (server s) = Some FnReadCb \<and>
     sv_write_complete_cb (server s) = None \<and> ac_new_cb (the_acceptor s) = Some FnNewConnection"

definition members :: "('k, 'z) world_scheme \<Rightarrow> conn set" where
  "members s = snd ` set (name_conn_map (chat s))"

text \<open>\<open>base\<close> leaves out what the connections of \<open>X\<close>, in the middle of a change, owe to their stage.\<close>

definition base :: "'k interest \<Rightarrow> batch \<Rightarrow> conn set \<Rightarrow> ('k, 'z) world_scheme \<Rightarrow> bool" where
  "base interest R X s \<longleftrightarrow>
     net_ok interest s \<and> service_ok s \<and> apart s \<and> (\<forall>c < fresh_conn s. made_ok c s) \<and>
     (\<forall>l. \<forall>f \<in> set (backlog R l s). placed s l f) \<and>
     (\<forall>c < fresh_conn s. c \<notin> X \<longrightarrow> (\<exists>st. in_stage R st c s)) \<and>
     (\<forall>c \<in> members s. c < fresh_conn s \<and> (c \<notin> X \<longrightarrow> in_stage R Up c s))"

definition server_ok :: "'k interest \<Rightarrow> batch \<Rightarrow> ('k, 'z) world_scheme \<Rightarrow> bool" where
  "server_ok interest R s \<longleftrightarrow> base interest R {} s \<and> chat_ok (chat s)"

lemma baseD:
  assumes "base interest R X s"
  shows "net_ok interest s" "service_ok s" "apart s" "c < fresh_conn s \<Longrightarrow> made_ok c s"
    "f \<in> set (backlog R l s) \<Longrightarrow> placed s l f"
    "c < fresh_conn s \<Longrightarrow> c \<notin> X \<Longrightarrow> \<exists>st. in_stage R st c s"
    "c \<in> members s \<Longrightarrow> c < fresh_conn s" "c \<in> members s \<Longrightarrow> c \<notin> X \<Longrightarrow> in_stage R Up c s"
  using assms unfolding base_def by blast+

lemma baseI:
  assumes "net_ok interest s" "service_ok s" "apart s" "\<And>c. c < fresh_conn s \<Longrightarrow> made_ok c s"
    "\<And>l f. f \<in> set (backlog R l s) \<Longrightarrow> placed s l f"
    "\<And>c. c < fresh_conn s \<Longrightarrow> c \<notin> X \<Longrightarrow> \<exists>st. in_stage R st c s"
    "\<And>c. c \<in> members s \<Longrightarrow> c < fresh_conn s" "\<And>c. c \<in> members s \<Longrightarrow> c \<notin> X \<Longrightarrow> in_stage R Up c s"
  shows "base interest R X s"
  using assms unfolding base_def by blast

lemma apartD:
  assumes "apart s"
  shows "c < fresh_conn s \<Longrightarrow> d < fresh_conn s \<Longrightarrow> c \<noteq> d \<Longrightarrow> tc_channel (conns s c) \<noteq> tc_channel (conns s d)"
    "c < fresh_conn s \<Longrightarrow> d < fresh_conn s \<Longrightarrow> c \<noteq> d \<Longrightarrow> \<not> gone c s \<Longrightarrow> \<not> gone d s \<Longrightarrow>
       tc_fd (conns s c) \<noteq> tc_fd (conns s d)"
    "fresh_chan s \<le> ch \<Longrightarrow> ch_index (chans s ch) = kNew"
  using assms unfolding apart_def by blast+

lemma apartI:
  assumes "\<And>c d. c < fresh_conn s \<Longrightarrow> d < fresh_conn s \<Longrightarrow> c \<noteq> d \<Longrightarrow> tc_channel (conns s c) \<noteq> tc_channel (conns s d)"
    "\<And>c d. c < fresh_conn s \<Longrightarrow> d < fresh_conn s \<Longrightarrow> c \<noteq> d \<Longrightarrow> \<not> gone c s \<Longrightarrow> \<not> gone d s \<Longrightarrow>
       tc_fd (conns s c) \<noteq> tc_fd (conns s d)"
    "\<And>ch. fresh_chan s \<le> ch \<Longrightarrow> ch_index (chans s ch) = kNew"
  shows "apart s"
  using assms unfolding apart_def by blast

text \<open>A change begins, and ends in a stage.\<close>

lemma base_open: "base interest R {} s \<Longrightarrow> base interest R X s"
  unfolding base_def by blast

lemma base_close:
  assumes "base interest R {c} s" "in_stage R st c s" "c \<in> members s \<Longrightarrow> st = Up"
  shows "base interest R {} s"
proof (rule baseI)
  show "\<exists>st. in_stage R st d s" if "d < fresh_conn s" for d
    using baseD(6) [OF assms(1) that] assms(2) by (cases "d = c") auto
  show "in_stage R Up d s" if "d \<in> members s" for d
    using baseD(8) [OF assms(1) that] assms(2,3) that by (cases "d = c") auto
qed (use baseD [OF assms(1)] in \<open>simp_all\<close>)

subsection \<open>Calm steps\<close>

text \<open>
  Steps in which no connection changes its stage: traffic, input that is taken, logins and exits in
  the room's maps, and a connection in service that is shut down.
\<close>

definition conn_static :: "tcp_connection \<Rightarrow> tcp_connection" where
  "conn_static tc = tc\<lparr>tc_output := Buffer 0, tc_input := Buffer 0, tc_state := kConnected\<rparr>"

definition calm :: "('k, 'z) world_scheme \<Rightarrow> ('k, 'z) world_scheme \<Rightarrow> bool" where
  "calm s s' \<longleftrightarrow>
     (\<forall>d. conn_static (conns s' d) = conn_static (conns s d) \<and>
          (buffer_inv (tc_output (conns s d)) \<longrightarrow> buffer_inv (tc_output (conns s' d))) \<and>
          (tidy (tc_input (conns s d)) \<longrightarrow> tidy (tc_input (conns s' d))) \<and>
          (tc_state (conns s' d) = tc_state (conns s d) \<or>
           tc_state (conns s' d) = kDisconnected \<and> tc_state (conns s d) \<noteq> kConnecting \<and>
             ch_index (conn_channel s d) = kAdded)) \<and>
     (\<forall>ch. chan_core (chans s' ch) = chan_core (chans s ch) \<and>
           (ch_index (chans s ch) \<noteq> kAdded \<longrightarrow> chans s' ch = chans s ch)) \<and>
     pollers s' = pollers s \<and> fresh_chan s' = fresh_chan s \<and>
     server s' = server s \<and> pool s' = pool s \<and> the_acceptor s' = the_acceptor s \<and> fresh_conn s' = fresh_conn s \<and>
     (\<forall>l. \<exists>fs. evloops s' l = (evloops s l)\<lparr>el_pending := el_pending (evloops s l) @ fs\<rparr> \<and>
                (\<forall>f \<in> set fs. mail_task s l f))"

lemma conn_static_fields:
  assumes "conn_static x = conn_static y"
  shows "tc_loop x = tc_loop y" "tc_name x = tc_name y" "tc_fd x = tc_fd y"
    "tc_channel x = tc_channel y" "tc_conn_cb x = tc_conn_cb y" "tc_msg_cb x = tc_msg_cb y"
    "tc_write_complete_cb x = tc_write_complete_cb y" "tc_high_water_mark_cb x = tc_high_water_mark_cb y"
    "tc_close_cb x = tc_close_cb y"
  using assms by (cases x, cases y, simp add: conn_static_def)+

lemma calmD:
  assumes "calm s s'"
  shows "conn_static (conns s' d) = conn_static (conns s d)" "chan_core (chans s' ch) = chan_core (chans s ch)"
    "buffer_inv (tc_output (conns s d)) \<Longrightarrow> buffer_inv (tc_output (conns s' d))"
    "tidy (tc_input (conns s d)) \<Longrightarrow> tidy (tc_input (conns s' d))"
    "tc_state (conns s' d) = tc_state (conns s d) \<or>
       tc_state (conns s' d) = kDisconnected \<and> tc_state (conns s d) \<noteq> kConnecting \<and>
         ch_index (conn_channel s d) = kAdded"
    "ch_index (chans s ch) \<noteq> kAdded \<Longrightarrow> chans s' ch = chans s ch"
    "pollers s' = pollers s" "fresh_chan s' = fresh_chan s" "server s' = server s" "pool s' = pool s"
    "the_acceptor s' = the_acceptor s" "fresh_conn s' = fresh_conn s"
    "\<exists>fs. evloops s' l = (evloops s l)\<lparr>el_pending := el_pending (evloops s l) @ fs\<rparr> \<and> (\<forall>f \<in> set fs. mail_task s l f)"
  using assms unfolding calm_def by blast+

lemma calm_loop:
  assumes "calm s s'"
  shows "el_thread_id (evloops s' l) = el_thread_id (evloops s l)" "el_wakeup_fd (evloops s' l) = el_wakeup_fd (evloops s l)"
  using calmD(13) [OF assms, of l] by auto

lemma calm_conn:
  assumes "calm s s'"
  shows "tc_loop (conns s' d) = tc_loop (conns s d)" "tc_name (conns s' d) = tc_name (conns s d)"
    "tc_fd (conns s' d) = tc_fd (conns s d)" "tc_channel (conns s' d) = tc_channel (conns s d)"
    "tc_state (conns s' d) = kConnecting \<longleftrightarrow> tc_state (conns s d) = kConnecting"
    "ch_index (chans s' ch) = ch_index (chans s ch)" "IsReading (chans s' ch) = IsReading (chans s ch)"
    "ch_fd (chans s' ch) = ch_fd (chans s ch)" "ch_loop (chans s' ch) = ch_loop (chans s ch)"
  using conn_static_fields [OF calmD(1) [OF assms, of d]] chan_core_fields [OF calmD(2) [OF assms, of ch]]
    calmD(5) [OF assms, of d] by auto

lemma traffic_calm:
  assumes "traffic s s'"
  shows "calm s s'"
proof -
  have "conn_static (conns s' d) = conn_static (conns s d)" for d
    using trafficD(1) [OF assms, of d] by (cases "conns s d", cases "conns s' d") (simp add: conn_core_def conn_static_def)
  then show ?thesis
    using assms conn_core_fields(3,11) [OF trafficD(1) [OF assms]] world_tail [OF trafficD(7) [OF assms]]
    unfolding calm_def traffic_def by simp
qed

lemma mail_task_calm: "calm s s1 \<Longrightarrow> mail_task s1 l f \<Longrightarrow> mail_task s l f"
  using calm_conn(1,5) [of s s1] calmD(12) [of s s1]
  by (cases f) (simp_all add: mail_task_def)

lemma calm_refl: "calm s s"
  by (rule traffic_calm [OF traffic_refl])


lemma calm_trans:
  assumes 1: "calm s s1" and 2: "calm s1 s2"
  shows "calm s s2"
proof -
  have "\<exists>fs. evloops s2 l = (evloops s l)\<lparr>el_pending := el_pending (evloops s l) @ fs\<rparr> \<and> (\<forall>f \<in> set fs. mail_task s l f)" for l
  proof -
    obtain fs gs where "evloops s1 l = (evloops s l)\<lparr>el_pending := el_pending (evloops s l) @ fs\<rparr>"
      "\<forall>f \<in> set fs. mail_task s l f" "evloops s2 l = (evloops s1 l)\<lparr>el_pending := el_pending (evloops s1 l) @ gs\<rparr>"
      "\<forall>f \<in> set gs. mail_task s1 l f"
      using calmD(13) [OF 1, of l] calmD(13) [OF 2, of l] by blast
    then show ?thesis using mail_task_calm [OF 1] by (intro exI [of _ "fs @ gs"]) auto
  qed
  moreover have "tc_state (conns s2 d) = tc_state (conns s d) \<or>
      tc_state (conns s2 d) = kDisconnected \<and> tc_state (conns s d) \<noteq> kConnecting \<and> ch_index (conn_channel s d) = kAdded" for d
    using calmD(5) [OF 1, of d] calmD(5) [OF 2, of d] calm_conn(4,6) [OF 1] by auto
  ultimately show ?thesis
    using calmD(1-4,6-12) [OF 1] calmD(1-4,6-12) [OF 2] calm_conn(6) [OF 1] unfolding calm_def by auto
qed

lemma calm_kern: "calm s (s\<lparr>kern := k\<rparr>)"
  by (rule traffic_calm [OF traffic_kern])

lemma calm_chat: "calm s (upd_chat f s)"
  unfolding calm_def by (intro conjI allI exI [of _ "[]"]) (simp_all add: upd_chat_def)

lemma calm_input: "tidy b \<Longrightarrow> calm s (upd_conn c (\<lambda>tc. tc\<lparr>tc_input := b\<rparr>) s)"
  unfolding calm_def by (intro conjI allI exI [of _ "[]"]) (simp_all add: conn_static_def upd_conn_def)

lemma calm_down:
  assumes "tc_state (conns s c) \<noteq> kConnecting" "ch_index (conn_channel s c) = kAdded"
  shows "calm s (set_state kDisconnected c s)"
  unfolding calm_def set_state_def
  using assms by (intro conjI allI exI [of _ "[]"]) (simp_all add: conn_static_def upd_conn_def)

lemma placed_mail: "mail_task s l f \<Longrightarrow> placed s l f"
  by (cases f) (simp_all add: placed_def mail_task_def)

lemma count_mail_task:
  assumes "\<forall>f \<in> set fs. mail_task s l f"
  shows "count_list fs (BindConnectionEstablished c) = 0" "count_list fs (BindRemoveConnectionInLoop c) = 0"
    "count_list fs (BindConnectDestroyed c) = 0"
  using assms by (auto simp: count_list_0_iff mail_task_def)

lemma calm_backlog:
  assumes "calm s s'"
  obtains fs where "backlog R l s' = backlog R l s @ fs" "\<forall>f \<in> set fs. mail_task s l f"
proof -
  obtain fs where "evloops s' l = (evloops s l)\<lparr>el_pending := el_pending (evloops s l) @ fs\<rparr>" "\<forall>f \<in> set fs. mail_task s l f"
    using calmD(13) [OF assms, of l] by blast
  then show thesis by (intro that [of fs]) (simp_all add: backlog_def)
qed

lemma owed_calm:
  assumes "calm s s'"
  shows "owed R c s' = owed R c s"
proof -
  have "count_list (backlog R l s') f = count_list (backlog R l s) f"
    if "f \<in> {BindConnectionEstablished c, BindRemoveConnectionInLoop c, BindConnectDestroyed c}" for l f
  proof -
    obtain fs where fs: "backlog R l s' = backlog R l s @ fs" "\<forall>f \<in> set fs. mail_task s l f"
      by (rule calm_backlog [OF assms])
    then show ?thesis using that count_mail_task [OF fs(2)] by auto
  qed
  then show ?thesis by (simp add: owed_def Let_def calm_conn(1) [OF assms] calmD(9) [OF assms])
qed

lemma live_conns_server: "server s' = server s \<Longrightarrow> live_conns s' = live_conns s"
  by (simp add: live_conns_def)

lemma in_stage_calm:
  assumes calm: "calm s s'" and stage: "in_stage R st c s"
  shows "in_stage R st c s'"
proof -
  have "ch_index (conn_channel s c) \<noteq> kAdded \<Longrightarrow> conn_channel s' c = conn_channel s c"
    using calmD(6) [OF calm] calm_conn(4) [OF calm] by simp
  then show ?thesis
    using stage calmD(5) [OF calm, of c]
    by (cases st) (auto simp: in_stage_def Let_def calm_conn [OF calm] owed_calm [OF calm] calmD(7) [OF calm]
        live_conns_server [OF calmD(9) [OF calm]])
qed

lemma placed_calm:
  assumes "calm s s'" "placed s l f"
  shows "placed s' l f"
  using assms(2) calm_conn(1,5) [OF assms(1)] calmD(9,12) [OF assms(1)]
  by (cases f) (auto simp: placed_def mail_task_def)

lemma chan_core_static: "chan_core x = chan_core y \<Longrightarrow> chan_static x = chan_static y"
  by (cases x, cases y) (simp add: chan_core_def chan_static_def)

lemma staffed_calm:
  assumes "calm s s'" "staffed s"
  shows "staffed s'"
  using chan_core_static [OF calmD(2) [OF assms(1)]]
  by (intro staffed_step [OF assms(2)])
     (simp_all add: calmD(9,12) [OF assms(1)] calm_conn(4,6) [OF assms(1)])

lemma service_ok_calm:
  assumes "calm s s'" "service_ok s"
  shows "service_ok s'"
  using assms(2) staffed_calm [OF assms(1)] unfolding service_ok_def table_ok_def
  by (simp add: calmD(9-12) [OF assms(1)] calm_conn(2) [OF assms(1)] calm_loop [OF assms(1)])

lemma gone_calm: "calm s s' \<Longrightarrow> gone c s' = gone c s"
  using calm_conn(4-6) [of s s'] by (simp add: gone_def)

lemma chan_core_callbacks:
  assumes "chan_core x = chan_core y"
  shows "ch_read_cb x = ch_read_cb y" "ch_write_cb x = ch_write_cb y" "ch_close_cb x = ch_close_cb y"
    "ch_error_cb x = ch_error_cb y"
  using assms by (cases x, cases y, simp add: chan_core_def)+

lemma made_ok_calm:
  assumes "calm s s'" "made_ok c s"
  shows "made_ok c s'"
  using assms(2) conn_static_fields [OF calmD(1) [OF assms(1), of c]]
    chan_core_callbacks [OF calmD(2) [OF assms(1), of "tc_channel (conns s c)"]]
  by (simp add: made_ok_def Let_def calmD(3,4,8,10) [OF assms(1)] calm_conn(8,9) [OF assms(1)] calm_loop [OF assms(1)])

lemma apart_calm:
  assumes calm: "calm s s'" and ok: "apart s"
  shows "apart s'"
proof (rule apartI)
  show "tc_channel (conns s' c) \<noteq> tc_channel (conns s' d)"
    if "c < fresh_conn s'" "d < fresh_conn s'" "c \<noteq> d" for c d
    using that apartD(1) [OF ok, of c d] by (simp add: calmD(12) [OF calm] calm_conn(4) [OF calm])
  show "tc_fd (conns s' c) \<noteq> tc_fd (conns s' d)"
    if "c < fresh_conn s'" "d < fresh_conn s'" "c \<noteq> d" "\<not> gone c s'" "\<not> gone d s'" for c d
    using that apartD(2) [OF ok, of c d]
    by (simp add: calmD(12) [OF calm] calm_conn(3) [OF calm] gone_calm [OF calm])
  show "ch_index (chans s' ch) = kNew" if "fresh_chan s' \<le> ch" for ch
    using that apartD(3) [OF ok, of ch] by (simp add: calmD(8) [OF calm] calm_conn(6) [OF calm])
qed

lemma base_calm:
  assumes calm: "calm s s'" and ok: "base interest R X s" and net: "net_ok interest s'"
    and mem: "\<And>c. c \<in> members s' \<Longrightarrow> c \<in> members s \<or> c < fresh_conn s \<and> in_stage R Up c s"
  shows "base interest R X s'"
proof (rule baseI)
  show "placed s' l f" if f: "f \<in> set (backlog R l s')" for l f
  proof -
    obtain fs where "backlog R l s' = backlog R l s @ fs" "\<forall>f \<in> set fs. mail_task s l f"
      by (rule calm_backlog [OF calm])
    with f have "f \<in> set (backlog R l s) \<or> mail_task s l f" by auto
    then have "placed s l f" using baseD(5) [OF ok] placed_mail by blast
    then show ?thesis by (rule placed_calm [OF calm])
  qed
  show "\<exists>st. in_stage R st c s'" if c: "c < fresh_conn s'" "c \<notin> X" for c
  proof -
    obtain st where "in_stage R st c s" using baseD(6) [OF ok _ c(2)] c(1) calmD(12) [OF calm] by auto
    then show ?thesis using in_stage_calm [OF calm] by blast
  qed
  show "c < fresh_conn s'" if "c \<in> members s'" for c
    using mem [OF that] baseD(7) [OF ok, of c] calmD(12) [OF calm] by auto
  show "in_stage R Up c s'" if "c \<in> members s'" "c \<notin> X" for c
    using mem [OF that(1)] baseD(8) [OF ok _ that(2)] in_stage_calm [OF calm, of R Up c] by auto
  show "made_ok c s'" if "c < fresh_conn s'" for c
    using that made_ok_calm [OF calm baseD(4) [OF ok]] calmD(12) [OF calm] by simp
qed (use net service_ok_calm [OF calm] apart_calm [OF calm] baseD(2,3) [OF ok] in simp_all)

text \<open>When the room is as before, nothing need be said of its members.\<close>

lemma members_chat: "chat s' = chat s \<Longrightarrow> members s' = members s"
  by (simp add: members_def)

lemma base_calm_room:
  assumes "calm s s'" "base interest R X s" "net_ok interest s'" "chat s' = chat s"
  shows "base interest R X s'"
  by (rule base_calm [OF assms(1-3)]) (simp add: members_chat [OF assms(4)])

subsection \<open>Steps around one connection\<close>

text \<open>
  Steps that change the state, the channel, the slot in its poller and the place in the table of one
  connection, and queue functors for it; the rest of the program is as before.
\<close>

definition task_of :: "conn \<Rightarrow> task \<Rightarrow> bool" where
  "task_of c f \<longleftrightarrow> f \<in> {BindConnectionEstablished c, BindRemoveConnectionInLoop c, BindConnectDestroyed c}"

definition around :: "conn \<Rightarrow> ('k, 'z) world_scheme \<Rightarrow> ('k, 'z) world_scheme \<Rightarrow> bool" where
  "around c s s' \<longleftrightarrow>
     (\<exists>st. conns s' = (conns s)(c := (conns s c)\<lparr>tc_state := st\<rparr>) \<and>
           (st = kConnecting \<longrightarrow> tc_state (conns s c) = kConnecting)) \<and>
     (\<exists>x. chans s' = (chans s)(tc_channel (conns s c) := x) \<and> chan_static x = chan_static (conn_channel s c)) \<and>
     (\<forall>l fd. (l, fd) \<noteq> (tc_loop (conns s c), tc_fd (conns s c)) \<longrightarrow>
        p_channels (pollers s' l) fd = p_channels (pollers s l) fd) \<and>
     fresh_chan s' = fresh_chan s \<and> pool s' = pool s \<and> the_acceptor s' = the_acceptor s \<and>
     fresh_conn s' = fresh_conn s \<and> chat s' = chat s \<and>
     (server s')\<lparr>sv_connections := []\<rparr> = (server s)\<lparr>sv_connections := []\<rparr> \<and>
     (\<forall>d < fresh_conn s. d \<noteq> c \<longrightarrow> (d \<in> live_conns s' \<longleftrightarrow> d \<in> live_conns s)) \<and>
     (\<forall>l. \<exists>fs. evloops s' l = (evloops s l)\<lparr>el_pending := el_pending (evloops s l) @ fs\<rparr> \<and>
                (\<forall>f \<in> set fs. task_of c f \<and> placed s l f))"

lemma server_fields:
  assumes "(x :: tcp_server)\<lparr>sv_connections := []\<rparr> = y\<lparr>sv_connections := []\<rparr>"
  shows "sv_loop x = sv_loop y" "sv_ip_port x = sv_ip_port y" "sv_connection_cb x = sv_connection_cb y"
    "sv_message_cb x = sv_message_cb y" "sv_write_complete_cb x = sv_write_complete_cb y"
  using assms by (cases x, cases y, simp)+

lemma aroundD:
  assumes "around c s s'"
  shows "\<exists>st. conns s' = (conns s)(c := (conns s c)\<lparr>tc_state := st\<rparr>) \<and>
           (st = kConnecting \<longrightarrow> tc_state (conns s c) = kConnecting)"
    "\<exists>x. chans s' = (chans s)(tc_channel (conns s c) := x) \<and> chan_static x = chan_static (conn_channel s c)"
    "(l, fd) \<noteq> (tc_loop (conns s c), tc_fd (conns s c)) \<Longrightarrow>
        p_channels (pollers s' l) fd = p_channels (pollers s l) fd"
    "fresh_chan s' = fresh_chan s" "pool s' = pool s" "the_acceptor s' = the_acceptor s"
    "fresh_conn s' = fresh_conn s" "chat s' = chat s"
    "(server s')\<lparr>sv_connections := []\<rparr> = (server s)\<lparr>sv_connections := []\<rparr>"
    "d < fresh_conn s \<Longrightarrow> d \<noteq> c \<Longrightarrow> d \<in> live_conns s' \<longleftrightarrow> d \<in> live_conns s"
    "\<exists>fs. evloops s' l = (evloops s l)\<lparr>el_pending := el_pending (evloops s l) @ fs\<rparr> \<and>
                (\<forall>f \<in> set fs. task_of c f \<and> placed s l f)"
  using assms unfolding around_def by blast+

lemma around_conn:
  assumes "around c s s'"
  shows "d \<noteq> c \<Longrightarrow> conns s' d = conns s d" "conn_static (conns s' d) = conn_static (conns s d)"
    "tc_input (conns s' d) = tc_input (conns s d)" "tc_output (conns s' d) = tc_output (conns s d)"
    "tc_state (conns s' d) = kConnecting \<Longrightarrow> tc_state (conns s d) = kConnecting"
    "ch \<noteq> tc_channel (conns s c) \<Longrightarrow> chans s' ch = chans s ch"
    "chan_static (chans s' ch) = chan_static (chans s ch)"
    "el_thread_id (evloops s' l) = el_thread_id (evloops s l)" "el_wakeup_fd (evloops s' l) = el_wakeup_fd (evloops s l)"
  using aroundD(1,2) [OF assms] aroundD(11) [OF assms, of l]
  by (auto simp: conn_static_def split: if_splits)

lemma around_backlog:
  assumes "around c s s'"
  obtains fs where "backlog R l s' = backlog R l s @ fs" "\<forall>f \<in> set fs. task_of c f \<and> placed s l f"
proof -
  obtain fs where "evloops s' l = (evloops s l)\<lparr>el_pending := el_pending (evloops s l) @ fs\<rparr>"
    "\<forall>f \<in> set fs. task_of c f \<and> placed s l f"
    using aroundD(11) [OF assms, of l] by blast
  then show thesis by (intro that [of fs]) (simp_all add: backlog_def)
qed

lemma placed_around:
  assumes ar: "around c s s'" and ok: "placed s l f"
  shows "placed s' l f"
proof -
  have "tc_loop (conns s' d) = tc_loop (conns s d)" for d
    by (rule conn_static_fields(1) [OF around_conn(2) [OF ar]])
  with ok around_conn(5) [OF ar] aroundD(7) [OF ar] server_fields(1) [OF aroundD(9) [OF ar]] show ?thesis
    by (cases f) (auto simp: placed_def mail_task_def)
qed

lemma made_ok_around:
  assumes ar: "around c s s'" and ok: "made_ok d s"
  shows "made_ok d s'"
  using ok conn_static_fields [OF around_conn(2) [OF ar, of d]]
    chan_static_fields [OF around_conn(7) [OF ar, of "tc_channel (conns s d)"]]
  by (simp add: made_ok_def Let_def aroundD(4,5) [OF ar] around_conn(3,4,8,9) [OF ar])

lemma staffed_around:
  assumes ar: "around c s s'" and ok: "staffed s" and c: "c < fresh_conn s"
  shows "staffed s'"
proof (rule staffed_step [OF ok])
  show "sv_loop (server s') = sv_loop (server s)" by (rule server_fields(1) [OF aroundD(9) [OF ar]])
  have same: "tc_channel (conns s' d) = tc_channel (conns s d)" for d by (rule conn_static_fields(4) [OF around_conn(2) [OF ar]])
  then show "d < fresh_conn s' \<and> tc_channel (conns s' d) = tc_channel (conns s d)" if "d < fresh_conn s" for d
    using that by (simp add: aroundD(7) [OF ar])
  show "(\<exists>c < fresh_conn s'. tc_channel (conns s' c) = ch) \<or>
      ch_index (chans s ch) = kAdded \<and> chan_static (chans s' ch) = chan_static (chans s ch)"
    if "ch_index (chans s' ch) = kAdded" for ch
    using that c same around_conn(6) [OF ar, of ch] by (cases "ch = tc_channel (conns s c)") (auto simp: aroundD(7) [OF ar])
qed

lemma service_ok_around:
  assumes ar: "around c s s'" and ok: "service_ok s" and table: "table_ok s'" and c: "c < fresh_conn s"
  shows "service_ok s'"
  using ok table staffed_around [OF ar _ c] unfolding service_ok_def
  by (simp add: aroundD(5,6) [OF ar] server_fields [OF aroundD(9) [OF ar]] around_conn(8) [OF ar])

lemma in_stage_around:
  assumes ar: "around c s s'" and d: "d \<noteq> c" "d < fresh_conn s" and ok: "in_stage R st d s"
    and own: "tc_channel (conns s d) \<noteq> tc_channel (conns s c)"
      "\<not> gone d s \<Longrightarrow> tc_fd (conns s d) \<noteq> tc_fd (conns s c)"
  shows "in_stage R st d s'"
proof -
  have conn: "conns s' d = conns s d" by (rule around_conn(1) [OF ar d(1)])
  have chan: "chans s' (tc_channel (conns s d)) = conn_channel s d" by (rule around_conn(6) [OF ar own(1)])
  have "count_list (backlog R l s') f = count_list (backlog R l s) f"
    if "f \<in> {BindConnectionEstablished d, BindRemoveConnectionInLoop d, BindConnectDestroyed d}" for l f
  proof -
    obtain fs where "backlog R l s' = backlog R l s @ fs" "\<forall>g \<in> set fs. task_of c g \<and> placed s l g"
      by (rule around_backlog [OF ar])
    moreover from this(2) have "count_list fs f = 0"
      using that d(1) by (auto simp: count_list_0_iff task_of_def)
    ultimately show ?thesis by simp
  qed
  then have owed: "owed R d s' = owed R d s"
    by (simp add: owed_def Let_def conn server_fields(1) [OF aroundD(9) [OF ar]])
  have slot: "p_channels (pollers s' (tc_loop (conns s d))) (tc_fd (conns s d)) =
      p_channels (pollers s (tc_loop (conns s d))) (tc_fd (conns s d))" if "tc_state (conns s d) = kConnecting"
    using own(2) that by (intro aroundD(3) [OF ar]) (simp add: gone_def)
  show ?thesis
    using ok slot unfolding in_stage_def conn chan owed aroundD(10) [OF ar d(2,1)]
    by (cases st) (simp_all add: Let_def)
qed

lemma apart_around:
  assumes ar: "around c s s'" and ok: "apart s" and c: "\<not> gone c s" "tc_channel (conns s c) < fresh_chan s" "c < fresh_conn s"
  shows "apart s'"
proof (rule apartI)
  have same: "tc_channel (conns s' d) = tc_channel (conns s d)" "tc_fd (conns s' d) = tc_fd (conns s d)" for d
    using conn_static_fields(3,4) [OF around_conn(2) [OF ar, of d]] by simp_all
  show "tc_channel (conns s' a) \<noteq> tc_channel (conns s' b)"
    if "a < fresh_conn s'" "b < fresh_conn s'" "a \<noteq> b" for a b
    using that apartD(1) [OF ok, of a b] by (simp add: aroundD(7) [OF ar] same)
  show "tc_fd (conns s' a) \<noteq> tc_fd (conns s' b)"
    if ab: "a < fresh_conn s'" "b < fresh_conn s'" "a \<noteq> b" "\<not> gone a s'" "\<not> gone b s'" for a b
  proof -
    have "\<not> gone d s" if "\<not> gone d s'" "d \<in> {a, b}" for d
    proof (cases "d = c")
      case False
      have "tc_channel (conns s d) \<noteq> tc_channel (conns s c)"
        using that(2) ab apartD(1) [OF ok _ c(3) False] by (auto simp: aroundD(7) [OF ar])
      with that(1) show ?thesis
        using around_conn(1) [OF ar False] around_conn(6) [OF ar] by (simp add: gone_def)
    qed (simp add: c)
    then show ?thesis using apartD(2) [OF ok, of a b] ab by (simp add: aroundD(7) [OF ar] same)
  qed
  show "ch_index (chans s' ch) = kNew" if "fresh_chan s' \<le> ch" for ch
    using that apartD(3) [OF ok, of ch] around_conn(6) [OF ar, of ch] c(2) by (simp add: aroundD(4) [OF ar])
qed

lemma base_around:
  assumes ar: "around c s s'" and ok: "base interest R X s" and c: "c \<in> X" "c < fresh_conn s" "\<not> gone c s"
    and net: "net_ok interest s'" and table: "table_ok s'"
  shows "base interest R X s'"
proof (rule baseI)
  note same = aroundD(7,8) [OF ar]
  have stage: "in_stage R st d s'" if "d < fresh_conn s" "d \<notin> X" "in_stage R st d s" for st d
  proof (rule in_stage_around [OF ar _ that(1,3)])
    show dc: "d \<noteq> c" using that(2) c(1) by blast
    show "tc_channel (conns s d) \<noteq> tc_channel (conns s c)" by (rule apartD(1) [OF baseD(3) [OF ok] that(1) c(2) dc])
    show "tc_fd (conns s d) \<noteq> tc_fd (conns s c)" if "\<not> gone d s"
      by (rule apartD(2) [OF baseD(3) [OF ok] \<open>d < fresh_conn s\<close> c(2) dc that c(3)])
  qed
  show "\<exists>st. in_stage R st d s'" if "d < fresh_conn s'" "d \<notin> X" for d
    using baseD(6) [OF ok _ that(2)] stage [OF _ that(2)] that(1) same(1) by auto
  show "in_stage R Up d s'" if "d \<in> members s'" "d \<notin> X" for d
    using baseD(7,8) [OF ok, of d] stage [OF _ that(2)] that members_chat [OF same(2)] by simp
  show "placed s' l f" if f: "f \<in> set (backlog R l s')" for l f
  proof -
    obtain fs where "backlog R l s' = backlog R l s @ fs" "\<forall>f \<in> set fs. task_of c f \<and> placed s l f"
      by (rule around_backlog [OF ar])
    with f baseD(5) [OF ok, of f l] have "placed s l f" by auto
    then show ?thesis by (rule placed_around [OF ar])
  qed
  show "apart s'"
    by (rule apart_around [OF ar baseD(3) [OF ok] c(3) _ c(2)])
       (use baseD(4) [OF ok c(2)] in \<open>simp add: made_ok_def Let_def\<close>)
qed (use net made_ok_around [OF ar baseD(4) [OF ok]] service_ok_around [OF ar baseD(2) [OF ok] table c(2)]
      baseD(7) [OF ok] aroundD(7) [OF ar] members_chat [OF aroundD(8) [OF ar]] in simp_all)

text \<open>A functor that a loop takes up is no longer waiting.\<close>

lemma owed_pop:
  assumes "\<not> task_of d f"
  shows "owed (R(l := f # fs)) d s = owed (R(l := fs)) d s"
  using assms by (auto simp: owed_def backlog_def task_of_def Let_def)

lemma base_pop:
  assumes ok: "base interest (R(l := f # fs)) X s" and other: "\<And>d. d \<notin> X \<Longrightarrow> \<not> task_of d f"
  shows "base interest (R(l := fs)) X s"
proof (rule baseI)
  have stage: "in_stage (R(l := fs)) st d s = in_stage (R(l := f # fs)) st d s" if "d \<notin> X" for st d
    by (cases st) (simp_all add: in_stage_def owed_pop [OF other [OF that]])
  show "\<exists>st. in_stage (R(l := fs)) st d s" if "d < fresh_conn s" "d \<notin> X" for d
    using baseD(6) [OF ok that] by (simp add: stage [OF that(2)])
  show "in_stage (R(l := fs)) Up d s" if "d \<in> members s" "d \<notin> X" for d
    using baseD(8) [OF ok that] by (simp add: stage [OF that(2)])
  show "placed s k g" if "g \<in> set (backlog (R(l := fs)) k s)" for k g
    using that by (intro baseD(5) [OF ok]) (auto simp: backlog_def split: if_splits)
qed (use baseD [OF ok] in simp_all)

end
