(* ===== verification/ServerSteps.thy ===== *)
theory ServerSteps
  imports ServerInv
begin

text \<open>
  What each callback of a loop and each functor does to the server's invariant, in the loop that
  runs it.
\<close>

subsection \<open>Outcomes\<close>

text \<open>Either a fault of \<open>F\<close>, or a result with \<open>P\<close>.\<close>

definition ends :: "fault set \<Rightarrow> ('a \<Rightarrow> bool) \<Rightarrow> 'a res \<Rightarrow> bool" where
  "ends F P m \<longleftrightarrow> (case m of Inl e \<Rightarrow> e \<in> F | Inr x \<Rightarrow> P x)"

lemma ends_simps [simp]: "ends F P (Inl e) \<longleftrightarrow> e \<in> F" "ends F P (Inr x) \<longleftrightarrow> P x"
  by (simp_all add: ends_def)

lemma ends_bind:
  assumes "ends F P m" "\<And>x. m = Inr x \<Longrightarrow> P x \<Longrightarrow> ends F Q (f x)"
  shows "ends F Q (bind_res m f)"
  using assms by (cases m) simp_all

lemma ends_mono: "ends F P m \<Longrightarrow> F \<subseteq> G \<Longrightarrow> (\<And>x. m = Inr x \<Longrightarrow> P x \<Longrightarrow> Q x) \<Longrightarrow> ends G Q m"
  by (cases m) auto

lemma ends_cases: "(m = Inl e \<or> (\<exists>x. m = Inr x \<and> P x)) \<Longrightarrow> e \<in> F \<Longrightarrow> ends F P m"
  by (cases m) auto

subsection \<open>Sending\<close>

definition still :: "'k interest \<Rightarrow> ('k, 'z) world_scheme \<Rightarrow> ('k, 'z) world_scheme \<Rightarrow> bool" where
  "still interest s s' \<longleftrightarrow> calm s s' \<and> net_ok interest s' \<and> chat s' = chat s"

lemma still_refl: "net_ok interest s \<Longrightarrow> still interest s s"
  by (simp add: still_def calm_refl)

lemma still_trans: "still interest s s1 \<Longrightarrow> still interest s1 s2 \<Longrightarrow> still interest s s2"
  using calm_trans unfolding still_def by fastforce

lemma traffic_still: "traffic s s' \<Longrightarrow> net_ok interest s' \<Longrightarrow> still interest s s'"
  by (simp add: still_def traffic_calm world_tail(2) [OF trafficD(7)])

lemma sendable_calm:
  assumes "calm s s'" "sendable d s"
  shows "sendable d s'"
  using assms(2) calm_conn [OF assms(1), of d] calm_conn(6-9) [OF assms(1), of "tc_channel (conns s d)"]
    calmD(3,5) [OF assms(1), of d] calmD(12) [OF assms(1)] calm_loop(2) [OF assms(1)]
    conn_static_fields(7,8) [OF calmD(1) [OF assms(1), of d]]
  by (auto simp: sendable_def conn_ready_def)

lemma sendable_up:
  assumes "made_ok c s" "in_stage R Up c s" "c < fresh_conn s"
  shows "sendable c s"
  using assms by (simp add: sendable_def conn_ready_def made_ok_def in_stage_def Let_def)

lemma sends_still:
  fixes s :: "('k, 'z) world_scheme"
  assumes laws: "kernel_laws os wire interest" and net: "net_ok interest s" and ok: "\<forall>d \<in> set ds. sendable d s"
  shows "ends {HeapOverrun} (still interest s) (foldR (\<lambda>d. Send os t d msg) ds s)"
  using sends_traffic [OF laws net ok, of t msg] traffic_still by (intro ends_cases) blast+

lemma Send_still:
  fixes s :: "('k, 'z) world_scheme"
  assumes laws: "kernel_laws os wire interest" and net: "net_ok interest s" and ok: "sendable d s"
  shows "ends {HeapOverrun} (still interest s) (Send os t d msg s)"
  using Send_traffic [OF laws net ok, of t msg] traffic_still by (intro ends_cases) blast+

text \<open>All the members of the room, but for those of \<open>X\<close>, can be sent to.\<close>

definition audience :: "conn set \<Rightarrow> ('k, 'z) world_scheme \<Rightarrow> bool" where
  "audience X s \<longleftrightarrow> (\<forall>d \<in> members s - X. sendable d s)"

lemma audience_base: "base interest R X s \<Longrightarrow> audience X s"
  using sendable_up baseD(4,7,8) unfolding audience_def by blast

lemma audience_still: "still interest s s' \<Longrightarrow> audience X s \<Longrightarrow> audience X s'"
  using sendable_calm members_chat unfolding audience_def still_def by blast

lemma Broadcast_still:
  fixes s :: "('k, 'z) world_scheme"
  assumes "kernel_laws os wire interest" "net_ok interest s" "audience {} s"
  shows "ends {HeapOverrun} (still interest s) (Broadcast os t msg s)"
  unfolding Broadcast_sends
  by (rule sends_still [OF assms(1,2)]) (use assms(3) in \<open>auto simp: audience_def members_def\<close>)

lemma BroadcastNoSelf_still:
  fixes s :: "('k, 'z) world_scheme"
  assumes "kernel_laws os wire interest" "net_ok interest s" "audience {c} s"
  shows "ends {HeapOverrun} (still interest s) (BroadcastNoSelf os t c msg s)"
  unfolding BroadcastNoSelf_sends
  by (rule sends_still [OF assms(1,2)]) (use assms(3) in \<open>auto simp: audience_def members_def\<close>)

subsection \<open>The room's callbacks\<close>

lemma still_kern:
  assumes "net_ok interest s" "interest k = interest (kern s)"
  shows "still interest s (s\<lparr>kern := k\<rparr>)"
  using net_ok_cong [OF assms(1), of "s\<lparr>kern := k\<rparr>"] calm_kern assms(2) by (simp add: still_def)

text \<open>A shutdown in the connection's own loop.\<close>

lemma Shutdown_still:
  fixes s :: "('k, 'z) world_scheme"
  assumes laws: "kernel_laws os wire interest" and net: "net_ok interest s"
    and here: "IsInLoopThread t (tc_loop (conns s c)) s" and added: "ch_index (conn_channel s c) = kAdded"
  shows "ends {HeapOverrun} (still interest s) (Shutdown os t c s)"
proof (cases "tc_state (conns s c) = kConnected")
  case True
  define s1 where "s1 = set_state kDisconnected c s"
  have calm1: "calm s s1" unfolding s1_def by (rule calm_down) (use True added in simp_all)
  have net1: "net_ok interest s1" by (rule net_ok_cong [OF net]) (simp_all add: s1_def set_state_def)
  have one: "still interest s s1" using calm1 net1 by (simp add: still_def s1_def set_state_def)
  have "still interest s1 (s1\<lparr>kern := ShutdownWrite os (tc_fd (conns s1 c)) (kern s1)\<rparr>)"
    by (rule still_kern [OF net1]) (simp add: ShutdownWrite_def quiet_lawD(1) [OF kernel_lawsD(5) [OF laws]])
  then have "still interest s1 (ShutdownInLoop os c s1)"
    using net1 by (simp add: ShutdownInLoop_def still_refl)
  with one have "still interest s (ShutdownInLoop os c s1)" by (rule still_trans)
  with True here show ?thesis
    by (simp add: Shutdown_def RunInLoop_def s1_def IsInLoopThread_def set_state_def)
next
  case False
  then show ?thesis using net by (simp add: Shutdown_def still_refl)
qed

text \<open>\<open>c\<close> may join the room, nobody else.\<close>

definition steady :: "'k interest \<Rightarrow> conn \<Rightarrow> ('k, 'z) world_scheme \<Rightarrow> ('k, 'z) world_scheme \<Rightarrow> bool" where
  "steady interest c s s' \<longleftrightarrow> calm s s' \<and> net_ok interest s' \<and> members s' \<subseteq> insert c (members s)"

lemma still_steady: "still interest s s' \<Longrightarrow> steady interest c s s'"
  unfolding still_def steady_def using members_chat by blast

lemma still_then: "still interest s s1 \<Longrightarrow> steady interest c s1 s2 \<Longrightarrow> steady interest c s s2"
  using calm_trans [of s s1 s2] members_chat [of s1 s] unfolding still_def steady_def by metis

lemma net_ok_upd_chat: "net_ok interest (upd_chat f s) = net_ok interest s"
  by (rule iffI; erule net_ok_cong) simp_all

lemma UserLogin_steady:
  fixes s :: "('k, 'z) world_scheme"
  assumes laws: "kernel_laws os wire interest" and net: "net_ok interest s" and ok: "sendable c s" "audience {c} s"
    and here: "IsInLoopThread t (tc_loop (conns s c)) s" and added: "ch_index (conn_channel s c) = kAdded"
  shows "ends {HeapOverrun} (steady interest c s) (UserLogin os t c name s)"
  unfolding UserLogin_def
proof (rule ends_bind [OF Send_still [OF laws net ok(1)]])
  fix s1 assume one: "still interest s s1"
  then have net1: "net_ok interest s1" and calm1: "calm s s1" by (simp_all add: still_def)
  show "ends {HeapOverrun} (steady interest c s)
    (if IsNewName name s1 then
       bind_res (BroadcastNoSelf os t c (char23 # c_str name) s1) (\<lambda>s.
         Inr (upd_chat (\<lambda>r. r\<lparr>conn_name_map := AList.update c name (conn_name_map r),
                             name_conn_map := AList.update name c (name_conn_map r)\<rparr>) s))
     else Shutdown os t c s1)"
  proof (cases "IsNewName name s1")
    case True
    have "ends {HeapOverrun} (steady interest c s)
       (bind_res (BroadcastNoSelf os t c (char23 # c_str name) s1) (\<lambda>s.
         Inr (upd_chat (\<lambda>r. r\<lparr>conn_name_map := AList.update c name (conn_name_map r),
                             name_conn_map := AList.update name c (name_conn_map r)\<rparr>) s)))"
    proof (rule ends_bind [OF BroadcastNoSelf_still [OF laws net1 audience_still [OF one ok(2)]]])
      fix s2 assume two: "still interest s1 s2"
      have "still interest s s2" by (rule still_trans [OF one two])
      moreover have "name_conn_map (chat s2) = name_conn_map (chat s)" "map_of (name_conn_map (chat s2)) name = None"
        using one two True by (simp_all add: still_def IsNewName_def)
      ultimately show "ends {HeapOverrun} (steady interest c s)
        (Inr (upd_chat (\<lambda>r. r\<lparr>conn_name_map := AList.update c name (conn_name_map r),
                             name_conn_map := AList.update name c (name_conn_map r)\<rparr>) s2))"
        using calm_trans [OF _ calm_chat, of s s2]
        by (auto simp: still_def steady_def net_ok_upd_chat members_def update_new)
    qed
    with True show ?thesis by simp
  next
    case False
    have "IsInLoopThread t (tc_loop (conns s1 c)) s1" "ch_index (conn_channel s1 c) = kAdded"
      using here added calm_conn(1,4,6) [OF calm1] calm_loop(1) [OF calm1] by (simp_all add: IsInLoopThread_def)
    with False show ?thesis
      using ends_mono [OF Shutdown_still [OF laws net1] subset_refl still_steady [OF still_trans [OF one]]] by simp
  qed
qed

lemma retrieve_still:
  assumes net: "net_ok interest s" and tidy: "tidy (tc_input (conns s c))"
  obtains s1 where "retrieve_input c s = Inr (buffer_content (tc_input (conns s c)), s1)" "still interest s s1"
    "chat s1 = chat s"
proof -
  let ?b = "RetriveAll (tc_input (conns s c))"
  have "calm s (upd_conn c (\<lambda>tc. tc\<lparr>tc_input := RetriveAll (tc_input tc)\<rparr>) s)"
    using calm_input [of ?b s c] tidy by (simp add: tidy_def RetriveAll_inv upd_conn_def)
  moreover have "net_ok interest (upd_conn c (\<lambda>tc. tc\<lparr>tc_input := RetriveAll (tc_input tc)\<rparr>) s)"
    by (rule net_ok_cong [OF net]) simp_all
  ultimately show thesis
    using retrieve_input_whole [of s c] tidy
    by (intro that [of "upd_conn c (\<lambda>tc. tc\<lparr>tc_input := RetriveAll (tc_input tc)\<rparr>) s"])
       (simp_all add: tidy_def still_def upd_conn_def)
qed

lemma scan_dest_ends: "ends {HeapOverread} (\<lambda>r. True) (scan_dest str i acc)"
proof (induction str i acc rule: scan_dest.induct)
  case (1 str i acc)
  then show ?case by (subst scan_dest.simps) (simp add: Let_def)
qed

lemma SendPrivateMsg_steady:
  fixes s :: "('k, 'z) world_scheme"
  assumes laws: "kernel_laws os wire interest" and net: "net_ok interest s" and room: "chat_ok (chat s)"
    and all: "audience {} s" and tidy: "tidy (tc_input (conns s c))" and reg: "name_of c (chat s) \<noteq> []"
  shows "ends {HeapOverrun, HeapOverread} (steady interest c s) (SendPrivateMsg os t c s)"
proof -
  obtain s1 where get: "retrieve_input c s = Inr (buffer_content (tc_input (conns s c)), s1)"
    and one: "still interest s s1" and chat1: "chat s1 = chat s"
    by (rule retrieve_still [OF net tidy])
  have src: "index_conn_name c s1 = (name_of c (chat s), s1)"
    using reg registered_upd_chat [of c s1] by (simp add: index_conn_name_touched chat1)
  have known: "map_of (name_conn_map (chat s1)) (c_str (name_of c (chat s))) = Some c"
    using chat_ok_source [OF room reg] by (simp add: chat1)
  have net1: "net_ok interest s1" using one by (simp add: still_def)
  have send: "ends {HeapOverrun} (still interest s1) (Send os t d msg s1)"
    if "map_of (name_conn_map (chat s1)) n = Some d" for d msg n
  proof (rule Send_still [OF laws net1])
    have "d \<in> members s1" using map_of_SomeD [OF that] by (force simp: members_def)
    with audience_still [OF one all] show "sendable d s1" by (simp add: audience_def)
  qed
  show ?thesis
    unfolding SendPrivateMsg_def get bind_res_simps prod.case Let_def src
  proof (rule ends_bind [OF ends_mono [OF scan_dest_ends]])
    fix r :: "string \<times> nat"
    obtain dest i where r: "r = (dest, i)" by fastforce
    show "ends {HeapOverrun, HeapOverread} (steady interest c s)
      (case r of (dest_name, begin) \<Rightarrow>
        case map_of (name_conn_map (chat s1)) (c_str dest_name) of None \<Rightarrow> Inr s1
        | Some d \<Rightarrow>
            bind_res (Send os t d ([char20] @ c_str (name_of c (chat s)) @ [char20] @
                 drop (begin + 1) (c_str (buffer_content (tc_input (conns s c))))) s1)
             (\<lambda>s2. if map_of (name_conn_map (chat s2)) (c_str (name_of c (chat s))) = None
                  then Inl NullDeref else Inr s2))"
    proof (cases "map_of (name_conn_map (chat s1)) (c_str dest)")
      case None
      then show ?thesis using still_steady [OF one] by (simp add: r)
    next
      case (Some d)
      have "ends {HeapOverrun, HeapOverread} (steady interest c s)
            (bind_res (Send os t d msg s1)
             (\<lambda>s2. if map_of (name_conn_map (chat s2)) (c_str (name_of c (chat s))) = None
                  then Inl NullDeref else Inr s2))" for msg
      proof (rule ends_bind [OF ends_mono [OF send [OF Some]]])
        fix s2 assume two: "still interest s1 s2"
        then have "chat s2 = chat s1" by (simp add: still_def)
        with known still_steady [OF still_trans [OF one two]]
        show "ends {HeapOverrun, HeapOverread} (steady interest c s)
          (if map_of (name_conn_map (chat s2)) (c_str (name_of c (chat s))) = None then Inl NullDeref else Inr s2)"
          by simp
      qed simp_all
      then show ?thesis by (simp add: r Some)
    qed
  qed simp_all
qed

lemma SendGroupMsg_steady:
  fixes s :: "('k, 'z) world_scheme"
  assumes laws: "kernel_laws os wire interest" and net: "net_ok interest s"
    and all: "audience {} s" and tidy: "tidy (tc_input (conns s c))" and reg: "name_of c (chat s) \<noteq> []"
    and some: "buffer_content (tc_input (conns s c)) \<noteq> []"
  shows "ends {HeapOverrun, HeapOverread} (steady interest c s) (SendGroupMsg os t c s)"
proof -
  obtain s1 where get: "retrieve_input c s = Inr (buffer_content (tc_input (conns s c)), s1)"
    and one: "still interest s s1" and chat1: "chat s1 = chat s"
    by (rule retrieve_still [OF net tidy])
  have src: "index_conn_name c s = (name_of c (chat s), s)"
    using reg registered_upd_chat [of c s] by (simp add: index_conn_name_touched)
  have "net_ok interest s1" using one by (simp add: still_def)
  from Broadcast_still [OF laws this audience_still [OF one all]]
  have "ends {HeapOverrun, HeapOverread} (steady interest c s) (Broadcast os t msg s1)" for msg
    by (rule ends_mono) (use still_steady [OF still_trans [OF one]] in auto)
  then show ?thesis by (simp add: SendGroupMsg_def src get some)
qed

lemma ReadCb_steady:
  fixes s :: "('k, 'z) world_scheme"
  assumes laws: "kernel_laws os wire interest" and net: "net_ok interest s" and room: "chat_ok (chat s)"
    and all: "audience {} s" and c: "sendable c s" "tidy (tc_input (conns s c))"
    and here: "IsInLoopThread t (tc_loop (conns s c)) s" and added: "ch_index (conn_channel s c) = kAdded"
    and some: "buffer_content (tc_input (conns s c)) \<noteq> []"
  shows "ends {HeapOverrun, HeapOverread} (steady interest c s) (ReadCb os t c now s)"
proof (cases "name_of c (chat s) = []")
  case True
  let ?s = "upd_chat (touched c) s"
  have mem: "members ?s = members s" by (simp add: members_def)
  have net0: "net_ok interest ?s" using net by (simp add: net_ok_upd_chat)
  obtain s1 where get: "retrieve_input c ?s = Inr (buffer_content (tc_input (conns s c)), s1)"
    and one: "still interest ?s s1"
    by (rule retrieve_still [OF net0, of c]) (use c(2) in simp_all)
  have calm1: "calm s s1" and net1: "net_ok interest s1"
    using one calm_trans [OF calm_chat, of "touched c" s s1] by (simp_all add: still_def)
  have mem1: "members s1 = members s" using one members_chat [of s1 ?s] mem by (simp add: still_def)
  have aud: "audience {c} s1"
    using all sendable_calm [OF calm1] by (auto simp: audience_def mem1)
  have "IsInLoopThread t (tc_loop (conns s1 c)) s1" "ch_index (conn_channel s1 c) = kAdded"
    using here added calm_conn(1,4,6) [OF calm1] calm_loop(1) [OF calm1] by (simp_all add: IsInLoopThread_def)
  note UserLogin_steady [OF laws net1 sendable_calm [OF calm1 c(1)] aud this]
  then have "ends {HeapOverrun, HeapOverread} (steady interest c s) (UserLogin os t c name s1)" for name
    by (rule ends_mono) (use calm_trans [OF calm1] mem1 in \<open>auto simp: steady_def\<close>)
  with True get show ?thesis by (simp add: ReadCb_def IsNewClient_def index_conn_name_touched)
next
  case False
  have inv: "buffer_inv (tc_input (conns s c))" using c(2) by (simp add: tidy_def)
  obtain x xs where "buffer_content (tc_input (conns s c)) = x # xs" using some by (cases "buffer_content (tc_input (conns s c))") auto
  note first = first_byte [OF inv this]
  have new: "IsNewClient c s = (False, s)"
    using False by (simp add: IsNewClient_def index_conn_name_touched registered_upd_chat)
  have same: "steady interest c s s" using net by (auto simp: steady_def calm_refl)
  show ?thesis
    using SendPrivateMsg_steady [OF laws net room all c(2) False, of t]
      SendGroupMsg_steady [OF laws net all c(2) False some, of t] same
    by (simp add: ReadCb_def new IsPrivateChat_def IsGroupChat_def first)
qed

subsection \<open>The steps of a life\<close>

lemma table_ok_cong:
  assumes "server s' = server s" "fresh_conn s' = fresh_conn s" "\<And>c. tc_name (conns s' c) = tc_name (conns s c)"
  shows "table_ok s' = table_ok s"
  by (simp add: table_ok_def assms)

lemma baseD_table: "base interest R X s \<Longrightarrow> table_ok s"
  using baseD(2) by (fastforce simp: service_ok_def)

lemma made_okD:
  assumes "made_ok c s"
  shows "tc_channel (conns s c) < fresh_chan s" "tc_loop (conns s c) \<in> set (get_loops (pool s))"
    "ch_fd (conn_channel s c) = tc_fd (conns s c)" "ch_loop (conn_channel s c) = tc_loop (conns s c)"
    "tc_conn_cb (conns s c) = Some FnOnConnection" "tc_close_cb (conns s c) = Some FnRemoveConnection"
    "tc_msg_cb (conns s c) = Some FnReadCb" "tidy (tc_input (conns s c))"
  using assms by (simp_all add: made_ok_def Let_def)

text \<open>Its state and its channel.\<close>

lemma updated_around:
  fixes s s' :: "('k, 'z) world_scheme"
  assumes ok: "made_ok c s" and f: "keeps f" "\<And>x. chan_static (f x) = chan_static x"
    and upd: "updated (tc_channel (conns s c)) (upd_chan (tc_channel (conns s c)) f (set_state st c s)) s'"
    and st: "st \<noteq> kConnecting"
  shows "around c s s'"
    "conns s' = (conns s)(c := (conns s c)\<lparr>tc_state := st\<rparr>)" "evloops s' = evloops s" "cstate.more s' = cstate.more s"
    "conn_channel s' c = (f (conn_channel s c))\<lparr>ch_index := next_index (f (conn_channel s c))\<rparr>"
proof -
  let ?ch = "tc_channel (conns s c)"
  note m = made_okD [OF ok]
  have below: "pstate.more s' = pstate.more (set_state st c s)" using upd by (simp add: updated_def Let_def)
  note more = more_upper [OF this]
  show conns: "conns s' = (conns s)(c := (conns s c)\<lparr>tc_state := st\<rparr>)" using more(2) by (simp add: set_state_def)
  show ev: "evloops s' = evloops s" using more(1) by (simp add: set_state_def)
  show ext: "cstate.more s' = cstate.more s" using more(3) by (simp add: set_state_def)
  have chans: "chans s' = (chans s)(?ch := (f (chans s ?ch))\<lparr>ch_index := next_index (f (chans s ?ch))\<rparr>)"
    using upd by (simp add: updated_def Let_def set_state_def)
  then show "conn_channel s' c = (f (conn_channel s c))\<lparr>ch_index := next_index (f (conn_channel s c))\<rparr>"
    by (simp add: conns)
  have "ch_fd (f (chans s ?ch)) = tc_fd (conns s c)" "ch_loop (f (chans s ?ch)) = tc_loop (conns s c)"
    using f(1) m(3,4) by (simp_all add: keeps_def)
  then have slots: "p_channels (pollers s' l) fd = p_channels (pollers s l) fd"
    if "(l, fd) \<noteq> (tc_loop (conns s c), tc_fd (conns s c))" for l fd
    using upd that by (auto simp: updated_def Let_def set_state_def)
  have "fresh_chan s' = fresh_chan s" using below by (cases s, cases s') (simp add: set_state_def upd_conn_def)
  moreover have "chan_static ((f (chans s ?ch))\<lparr>ch_index := i\<rparr>) = chan_static (chans s ?ch)" for i
    using f(2) [of "chans s ?ch"] by (simp add: chan_static_def)
  ultimately show "around c s s'"
    unfolding around_def using st slots world_tail [OF ext]
    by (intro conjI exI [of _ st] allI exI [of _ "[]"])
       (auto simp: conns chans ev live_conns_def)
qed

lemma removed_around:
  fixes s s' :: "('k, 'z) world_scheme"
  assumes ok: "made_ok c s" and rem: "removed (tc_channel (conns s c)) s s'"
  shows "around c s s'" "conns s' = conns s" "evloops s' = evloops s" "cstate.more s' = cstate.more s"
    "conn_channel s' c = (conn_channel s c)\<lparr>ch_index := kNew\<rparr>"
proof -
  let ?ch = "tc_channel (conns s c)"
  note m = made_okD [OF ok]
  have below: "pstate.more s' = pstate.more s" using rem by (simp add: removed_def Let_def)
  note more = more_upper [OF this]
  show "conns s' = conns s" "evloops s' = evloops s" and ext: "cstate.more s' = cstate.more s" by (rule more)+
  have chans: "chans s' = (chans s)(?ch := (chans s ?ch)\<lparr>ch_index := kNew\<rparr>)"
    using rem by (simp add: removed_def Let_def)
  then show "conn_channel s' c = (conn_channel s c)\<lparr>ch_index := kNew\<rparr>" by (simp add: more)
  have slots: "p_channels (pollers s' l) fd = p_channels (pollers s l) fd"
    if "(l, fd) \<noteq> (tc_loop (conns s c), tc_fd (conns s c))" for l fd
    using rem that m(3,4) by (auto simp: removed_def Let_def)
  have "fresh_chan s' = fresh_chan s" using below by (cases s, cases s') simp
  then show "around c s s'"
    unfolding around_def using slots world_tail [OF ext]
    by (intro conjI exI [of _ "tc_state (conns s c)"] allI exI [of _ "[]"])
       (auto simp: more chans live_conns_def chan_static_def)
qed

text \<open>A functor queued for it.\<close>

lemma queued_around:
  fixes s :: "('k, 'z) world_scheme"
  assumes "task_of c f" "placed s l f"
  shows "around c s (QueueInLoop os t l f s)"
proof -
  let ?s = "QueueInLoop os t l f s"
  have "lstate.more ?s = lstate.more s" "thread_loop ?s = thread_loop s" "fresh_chan ?s = fresh_chan s"
    by (simp_all add: QueueInLoop_def WakeUp_def Let_def)
  moreover have "\<exists>fs. evloops ?s k = (evloops s k)\<lparr>el_pending := el_pending (evloops s k) @ fs\<rparr> \<and>
      (\<forall>f \<in> set fs. task_of c f \<and> placed s k f)" for k
    using assms by (intro exI [of _ "if k = l then [f] else []"]) (simp add: push_pending_def)
  ultimately show ?thesis
    unfolding around_def using world_tail [OF QueueInLoop_conns(2), of os t l f s]
    by (intro conjI exI [of _ "tc_state (conns s c)"] exI [of _ "conn_channel s c"]) (auto simp: live_conns_def)
qed

lemma backlog_QueueInLoop:
  "backlog R k (QueueInLoop os t l f s) = backlog R k s @ (if k = l then [f] else [])"
  by (simp add: backlog_def push_pending_def)

text \<open>What a step of loop \<open>l\<close>'s thread leaves behind: the invariant, and every loop in its thread.\<close>

definition goes_on :: "'k interest \<Rightarrow> batch \<Rightarrow> ('k, 'z) world_scheme \<Rightarrow> ('k, 'z) world_scheme \<Rightarrow> bool" where
  "goes_on interest R s s' \<longleftrightarrow>
     server_ok interest R s' \<and> (\<forall>l. el_thread_id (evloops s' l) = el_thread_id (evloops s l))"

lemma UserExit_calm:
  fixes s :: "('k, 'z) world_scheme"
  assumes laws: "kernel_laws os wire interest" and net: "net_ok interest s" and room: "chat_ok (chat s)"
    and all: "audience {c} s"
  shows "ends {HeapOverrun} (\<lambda>s'. calm s s' \<and> net_ok interest s' \<and> chat_ok (chat s') \<and> members s' \<subseteq> members s - {c})
    (UserExit os t c s)"
proof -
  have gone: "c \<notin> members s'" if "UserExit os t c s = Inr s'" for s'
  proof
    assume "c \<in> members s'"
    then obtain n where "(n, c) \<in> set (name_conn_map (chat s'))" by (auto simp: members_def)
    moreover have "distinct (map fst (name_conn_map (chat s')))"
      using UserExit_forgets(1) [OF that room] by (simp add: chat_ok_def)
    ultimately have "map_of (name_conn_map (chat s')) n = Some c" by simp
    with UserExit_forgets(3) [OF that room] show False by simp
  qed
  have sub: "set (AList.delete k m) \<subseteq> set m" for k and m :: "(string \<times> conn) list"
    by (auto simp: AList.delete_eq)
  have kept: "members s' \<subseteq> members s" if "UserExit os t c s = Inr s'" for s'
    using UserExit_cases [OF that] sub by (fastforce simp: members_def split: if_splits)
  have "ends {HeapOverrun} (\<lambda>s'. calm s s' \<and> net_ok interest s') (UserExit os t c s)"
  proof (cases "name_of c (chat s) = []")
    case True
    then show ?thesis
      using calm_trans [OF calm_chat calm_chat] net by (simp add: UserExit_run [OF room] net_ok_upd_chat)
  next
    case False
    have "ends {HeapOverrun} (still interest s)
        (foldR (\<lambda>d. Send os t d (char22 # name_of c (chat s))) (filter (\<lambda>d. d \<noteq> c) (map snd (name_conn_map (chat s)))) s)"
      by (rule sends_still [OF laws net]) (use all in \<open>auto simp: audience_def members_def\<close>)
    with False show ?thesis
      unfolding UserExit_run [OF room] if_P [OF False]
      by (elim ends_bind) (simp add: still_def net_ok_upd_chat calm_trans [OF _ calm_chat])
  qed
  then show ?thesis
    using gone kept UserExit_forgets(1) [OF _ room] by (elim ends_mono) auto
qed

lemma server_okD:
  assumes "server_ok interest R s"
  shows "base interest R {} s" "chat_ok (chat s)" "net_ok interest s"
  using assms baseD(1) by (auto simp: server_ok_def)

lemma stage_added:
  assumes "base interest R X s" "c < fresh_conn s" "c \<notin> X" "ch_index (conn_channel s c) = kAdded"
  shows "in_stage R Up c s"
proof -
  obtain st where "in_stage R st c s" using baseD(6) [OF assms(1-3)] by blast
  with assms(4) show ?thesis by (cases st) (simp_all add: in_stage_def Let_def)
qed

lemma away_from_main:
  assumes ok: "base interest R X s" and c: "c < fresh_conn s" and here: "IsInLoopThread t (tc_loop (conns s c)) s"
  shows "\<not> IsInLoopThread t (sv_loop (server s)) s"
  using baseD(2) [OF ok] made_okD(2) [OF baseD(4) [OF ok c]] here by (fastforce simp: service_ok_def IsInLoopThread_def)

text \<open>
  What a callback run for channel \<open>ch\<close> leaves to the other channels: they stay as they are but for their
  interest in writing, and \<open>ch\<close> itself stays with its poller.
\<close>

definition spares :: "chan \<Rightarrow> ('k, 'z) world_scheme \<Rightarrow> ('k, 'z) world_scheme \<Rightarrow> bool" where
  "spares ch s s' \<longleftrightarrow>
     (\<forall>d. ch_index (chans s d) \<noteq> kNew \<longrightarrow>
        chan_static (chans s' d) = chan_static (chans s d) \<and> ch_index (chans s' d) \<noteq> kNew \<and>
        (d \<noteq> ch \<longrightarrow> ch_index (chans s' d) = ch_index (chans s d))) \<and>
     fresh_conn s \<le> fresh_conn s' \<and>
     (\<forall>c < fresh_conn s. conn_static (conns s' c) = conn_static (conns s c))"

lemma sparesD:
  assumes "spares ch s s'"
  shows "ch_index (chans s d) \<noteq> kNew \<Longrightarrow> chan_static (chans s' d) = chan_static (chans s d)"
    "ch_index (chans s d) \<noteq> kNew \<Longrightarrow> ch_index (chans s' d) \<noteq> kNew"
    "ch_index (chans s d) \<noteq> kNew \<Longrightarrow> d \<noteq> ch \<Longrightarrow> ch_index (chans s' d) = ch_index (chans s d)"
    "c < fresh_conn s \<Longrightarrow> c < fresh_conn s'"
    "c < fresh_conn s \<Longrightarrow> conn_static (conns s' c) = conn_static (conns s c)"
  using assms unfolding spares_def by auto

lemma spares_trans: "spares ch s s1 \<Longrightarrow> spares ch s1 s2 \<Longrightarrow> spares ch s s2"
  unfolding spares_def by auto

lemma spares_calm: "calm s s' \<Longrightarrow> spares ch s s'"
  by (simp add: spares_def calmD(1,12) calm_conn(6) chan_core_static [OF calmD(2)])

lemma spares_around:
  assumes ar: "around c s s'" and ch: "tc_channel (conns s c) = ch" "ch_index (chans s' ch) \<noteq> kNew"
  shows "spares ch s s'"
proof -
  have "chans s' d = chans s d" if "d \<noteq> ch" for d using around_conn(6) [OF ar, of d] that ch(1) by simp
  moreover have "ch_index (chans s' d) \<noteq> kNew" if "ch_index (chans s d) \<noteq> kNew" for d
    using that ch(2) calculation [of d] by (cases "d = ch") auto
  ultimately show ?thesis
    using around_conn(2,7) [OF ar] aroundD(7) [OF ar] unfolding spares_def by simp
qed

text \<open>Disabled and out of the room, but nobody has been told.\<close>

definition closed :: "batch \<Rightarrow> conn \<Rightarrow> ('k, 'z) world_scheme \<Rightarrow> bool" where
  "closed R c s \<longleftrightarrow>
     tc_state (conns s c) = kDisconnected \<and> ch_index (conn_channel s c) = kDeleted \<and>
     ch_events (conn_channel s c) = kNoneEvent \<and> owed R c s = (0, 0, 0) \<and> c \<in> live_conns s"

lemma closed_calm:
  assumes calm: "calm s s'" and ok: "closed R c s"
  shows "closed R c s'"
proof -
  have "ch_index (conn_channel s c) \<noteq> kAdded" using ok by (simp add: closed_def)
  then have "conn_channel s' c = conn_channel s c" using calmD(6) [OF calm] calm_conn(4) [OF calm] by simp
  with ok show ?thesis
    using calmD(5) [OF calm, of c] owed_calm [OF calm] live_conns_server [OF calmD(9) [OF calm]] by (auto simp: closed_def)
qed

lemma close_begins:
  fixes s :: "('k, 'z) world_scheme"
  assumes laws: "kernel_laws os wire interest" and ok: "server_ok interest R s" and c: "c < fresh_conn s"
    and added: "ch_index (conn_channel s c) = kAdded"
  obtains s1 where "DisableAll os (tc_channel (conns s c)) (set_state kDisconnected c s) = Inr s1"
    "base interest R {c} s1" "closed R c s1" "spares (tc_channel (conns s c)) s s1"
    "chat s1 = chat s" "evloops s1 = evloops s" "sv_loop (server s1) = sv_loop (server s)"
proof -
  let ?ch = "tc_channel (conns s c)"
  note ok0 = server_okD(1) [OF ok]
  note made = baseD(4) [OF ok0 c]
  have up: "in_stage R Up c s" by (rule stage_added [OF ok0 c _ added]) simp
  define s0 where "s0 = set_state kDisconnected c s"
  have net0: "net_ok interest s0" by (rule net_ok_cong [OF server_okD(3) [OF ok]]) (simp_all add: s0_def set_state_def)
  have "ch_index (chans s0 ?ch) = kAdded" using added by (simp add: s0_def set_state_def)
  then obtain s1 where run: "DisableAll os ?ch s0 = Inr s1" and net1: "net_ok interest s1"
    and upd: "updated ?ch (upd_chan ?ch del_all s0) s1"
    using Channel_Update_net [OF kernel_lawsD(3) [OF laws] net0 keeps_simps(5), of ?ch] by (auto simp: DisableAll_def)
  have static: "chan_static (del_all x) = chan_static x" for x by (simp add: chan_static_def del_all_def)
  note ar = updated_around [OF made keeps_simps(5) static upd [unfolded s0_def]]
  have ar1: "around c s s1" using ar(1) by simp
  note ar2 = ar(2-5) [simplified]
  note same = world_tail [OF ar2(3)]
  have "ch_index (conn_channel s1 c) = kDeleted" "ch_events (conn_channel s1 c) = kNoneEvent"
    using added by (unfold ar2(4), simp_all add: del_all_def next_index_def IsNoneEvent_def)
  moreover have "tc_channel (conns s1 c) = ?ch" by (simp add: ar2(1))
  moreover have "owed R c s1 = (0, 0, 0)" "c \<in> live_conns s1"
    using up by (simp_all add: in_stage_def Let_def owed_def backlog_def ar2(1,2) same live_conns_def)
  ultimately have "closed R c s1" "spares ?ch s s1"
    using spares_around [OF ar1 refl] by (simp_all add: closed_def ar2(1))
  moreover have "base interest R {c} s1"
    using baseD_table [OF ok0] table_ok_cong [of s1 s] same added
    by (intro base_around [OF ar1 base_open [OF ok0] _ c _ net1]) (simp_all add: ar2(1) gone_def)
  ultimately show thesis
    by (intro that [of s1]) (use run same in \<open>simp_all add: s0_def ar2(2)\<close>)
qed

lemma close_ends:
  fixes s :: "('k, 'z) world_scheme" and t :: tid
  assumes laws: "kernel_laws os wire interest" and ok: "base interest R {c} s" and room: "chat_ok (chat s)"
    and c: "c < fresh_conn s" "closed R c s" "c \<notin> members s"
  defines "s1 \<equiv> QueueInLoop os t (sv_loop (server s)) (BindRemoveConnectionInLoop c) s"
  shows "goes_on interest R s s1" "spares (tc_channel (conns s c)) s s1"
proof -
  have ar: "around c s s1"
    unfolding s1_def by (rule queued_around) (use c in \<open>simp_all add: task_of_def placed_def\<close>)
  have net1: "net_ok interest s1" unfolding s1_def by (rule net_ok_QueueInLoop [OF laws baseD(1) [OF ok]])
  have table: "table_ok s1"
    using baseD_table [OF ok] table_ok_cong [of s1 s] world_tail [of s1 s] by (simp add: s1_def)
  have "\<not> gone c s" using c(2) by (simp add: gone_def closed_def)
  then have ok1: "base interest R {c} s1" by (intro base_around [OF ar ok _ c(1) _ net1 table]) simp_all
  have "owed R c s1 = (0, 1, 0)" using c(2) by (simp add: s1_def owed_def backlog_QueueInLoop closed_def Let_def)
  then have "in_stage R Closing c s1"
    using c(2) by (simp add: in_stage_def Let_def closed_def) (simp add: s1_def live_conns_def)
  moreover have "c \<notin> members s1" using c(3) by (simp add: s1_def members_def)
  ultimately have "base interest R {} s1" using base_close [OF ok1] by blast
  then show "goes_on interest R s s1"
    using room by (simp add: goes_on_def server_ok_def) (simp add: s1_def push_pending_def)
  show "spares (tc_channel (conns s c)) s s1"
    by (rule spares_around [OF ar refl]) (use c(2) in \<open>simp add: s1_def closed_def\<close>)
qed

text \<open>A callback of a channel: the invariant, and the other channels as before.\<close>

definition moves :: "'k interest \<Rightarrow> batch \<Rightarrow> chan \<Rightarrow> ('k, 'z) world_scheme \<Rightarrow> ('k, 'z) world_scheme \<Rightarrow> bool" where
  "moves interest R ch s s' \<longleftrightarrow> goes_on interest R s s' \<and> spares ch s s'"

lemma movesD: "moves interest R ch s s' \<Longrightarrow> goes_on interest R s s'" "moves interest R ch s s' \<Longrightarrow> spares ch s s'"
  by (simp_all add: moves_def)

lemma moves_trans: "moves interest R ch s s1 \<Longrightarrow> moves interest R ch s1 s2 \<Longrightarrow> moves interest R ch s s2"
  using spares_trans by (auto simp: moves_def goes_on_def)

lemma HandleClose_moves:
  fixes s :: "('k, 'z) world_scheme"
  assumes laws: "kernel_laws os wire interest" and ok: "server_ok interest R s" and c: "c < fresh_conn s"
    and added: "ch_index (conn_channel s c) = kAdded" and here: "IsInLoopThread t (tc_loop (conns s c)) s"
  shows "ends {HeapOverrun} (moves interest R (tc_channel (conns s c)) s) (HandleClose os (call_conn os t) c s)"
proof -
  let ?ch = "tc_channel (conns s c)"
  note ok0 = server_okD(1) [OF ok] and room = server_okD(2) [OF ok]
  have away: "el_thread_id (evloops s (sv_loop (server s))) \<noteq> t" using away_from_main [OF ok0 c here] by (simp add: IsInLoopThread_def)
  obtain s1 where s1: "DisableAll os ?ch (set_state kDisconnected c s) = Inr s1" "base interest R {c} s1" "closed R c s1"
    "spares ?ch s s1" "chat s1 = chat s" "evloops s1 = evloops s" "sv_loop (server s1) = sv_loop (server s)"
    by (rule close_begins [OF laws ok c added])
  have c1: "c < fresh_conn s1" and same1: "conn_static (conns s1 c) = conn_static (conns s c)" by (rule sparesD(4,5) [OF s1(4) c])+
  have close: "HandleClose os (call_conn os t) c s =
      bind_res (UserExit os t c s1) (\<lambda>s2. call_conn_fn (call_conn os t) (tc_close_cb (conns s2 c)) c s2)"
    using s1(1,3) made_okD(5) [OF baseD(4) [OF s1(2) c1]]
    by (simp add: HandleClose_def call_conn_fn_def call_conn_def OnConnection_def IsConnected_def closed_def)
  have room1: "chat_ok (chat s1)" using room by (simp add: s1(5))
  show ?thesis
    unfolding close
  proof (rule ends_bind [OF UserExit_calm [OF laws baseD(1) [OF s1(2)] room1 audience_base [OF s1(2)]]])
    fix s2 assume s2: "calm s1 s2 \<and> net_ok interest s2 \<and> chat_ok (chat s2) \<and> members s2 \<subseteq> members s1 - {c}"
    then have calm2: "calm s1 s2" and net2: "net_ok interest s2" and mem2: "members s2 \<subseteq> members s1 - {c}" by simp_all
    have ok2: "base interest R {c} s2" by (rule base_calm [OF calm2 s1(2) net2]) (use mem2 in blast)
    have c2: "c < fresh_conn s2" "closed R c s2" "c \<notin> members s2"
      using c1 calmD(12) [OF calm2] closed_calm [OF calm2 s1(3)] mem2 by auto
    have main2: "sv_loop (server s2) = sv_loop (server s)" using calmD(9) [OF calm2] s1(7) by simp
    have threads2: "el_thread_id (evloops s2 l) = el_thread_id (evloops s l)" for l
      using calm_loop(1) [OF calm2] by (simp add: s1(6))
    define s3 where "s3 = QueueInLoop os t (sv_loop (server s2)) (BindRemoveConnectionInLoop c) s2"
    have fin: "call_conn_fn (call_conn os t) (tc_close_cb (conns s2 c)) c s2 = Inr s3"
      using away made_okD(6) [OF baseD(4) [OF ok2 c2(1)]] threads2
      by (simp add: call_conn_fn_def call_conn_def RemoveConnection_def RunInLoop_def IsInLoopThread_def main2 s3_def)
    have "tc_channel (conns s2 c) = ?ch"
      using conn_static_fields(4) [OF same1] calm_conn(4) [OF calm2, of c] by simp
    with close_ends [OF laws ok2 _ c2, of t] s2
    have "goes_on interest R s2 s3" "spares ?ch s2 s3" by (simp_all add: s3_def)
    then show "ends {HeapOverrun} (moves interest R ?ch s) (call_conn_fn (call_conn os t) (tc_close_cb (conns s2 c)) c s2)"
      using spares_trans [OF spares_trans [OF s1(4) spares_calm [OF calm2]]] threads2
      by (simp add: fin moves_def goes_on_def)
  qed
qed

subsection \<open>Reading, writing and errors\<close>

lemma calm_moves:
  assumes calm: "calm s s'" and ok: "server_ok interest R s" and net: "net_ok interest s'" and room: "chat_ok (chat s')"
    and mem: "members s' \<subseteq> insert c (members s)" and c: "c < fresh_conn s" "ch_index (conn_channel s c) = kAdded"
  shows "moves interest R ch s s'"
proof -
  note ok0 = server_okD(1) [OF ok]
  have "in_stage R Up c s" by (rule stage_added [OF ok0 c(1) _ c(2)]) simp
  with mem c(1) have "base interest R {} s'" by (intro base_calm [OF calm ok0 net]) blast
  then show ?thesis using room calm_loop(1) [OF calm] spares_calm [OF calm] by (simp add: moves_def goes_on_def server_ok_def)
qed

lemma still_moves:
  assumes "still interest s s'" "server_ok interest R s"
  shows "moves interest R ch s s'"
  using assms base_calm_room [of s s' interest R "{}"] calm_loop(1) [of s s'] spares_calm [of s s' ch]
  by (simp add: still_def moves_def goes_on_def server_ok_def)

lemmas still_goes_on = movesD(1) [OF still_moves]

lemma HandleError_moves:
  fixes s :: "('k, 'z) world_scheme"
  assumes laws: "kernel_laws os wire interest" and ok: "server_ok interest R s"
  shows "moves interest R ch s (HandleError os c s)"
  unfolding HandleError_def
  by (rule still_moves [OF still_kern ok])
     (use server_okD(3) [OF ok] quiet_lawD(4) [OF kernel_lawsD(5) [OF laws]] in simp_all)

lemma Loop_HandleRead_moves:
  fixes s :: "('k, 'z) world_scheme"
  assumes laws: "kernel_laws os wire interest" and ok: "server_ok interest R s"
  shows "moves interest R ch s (Loop_HandleRead os l s)"
  unfolding Loop_HandleRead_def
  by (rule still_moves [OF still_kern ok])
     (use server_okD(3) [OF ok] quiet_lawD(3) [OF kernel_lawsD(5) [OF laws]] in simp_all)

text \<open>A closed connection is not written to.\<close>

lemma HandleWrite_moves:
  fixes s :: "('k, 'z) world_scheme"
  assumes laws: "kernel_laws os wire interest" and ok: "server_ok interest R s" and c: "c < fresh_conn s"
    and reg: "ch_index (conn_channel s c) \<noteq> kNew"
  shows "\<exists>s'. HandleWrite os t c s = Inr s' \<and> moves interest R ch s s'"
proof -
  note ok0 = server_okD(1) [OF ok] and net = server_okD(3) [OF ok]
  obtain st where stage: "in_stage R st c s" using baseD(6) [OF ok0 c] by blast
  show ?thesis
  proof (cases "st = Up")
    case True
    then have up: "in_stage R Up c s" using stage by simp
    obtain s' where s': "HandleWrite os t c s = Inr s'" "traffic s s'" "net_ok interest s'"
      using HandleWrite_traffic [OF laws net sendable_up [OF baseD(4) [OF ok0 c] up c], of t] up
      by (auto simp: in_stage_def Let_def)
    from still_moves [OF traffic_still [OF s'(2,3)] ok] s'(1) show ?thesis by blast
  next
    case False
    then have "ch_events (conn_channel s c) = kNoneEvent"
      using stage reg by (cases st) (simp_all add: in_stage_def Let_def)
    then have "\<not> IsWriting (conn_channel s c)" by (simp add: IsWriting_def kNoneEvent_def)
    then show ?thesis using still_moves [OF still_refl [OF net] ok] by (simp add: HandleWrite_idle)
  qed
qed

text \<open>
  A client's first message gives it a name, which the invariant wants not to be empty: a client
  that gives an empty one is never forgotten (\<open>empty_name_never_leaves\<close>).
\<close>

definition named_or_naming :: "'k os \<Rightarrow> conn \<Rightarrow> ('k, 'z) world_scheme \<Rightarrow> bool" where
  "named_or_naming os c s \<longleftrightarrow>
     name_of c (chat s) \<noteq> [] \<or>
     (case ReadFd os (tc_fd (conns s c)) (tc_input (conns s c)) (kern s) of
        Inr (Inr n, b, k') \<Rightarrow> 0 < n \<longrightarrow> offered_name c (upd_conn c (\<lambda>tc. tc\<lparr>tc_input := b\<rparr>) (s\<lparr>kern := k'\<rparr>)) \<noteq> []
      | _ \<Rightarrow> True)"

text \<open>The bytes just read, and the message callback on them.\<close>

lemma message_moves:
  fixes s :: "('k, 'z) world_scheme"
  assumes laws: "kernel_laws os wire interest" and ok: "server_ok interest R s" and c: "c < fresh_conn s"
    and added: "ch_index (conn_channel s c) = kAdded" and here: "IsInLoopThread t (tc_loop (conns s c)) s"
    and quiet: "interest k = interest (kern s)"
    and b: "buffer_inv b" "buffer_content b \<noteq> []" "reader_index b = kCheapPrepend"
  defines "s1 \<equiv> upd_conn c (\<lambda>tc. tc\<lparr>tc_input := b\<rparr>) (s\<lparr>kern := k\<rparr>)"
  assumes named: "name_of c (chat s) = [] \<longrightarrow> offered_name c s1 \<noteq> []"
  shows "ends {HeapOverrun, HeapOverread} (moves interest R ch s) (ReadCb os t c now s1)"
proof -
  note ok0 = server_okD(1) [OF ok] and room = server_okD(2) [OF ok]
  have up: "in_stage R Up c s" by (rule stage_added [OF ok0 c _ added]) simp
  have calm1: "calm s s1" unfolding s1_def
    by (rule calm_trans [OF calm_kern calm_input]) (use b in \<open>simp add: tidy_def\<close>)
  have net1: "net_ok interest s1" by (rule net_ok_cong [OF server_okD(3) [OF ok]]) (simp_all add: s1_def quiet)
  have same1: "chat s1 = chat s" "members s1 = members s" "fresh_conn s1 = fresh_conn s" by (simp_all add: s1_def members_def)
  have ok1: "base interest R {} s1" by (rule base_calm_room [OF calm1 ok0 net1 same1(1)])
  have c1: "c < fresh_conn s1" using c by (simp add: same1)
  have room1: "chat_ok (chat s1)" using room by (simp add: same1)
  have "ends {HeapOverrun, HeapOverread} (steady interest c s1) (ReadCb os t c now s1)"
  proof (rule ReadCb_steady [OF laws net1 room1 audience_base [OF ok1]])
    show "sendable c s1" by (rule sendable_up [OF baseD(4) [OF ok1 c1] in_stage_calm [OF calm1 up] c1])
    show "IsInLoopThread t (tc_loop (conns s1 c)) s1"
      using here calm_conn(1) [OF calm1] calm_loop(1) [OF calm1] by (simp add: IsInLoopThread_def)
  qed (use b added in \<open>simp_all add: s1_def tidy_def\<close>)
  moreover have "chat_ok (chat s2)" if "ReadCb os t c now s1 = Inr s2" for s2
    by (rule ReadCb_chat_ok [OF that room1]) (use named in \<open>simp add: same1\<close>)
  ultimately show ?thesis
    using calm_moves [OF calm_trans [OF calm1] ok _ _ _ c added]
    by (elim ends_mono) (auto simp: steady_def same1)
qed

lemma HandleRead_moves:
  fixes s :: "('k, 'z) world_scheme"
  assumes laws: "kernel_laws os wire interest" and ok: "server_ok interest R s" and c: "c < fresh_conn s"
    and added: "ch_index (conn_channel s c) = kAdded" and here: "IsInLoopThread t (tc_loop (conns s c)) s"
    and named: "named_or_naming os c s"
  shows "ends {HeapOverrun, HeapOverread} (moves interest R (tc_channel (conns s c)) s)
    (HandleRead os (call_conn os t) (call_msg os t) c now s)"
proof -
  let ?ch = "tc_channel (conns s c)"
  note made = made_okD [OF baseD(4) [OF server_okD(1) [OF ok] c]]
  have inv: "buffer_inv (tc_input (conns s c))" using made(8) by (simp add: tidy_def)
  obtain r k' where rv: "sys_readv os (tc_fd (conns s c)) (readv_lens (tc_input (conns s c))) (kern s) = (r, k')" by fastforce
  have quiet: "interest k' = interest (kern s)"
    using quiet_lawD(2) [OF kernel_lawsD(5) [OF laws], of "tc_fd (conns s c)" "readv_lens (tc_input (conns s c))" "kern s"] rv
    by simp
  note read = HandleRead_branches [OF inv rv, of "call_conn os t" "call_msg os t" now]
  have one: "moves interest R ?ch s (s\<lparr>kern := k'\<rparr>)" by (rule still_moves [OF still_kern [OF server_okD(3) [OF ok] quiet] ok])
  then have ok1: "server_ok interest R (s\<lparr>kern := k'\<rparr>)" by (simp add: moves_def goes_on_def)
  show ?thesis
  proof (cases r)
    case (Inl e)
    then have "HandleRead os (call_conn os t) (call_msg os t) c now s = Inr (HandleError os c (s\<lparr>kern := k'\<rparr>))"
      using read by (simp add: HandleError_def)
    with moves_trans [OF one HandleError_moves [OF laws ok1]] show ?thesis by simp
  next
    case (Inr bytes)
    consider "bytes = []" | "bytes \<noteq> []" "read_fits (length bytes) (tc_input (conns s c))"
      | "bytes \<noteq> []" "\<not> read_fits (length bytes) (tc_input (conns s c))" by blast
    then show ?thesis
    proof cases
      case 1
      have "ends {HeapOverrun} (moves interest R ?ch (s\<lparr>kern := k'\<rparr>)) (HandleClose os (call_conn os t) c (s\<lparr>kern := k'\<rparr>))"
        using HandleClose_moves [OF laws ok1, of c t] c added here by (simp add: IsInLoopThread_def)
      with 1 Inr read show ?thesis by (auto elim!: ends_mono moves_trans [OF one])
    next
      case 2
      obtain b where b: "ReadFd os (tc_fd (conns s c)) (tc_input (conns s c)) (kern s) = Inr (Inr (length bytes), b, k')"
        "buffer_inv b" "buffer_content b = buffer_content (tc_input (conns s c)) @ bytes" "reader_index b = kCheapPrepend"
        using ReadFd_bytes [OF inv rv [unfolded Inr]] 2(2) made(8) by (auto simp: tidy_def)
      let ?s1 = "upd_conn c (\<lambda>tc. tc\<lparr>tc_input := b\<rparr>) (s\<lparr>kern := k'\<rparr>)"
      have "HandleRead os (call_conn os t) (call_msg os t) c now s = ReadCb os t c now ?s1"
        using 2(1) b(1) made(7) by (simp add: HandleRead_def Let_def call_msg_fn_def call_msg_def)
      moreover have "name_of c (chat s) = [] \<longrightarrow> offered_name c ?s1 \<noteq> []"
        using named b(1) 2(1) by (auto simp: named_or_naming_def)
      ultimately show ?thesis
        using message_moves [OF laws ok c added here quiet b(2) _ b(4)] b(3) 2(1) by simp
    next
      case 3
      with Inr read show ?thesis by simp
    qed
  qed
qed

end
