(* ===== verification/ServerTasks.thy ===== *)
theory ServerTasks
  imports ServerSteps
begin

text \<open>What each functor does to the server's invariant, when its loop takes it up, and the accepting of a connection.\<close>

subsection \<open>Messages\<close>

lemma server_ok_pop:
  assumes "server_ok interest (R(l := f # fs)) s" "\<And>d. \<not> task_of d f"
  shows "server_ok interest (R(l := fs)) s"
  using assms base_pop [of interest R l f fs "{}" s] by (simp add: server_ok_def)

lemma placed_head:
  assumes "base interest (R(l := f # fs)) X s"
  shows "placed s l f"
  by (rule baseD(5) [OF assms]) (simp add: backlog_def)

lemma SendInLoop_goes_on:
  fixes s :: "('k, 'z) world_scheme"
  assumes laws: "kernel_laws os wire interest" and ok: "server_ok interest R s"
    and c: "c < fresh_conn s" "tc_state (conns s c) \<noteq> kConnecting"
  shows "ends {HeapOverrun} (goes_on interest R s) (SendInLoop os t c msg s)"
proof (cases "tc_state (conns s c) = kDisconnected")
  case True
  then show ?thesis using still_goes_on [OF still_refl [OF server_okD(3) [OF ok]] ok] by (simp add: SendInLoop_def)
next
  case False
  note ok0 = server_okD(1) [OF ok]
  obtain st where stage: "in_stage R st c s" using baseD(6) [OF ok0 c(1)] by blast
  then have "in_stage R Up c s" using c(2) False by (cases st) (simp_all add: in_stage_def Let_def)
  note SendInLoop_traffic [OF laws server_okD(3) [OF ok] sendable_up [OF baseD(4) [OF ok0 c(1)] this c(1)], of t msg]
  then have "ends {HeapOverrun} (\<lambda>s'. traffic s s' \<and> net_ok interest s') (SendInLoop os t c msg s)"
    by (rule ends_cases) simp
  then show ?thesis by (rule ends_mono) (auto intro: still_goes_on [OF traffic_still ok])
qed

subsection \<open>From stage to stage\<close>

text \<open>What a functor at the head says of its connection.\<close>

lemma owed_head:
  "owed (R(tc_loop (conns s c) := BindConnectionEstablished c # fs)) c s =
     (let (a, b, d) = owed (R(tc_loop (conns s c) := fs)) c s in (Suc a, b, d))"
  "owed (R(sv_loop (server s) := BindRemoveConnectionInLoop c # fs)) c s =
     (let (a, b, d) = owed (R(sv_loop (server s) := fs)) c s in (a, Suc b, d))"
  "owed (R(tc_loop (conns s c) := BindConnectDestroyed c # fs)) c s =
     (let (a, b, d) = owed (R(tc_loop (conns s c) := fs)) c s in (a, b, Suc d))"
  by (auto simp: owed_def backlog_def Let_def)

lemma stage_owing:
  assumes "in_stage R st c s"
  shows "owed R c s = (Suc a, b, d) \<Longrightarrow> st = New \<and> (a, b, d) = (0, 0, 0)"
    "owed R c s = (a, Suc b, d) \<Longrightarrow> st = Closing \<and> (a, b, d) = (0, 0, 0)"
    "owed R c s = (a, b, Suc d) \<Longrightarrow> st = Dying \<and> (a, b, d) = (0, 0, 0)"
  using assms by (cases st; simp add: in_stage_def Let_def)+

lemma ConnectionEstablished_goes_on:
  fixes s :: "('k, 'z) world_scheme"
  assumes laws: "kernel_laws os wire interest" and ok: "server_ok interest (R(l := BindConnectionEstablished c # fs)) s"
  shows "\<exists>s'. ConnectionEstablished os (call_conn os t) c s = Inr s' \<and> goes_on interest (R(l := fs)) s s'"
proof -
  let ?R = "R(l := BindConnectionEstablished c # fs)" and ?R' = "R(l := fs)" and ?ch = "tc_channel (conns s c)"
  note ok0 = server_okD(1) [OF ok] and net = server_okD(3) [OF ok]
  have c: "c < fresh_conn s" and l: "l = tc_loop (conns s c)" using placed_head [OF ok0] by (simp_all add: placed_def)
  note made = baseD(4) [OF ok0 c] and m = made_okD [OF baseD(4) [OF ok0 c]]
  obtain a b d where owed': "owed ?R' c s = (a, b, d)" by (cases "owed ?R' c s") auto
  obtain st where stage: "in_stage ?R st c s" using baseD(6) [OF ok0 c] by blast
  have "owed ?R c s = (Suc a, b, d)" using owed_head(1) [of R s c fs] owed' by (simp add: l)
  from stage_owing(1) [OF stage this] have new: "in_stage ?R New c s" and owed': "owed ?R' c s = (0, 0, 0)"
    using stage owed' by simp_all
  have chan: "ch_index (chans s ?ch) = kNew" "ch_events (chans s ?ch) = kNoneEvent"
    "p_channels (pollers s (tc_loop (conns s c))) (tc_fd (conns s c)) = None" "tc_state (conns s c) = kConnecting"
    "c \<in> live_conns s"
    using new by (simp_all add: in_stage_def Let_def)
  obtain s1 where run: "ConnectionEstablished os (call_conn os t) c s = call_conn_fn (call_conn os t) (tc_conn_cb (conns s c)) c s1"
    and net1: "net_ok interest s1"
    and cs: "chans s1 = (chans s)(?ch := (Tie c (chans s ?ch))\<lparr>ch_events := kReadEvent, ch_index := kAdded\<rparr>)"
    and upd: "updated ?ch (upd_chan ?ch (\<lambda>x. add_read (Tie c x)) (set_state kConnected c s)) s1"
    by (rule ConnectionEstablished_runs [OF laws net m(3,4) chan(1,2,3)]) (rule that; blast)
  have static: "chan_static (add_read (Tie c x)) = chan_static x" for x
    by (simp add: chan_static_def add_read_def Tie_def)
  have keeps: "keeps (\<lambda>x. add_read (Tie c x))" by (simp add: keeps_def add_read_def Tie_def)
  note ar = updated_around [OF made keeps static upd]
  have ar1: "around c s s1" using ar(1) by simp
  note ar2 = ar(2-4) [simplified]
  note same = world_tail [OF ar2(3)]
  have "\<not> gone c s" using chan(4) by (simp add: gone_def)
  moreover have "table_ok s1" using baseD_table [OF ok0] table_ok_cong [of s1 s] same by (simp add: ar2(1))
  moreover have "base interest ?R' {c} s" by (rule base_pop [OF base_open [OF ok0]]) (auto simp: task_of_def)
  ultimately have ok1: "base interest ?R' {c} s1" using base_around [OF ar1 _ _ c _ net1] by blast
  have "owed ?R' c s1 = owed ?R' c s" by (simp add: owed_def backlog_def ar2(1,2) same Let_def)
  moreover have "IsReading (conn_channel s1 c)" by (simp add: ar2(1) cs IsReading_def channel_events)
  ultimately have "in_stage ?R' Up c s1"
    using chan(5) owed' by (simp add: in_stage_def Let_def ar2(1) cs live_conns_def same)
  from base_close [OF ok1 this] have "server_ok interest ?R' s1"
    using server_okD(2) [OF ok] by (simp add: server_ok_def same)
  moreover have "ConnectionEstablished os (call_conn os t) c s = Inr s1"
    by (simp add: run m(5) call_conn_fn_def call_conn_def OnConnection_def IsConnected_def ar2(1))
  ultimately show ?thesis by (simp add: goes_on_def ar2(2))
qed

lemma RemoveConnectionInLoop_goes_on:
  fixes s :: "('k, 'z) world_scheme"
  assumes laws: "kernel_laws os wire interest" and ok: "server_ok interest (R(l := BindRemoveConnectionInLoop c # fs)) s"
  shows "goes_on interest (R(l := fs)) s (RemoveConnectionInLoop os t c s)"
proof -
  let ?R = "R(l := BindRemoveConnectionInLoop c # fs)" and ?R' = "R(l := fs)" and ?own = "tc_loop (conns s c)"
  note ok0 = server_okD(1) [OF ok] and net = server_okD(3) [OF ok]
  have c: "c < fresh_conn s" and l: "l = sv_loop (server s)" using placed_head [OF ok0] by (simp_all add: placed_def)
  obtain a b d where owed': "owed ?R' c s = (a, b, d)" by (cases "owed ?R' c s") auto
  obtain st where stage: "in_stage ?R st c s" using baseD(6) [OF ok0 c] by blast
  have "owed ?R c s = (a, Suc b, d)" using owed_head(2) [of R s c fs] owed' by (simp add: l)
  from stage_owing(2) [OF stage this] have closing: "in_stage ?R Closing c s" and owed': "owed ?R' c s = (0, 0, 0)"
    using stage owed' by simp_all
  define s1 where "s1 = upd_server (\<lambda>sv. sv\<lparr>sv_connections := AList.delete (tc_name (conns s c)) (sv_connections sv)\<rparr>) s"
  define s2 where "s2 = RemoveConnectionInLoop os t c s"
  have s2: "s2 = QueueInLoop os t ?own (BindConnectDestroyed c) s1"
    by (simp add: s2_def RemoveConnectionInLoop_def s1_def Let_def)
  note table = RemoveConnectionInLoop_table [OF baseD_table [OF ok0], where c = c and os = os and t = t, folded s2_def]
  have s1: "conns s1 = conns s" "chans s1 = chans s" "pollers s1 = pollers s" "evloops s1 = evloops s"
    "kern s1 = kern s" "chat s1 = chat s" "fresh_conn s1 = fresh_conn s" "fresh_chan s1 = fresh_chan s"
    "pool s1 = pool s" "the_acceptor s1 = the_acceptor s"
    "(server s1)\<lparr>sv_connections := []\<rparr> = (server s)\<lparr>sv_connections := []\<rparr>"
    by (simp_all add: s1_def)
  have live: "live_conns s2 = live_conns s - {c}" by (rule table(1) [OF c])
  have "live_conns s1 = live_conns s2" by (simp add: s2 live_conns_def)
  then have "around c s s1"
    unfolding around_def using live
    by (intro conjI exI [of _ "tc_state (conns s c)"] exI [of _ "conn_channel s c"] allI exI [of _ "[]"]) (auto simp: s1)
  moreover have net1: "net_ok interest s1" by (rule net_ok_cong [OF net]) (simp_all add: s1)
  moreover have "table_ok s1" using table(2) table_ok_cong [of s2 s1] by (simp add: s2)
  moreover have "\<not> gone c s" using closing by (simp add: in_stage_def gone_def Let_def)
  moreover have "base interest ?R' {c} s" by (rule base_pop [OF base_open [OF ok0]]) (auto simp: task_of_def)
  ultimately have ok1: "base interest ?R' {c} s1" using base_around [OF _ _ _ c] by blast
  have "around c s1 s2" unfolding s2 by (rule queued_around) (use c in \<open>simp_all add: task_of_def placed_def s1\<close>)
  moreover have net2: "net_ok interest s2" unfolding s2 by (rule net_ok_QueueInLoop [OF laws net1])
  moreover have "\<not> gone c s1" using \<open>\<not> gone c s\<close> by (simp add: gone_def s1)
  ultimately have ok2: "base interest ?R' {c} s2" using base_around [OF _ ok1 _ _ _ _ table(2)] c by (simp add: s1)
  have "owed ?R' c s2 = (0, 0, 1)"
    using owed' server_fields(1) [OF s1(11)] by (simp add: s2 owed_def backlog_QueueInLoop s1 Let_def) (simp add: backlog_def s1)
  then have "in_stage ?R' Dying c s2"
    using closing live by (simp add: in_stage_def Let_def) (simp add: s2 s1)
  moreover have "c \<notin> members s2"
  proof
    assume "c \<in> members s2"
    then have "c \<in> members s" by (simp add: members_def s2 s1)
    from baseD(8) [OF ok0 this] closing show False by (simp add: in_stage_def Let_def)
  qed
  ultimately have "base interest ?R' {} s2" using base_close [OF ok2] by blast
  then show ?thesis
    using server_okD(2) [OF ok] table(7) by (simp add: goes_on_def server_ok_def s2_def [symmetric]) (simp add: s2 s1)
qed

lemma ConnectDestroyed_goes_on:
  fixes s :: "('k, 'z) world_scheme"
  assumes laws: "kernel_laws os wire interest" and ok: "server_ok interest (R(l := BindConnectDestroyed c # fs)) s"
  shows "\<exists>s'. ConnectDestroyed os (call_conn os t) c s = Inr s' \<and> goes_on interest (R(l := fs)) s s'"
proof -
  let ?R = "R(l := BindConnectDestroyed c # fs)" and ?R' = "R(l := fs)" and ?ch = "tc_channel (conns s c)"
  note ok0 = server_okD(1) [OF ok] and net = server_okD(3) [OF ok]
  have c: "c < fresh_conn s" and l: "l = tc_loop (conns s c)" using placed_head [OF ok0] by (simp_all add: placed_def)
  obtain a b d where owed': "owed ?R' c s = (a, b, d)" by (cases "owed ?R' c s") auto
  obtain st where stage: "in_stage ?R st c s" using baseD(6) [OF ok0 c] by blast
  have "owed ?R c s = (a, b, Suc d)" using owed_head(3) [of R s c fs] owed' by (simp add: l)
  from stage_owing(3) [OF stage this] have dying: "in_stage ?R Dying c s" and owed': "owed ?R' c s = (0, 0, 0)"
    using stage owed' by simp_all
  obtain s1 where run: "Channel_Remove os ?ch s = Inr s1" and net1: "net_ok interest s1" and rem: "removed ?ch s s1"
    using Channel_Remove_net [OF kernel_lawsD(3) [OF laws] net, of ?ch] dying by (auto simp: in_stage_def Let_def)
  note ar = removed_around [OF baseD(4) [OF ok0 c] rem]
  note same = world_tail [OF ar(4)]
  have "\<not> gone c s" using dying by (simp add: in_stage_def gone_def Let_def)
  moreover have "table_ok s1" using baseD_table [OF ok0] table_ok_cong [of s1 s] same by (simp add: ar(2))
  moreover have "base interest ?R' {c} s" by (rule base_pop [OF base_open [OF ok0]]) (auto simp: task_of_def)
  ultimately have ok1: "base interest ?R' {c} s1" using base_around [OF ar(1) _ _ c _ net1] by blast
  have "owed ?R' c s1 = owed ?R' c s" by (simp add: owed_def backlog_def ar(2,3) same Let_def)
  then have "in_stage ?R' Gone c s1"
    using dying owed' ar(5) by (simp add: in_stage_def Let_def ar(2) live_conns_def same)
  moreover have "c \<notin> members s1"
  proof
    assume "c \<in> members s1"
    then have "c \<in> members s" by (simp add: members_def same)
    from baseD(8) [OF ok0 this] dying show False by (simp add: in_stage_def Let_def)
  qed
  ultimately have "base interest ?R' {} s1" using base_close [OF ok1] by blast
  then have "goes_on interest ?R' s s1" using server_okD(2) [OF ok] by (simp add: goes_on_def server_ok_def same ar(3))
  moreover have "ConnectDestroyed os (call_conn os t) c s = Inr s1"
    using dying run by (simp add: ConnectDestroyed_def in_stage_def Let_def)
  ultimately show ?thesis by blast
qed

subsection \<open>Any functor\<close>

lemma exec_task_goes_on:
  fixes s :: "('k, 'z) world_scheme"
  assumes laws: "kernel_laws os wire interest" and ok: "server_ok interest (R(l := f # fs)) s"
  shows "ends {HeapOverrun, BadFunctionCall} (goes_on interest (R(l := fs)) s) (exec_task os hwm t f s)"
proof -
  have placed: "placed s l f" by (rule placed_head [OF server_okD(1) [OF ok]])
  show ?thesis
  proof (cases f)
    case (BindSendInLoop c msg)
    have "c < fresh_conn s" "tc_state (conns s c) \<noteq> kConnecting"
      using placed BindSendInLoop by (simp_all add: placed_def mail_task_def)
    from SendInLoop_goes_on [OF laws server_ok_pop [OF ok] this, of t msg] BindSendInLoop
    have "ends {HeapOverrun} (goes_on interest (R(l := fs)) s) (SendInLoop os t c msg s)" by (simp add: task_of_def)
    then show ?thesis unfolding BindSendInLoop by (auto simp: exec_task_def elim: ends_mono)
  next
    case (BindConnectionEstablished c)
    with ConnectionEstablished_goes_on [OF laws ok [unfolded BindConnectionEstablished], of t] show ?thesis
      by (auto simp: exec_task_def)
  next
    case (BindConnectDestroyed c)
    with ConnectDestroyed_goes_on [OF laws ok [unfolded BindConnectDestroyed], of t] show ?thesis
      by (auto simp: exec_task_def)
  next
    case (BindRemoveConnectionInLoop c)
    with RemoveConnectionInLoop_goes_on [OF laws ok [unfolded BindRemoveConnectionInLoop], of t] show ?thesis
      by (simp add: exec_task_def)
  qed (use placed in \<open>simp_all add: placed_def mail_task_def exec_task_def\<close>)
qed

end
