(* ===== verification/ServerAccept.thy ===== *)
theory ServerAccept
  imports ServerTasks
begin

text \<open>Accepting a connection: a new one joins those the server's invariant speaks of.\<close>

subsection \<open>A new connection\<close>

text \<open>What \<open>NewConnection\<close> changes, \<open>l\<close> being the loop whose turn it is.\<close>

definition entered :: "loop \<Rightarrow> fd \<Rightarrow> ('k, 'z) world_scheme \<Rightarrow> ('k, 'z) world_scheme \<Rightarrow> bool" where
  "entered l fd s s' \<longleftrightarrow>
     (let c = fresh_conn s; ch = fresh_chan s in
      l \<in> set (get_loops (pool s)) \<and>
      (\<exists>local peer. conns s' = (conns s)(c := new_conn l fd local peer ch (server s))) \<and>
      chans s' = (chans s)(ch := (Channel l fd)
        \<lparr>ch_read_cb := Some (ConnHandleRead c), ch_write_cb := Some (ConnHandleWrite c),
         ch_close_cb := Some (ConnHandleClose c), ch_error_cb := Some (ConnHandleError c)\<rparr>) \<and>
      evloops s' = (evloops s)(l := push_pending (BindConnectionEstablished c) (evloops s l)) \<and>
      pollers s' = pollers s \<and> fresh_conn s' = c + 1 \<and> fresh_chan s' = ch + 1 \<and>
      pool_ok (pool s') \<and> get_loops (pool s') = get_loops (pool s) \<and>
      live_conns s' = insert c (live_conns s) \<and> table_ok s' \<and>
      (server s')\<lparr>sv_connections := [], sv_next_connection_id := 0\<rparr> =
        (server s)\<lparr>sv_connections := [], sv_next_connection_id := 0\<rparr> \<and>
      the_acceptor s' = the_acceptor s \<and> chat s' = chat s)"

lemma server_fields':
  assumes "(x :: tcp_server)\<lparr>sv_connections := [], sv_next_connection_id := 0\<rparr> = y\<lparr>sv_connections := [], sv_next_connection_id := 0\<rparr>"
  shows "sv_loop x = sv_loop y" "sv_ip_port x = sv_ip_port y" "sv_connection_cb x = sv_connection_cb y"
    "sv_message_cb x = sv_message_cb y" "sv_write_complete_cb x = sv_write_complete_cb y"
  using assms by (cases x, cases y, simp)+

lemma enteredD:
  assumes "entered l fd s s'"
  shows "l \<in> set (get_loops (pool s))"
    "\<exists>local peer. conns s' = (conns s)(fresh_conn s := new_conn l fd local peer (fresh_chan s) (server s))"
    "chans s' = (chans s)(fresh_chan s := (Channel l fd)
        \<lparr>ch_read_cb := Some (ConnHandleRead (fresh_conn s)), ch_write_cb := Some (ConnHandleWrite (fresh_conn s)),
         ch_close_cb := Some (ConnHandleClose (fresh_conn s)), ch_error_cb := Some (ConnHandleError (fresh_conn s))\<rparr>)"
    "evloops s' = (evloops s)(l := push_pending (BindConnectionEstablished (fresh_conn s)) (evloops s l))"
    "pollers s' = pollers s" "fresh_conn s' = fresh_conn s + 1" "fresh_chan s' = fresh_chan s + 1"
    "pool_ok (pool s')" "get_loops (pool s') = get_loops (pool s)" "live_conns s' = insert (fresh_conn s) (live_conns s)"
    "table_ok s'" "the_acceptor s' = the_acceptor s" "chat s' = chat s"
    "sv_loop (server s') = sv_loop (server s)" "sv_ip_port (server s') = sv_ip_port (server s)"
    "sv_connection_cb (server s') = sv_connection_cb (server s)" "sv_message_cb (server s') = sv_message_cb (server s)"
    "sv_write_complete_cb (server s') = sv_write_complete_cb (server s)"
  using assms server_fields' [of "server s'" "server s"] by (auto simp: entered_def Let_def)

lemma entered_old:
  assumes en: "entered l fd s s'" and ok: "base interest R X s" and d: "d < fresh_conn s"
  shows "conns s' d = conns s d" "chans s' (tc_channel (conns s d)) = conn_channel s d" "gone d s' = gone d s"
proof -
  show conn: "conns s' d = conns s d" using enteredD(2) [OF en] d by auto
  have "tc_channel (conns s d) < fresh_chan s" using made_okD(1) [OF baseD(4) [OF ok d]] .
  then show "chans s' (tc_channel (conns s d)) = conn_channel s d" by (simp add: enteredD(3) [OF en])
  then show "gone d s' = gone d s" by (simp add: gone_def conn)
qed

lemma entered_new:
  assumes en: "entered l fd s s'"
  shows "tc_loop (conns s' (fresh_conn s)) = l" "tc_fd (conns s' (fresh_conn s)) = fd"
    "tc_channel (conns s' (fresh_conn s)) = fresh_chan s" "tc_state (conns s' (fresh_conn s)) = kConnecting"
  using enteredD(2) [OF en] by (auto simp: new_conn_def)

lemma backlog_entered:
  assumes "entered l fd s s'"
  shows "backlog R k s' = backlog R k s @ (if k = l then [BindConnectionEstablished (fresh_conn s)] else [])"
  by (simp add: backlog_def enteredD(4) [OF assms] push_pending_def)

text \<open>Its descriptor is not in use.\<close>

definition descriptor_free :: "fd \<Rightarrow> ('k, 'z) world_scheme \<Rightarrow> bool" where
  "descriptor_free fd s \<longleftrightarrow>
     (\<forall>c < fresh_conn s. \<not> gone c s \<longrightarrow> tc_fd (conns s c) \<noteq> fd) \<and>
     (\<forall>l. fd \<noteq> el_wakeup_fd (evloops s l) \<and> p_channels (pollers s l) fd = None)"

lemma entered_apart:
  assumes en: "entered l fd s s'" and ok: "base interest R X s" and free: "descriptor_free fd s"
  shows "apart s'"
proof (rule apartI)
  note old = entered_old [OF en ok] and new = entered_new [OF en]
  have chan: "tc_channel (conns s d) < fresh_chan s" if "d < fresh_conn s" for d
    by (rule made_okD(1) [OF baseD(4) [OF ok that]])
  have free: "tc_fd (conns s d) \<noteq> fd" if "d < fresh_conn s" "\<not> gone d s" for d
    using free that by (simp add: descriptor_free_def)
  have split: "d = fresh_conn s \<or> d < fresh_conn s" if "d < fresh_conn s'" for d
    using that by (auto simp: enteredD(6) [OF en])
  show "tc_channel (conns s' c) \<noteq> tc_channel (conns s' d)"
    if "c < fresh_conn s'" "d < fresh_conn s'" "c \<noteq> d" for c d
    using split [OF that(1)] split [OF that(2)] that(3) chan [of c] chan [of d] apartD(1) [OF baseD(3) [OF ok], of c d]
    by (elim disjE) (simp_all add: old(1) new(3))
  show "tc_fd (conns s' c) \<noteq> tc_fd (conns s' d)"
    if "c < fresh_conn s'" "d < fresh_conn s'" "c \<noteq> d" "\<not> gone c s'" "\<not> gone d s'" for c d
    using split [OF that(1)] split [OF that(2)] that(3-5) free [of c] free [of d] apartD(2) [OF baseD(3) [OF ok], of c d]
    by (elim disjE) (auto simp: old(1,3) new(2))
  show "ch_index (chans s' ch) = kNew" if "fresh_chan s' \<le> ch" for ch
    using that apartD(3) [OF baseD(3) [OF ok], of ch] by (simp add: enteredD(3,7) [OF en])
qed

lemma entered_made:
  assumes en: "entered l fd s s'" and ok: "base interest R X s" and free: "descriptor_free fd s" and d: "d < fresh_conn s'"
  shows "made_ok d s'"
proof (cases "d = fresh_conn s")
  case True
  have "tidy (Buffer kInitialSize)" by (simp add: tidy_def Buffer_def buffer_inv_def)
  moreover obtain local peer where "conns s' d = new_conn l fd local peer (fresh_chan s) (server s)"
    using enteredD(2) [OF en] by (auto simp: True)
  ultimately show ?thesis
    using enteredD(1) [OF en] free baseD(2) [OF ok]
    by (simp add: made_ok_def Let_def new_conn_def enteredD(3,4,7,9) [OF en] True Channel_def push_pending_def
        descriptor_free_def service_ok_def)
next
  case False
  then have old: "d < fresh_conn s" using d by (simp add: enteredD(6) [OF en])
  with baseD(4) [OF ok old] show ?thesis
    by (simp add: made_ok_def Let_def entered_old(1,2) [OF en ok old] enteredD(4,7,9) [OF en] push_pending_def)
qed

lemma entered_placed:
  assumes en: "entered l fd s s'" and ok: "base interest R X s" and f: "f \<in> set (backlog R k s')"
  shows "placed s' k f"
proof (cases "f \<in> set (backlog R k s)")
  case True
  then have "placed s k f" by (rule baseD(5) [OF ok])
  then show ?thesis
    using entered_old(1) [OF en ok] by (cases f) (simp_all add: placed_def mail_task_def enteredD(6,14) [OF en])
next
  case False
  then have "k = l \<and> f = BindConnectionEstablished (fresh_conn s)"
    using f by (simp add: backlog_entered [OF en] split: if_splits)
  then show ?thesis by (simp add: placed_def enteredD(6) [OF en] entered_new(1) [OF en])
qed

text \<open>No functor waits for a connection that has not been made.\<close>

lemma nothing_owed:
  assumes ok: "base interest R X s" and f: "task_of (fresh_conn s) f"
  shows "count_list (backlog R k s) f = 0"
  using baseD(5) [OF ok, of f k] f by (auto simp: count_list_0_iff task_of_def placed_def)

lemma entered_stage_new:
  assumes en: "entered l fd s s'" and ok: "base interest R X s" and free: "descriptor_free fd s"
  shows "in_stage R New (fresh_conn s) s'"
proof -
  have "owed R (fresh_conn s) s' = (1, 0, 0)"
    using nothing_owed [OF ok] by (simp add: owed_def Let_def backlog_entered [OF en] entered_new(1) [OF en] task_of_def)
  with free show ?thesis
    by (simp add: in_stage_def Let_def entered_new [OF en] enteredD(3,5,10) [OF en] Channel_def kNew_def kNoneEvent_def
        descriptor_free_def)
qed

lemma entered_stage_old:
  assumes en: "entered l fd s s'" and ok: "base interest R X s" and d: "d < fresh_conn s" and stage: "in_stage R st d s"
  shows "in_stage R st d s'"
proof -
  note old = entered_old(1,2) [OF en ok d]
  have "owed R d s' = owed R d s"
    using d by (auto simp: owed_def Let_def backlog_entered [OF en] old enteredD(14) [OF en])
  with stage d show ?thesis
    by (cases st) (simp_all add: in_stage_def Let_def old enteredD(5,10) [OF en])
qed

lemma entered_staffed:
  assumes en: "entered l fd s s'" and ok: "base interest R X s"
  shows "staffed s'"
proof (rule staffed_step)
  show "staffed s" using baseD(2) [OF ok] unfolding service_ok_def by blast
  show "d < fresh_conn s' \<and> tc_channel (conns s' d) = tc_channel (conns s d)" if "d < fresh_conn s" for d
    using entered_old(1) [OF en ok that] that by (simp add: enteredD(6) [OF en])
qed (auto simp: enteredD(3,14) [OF en] Channel_def kNew_def kAdded_def split: if_splits)

text \<open>The channels in use are as before.\<close>

lemma entered_spares:
  assumes en: "entered l fd s s'" and ok: "base interest R X s"
  shows "spares ch s s'"
proof -
  have "d \<noteq> fresh_chan s" if "ch_index (chans s d) \<noteq> kNew" for d
    using apartD(3) [OF baseD(3) [OF ok], of "fresh_chan s"] that by auto
  then show ?thesis
    using entered_old(1) [OF en ok] by (simp add: spares_def enteredD(3,6) [OF en])
qed

lemma base_entered:
  assumes en: "entered l fd s s'" and ok: "base interest R {} s" and free: "descriptor_free fd s" and net: "net_ok interest s'"
  shows "base interest R {} s'"
proof (rule baseI)
  show "service_ok s'"
    using baseD(2) [OF ok] entered_staffed [OF en ok]
    by (auto simp: service_ok_def enteredD(4,8,9,11,12,14-18) [OF en] push_pending_def)
  show "\<exists>st. in_stage R st c s'" if "c < fresh_conn s'" for c
  proof (cases "c = fresh_conn s")
    case False
    then have c: "c < fresh_conn s" using that by (simp add: enteredD(6) [OF en])
    obtain st where "in_stage R st c s" using baseD(6) [OF ok c] by blast
    from entered_stage_old [OF en ok c this] show ?thesis by blast
  qed (use entered_stage_new [OF en ok free] in blast)
  have mem: "c < fresh_conn s \<and> in_stage R Up c s" if "c \<in> members s'" for c
    using that baseD(7,8) [OF ok, of c] members_chat [OF enteredD(13) [OF en]] by simp
  show "c < fresh_conn s'" if "c \<in> members s'" for c using mem [OF that] by (simp add: enteredD(6) [OF en])
  show "in_stage R Up c s'" if "c \<in> members s'" for c using mem [OF that] entered_stage_old [OF en ok] by blast
qed (use net entered_apart [OF en ok free] entered_made [OF en ok free] entered_placed [OF en ok] in blast)+


subsection \<open>Accepting\<close>

text \<open>\<open>accept4(2)\<close> leaves the interest lists alone.\<close>

definition accept_law :: "'k os \<Rightarrow> 'k interest \<Rightarrow> bool" where
  "accept_law os interest \<longleftrightarrow> (\<forall>fd k. interest (snd (sys_accept4 os fd k)) = interest k)"

lemma length_decimal_int: "n < 2 ^ 31 \<Longrightarrow> length (decimal n) \<le> 10"
proof -
  assume "n < 2 ^ 31"
  then have "length (decimal n) \<le> length (decimal 2147483648)" by (intro length_decimal_mono) simp
  also have "\<dots> = 10" by (simp add: decimal.simps)
  finally show ?thesis .
qed

lemma serving_base:
  assumes ok: "base interest R X s" and count: "sv_next_connection_id (server s) < 2 ^ 31 - 1"
  shows "serving (el_thread_id (evloops s (sv_loop (server s)))) 1 s"
  using baseD(2) [OF ok] length_decimal_int [of "Suc (sv_next_connection_id (server s))"] count
  by (auto simp: serving_def service_ok_def IsInLoopThread_def)

lemma NewConnection_moves:
  fixes s :: "('k, 'z) world_scheme"
  defines "t \<equiv> el_thread_id (evloops s (sv_loop (server s)))"
  assumes laws: "kernel_laws os wire interest" and ok: "server_ok interest R s" and free: "descriptor_free fd s"
    and count: "sv_next_connection_id (server s) < 2 ^ 31 - 1"
  shows "\<exists>s'. NewConnection os call t fd addr s = Inr s' \<and> moves interest R ch s s'"
proof -
  note ok0 = server_okD(1) [OF ok] and net = server_okD(3) [OF ok]
  define l where "l = get_loops (pool s) ! tp_next (pool s)"
  have up: "serving t 1 s" unfolding t_def by (rule serving_base [OF ok0 count])
  note nx = serving_next [OF up]
  have mail: "mail_ok interest {} s" using net by (simp add: mail_ok_def)
  have fresh: "fresh_for {} fd s" using free apartD(3) [OF baseD(3) [OF ok0]] by (simp add: fresh_for_def descriptor_free_def)
  obtain s1 where run: "NewConnection os call t fd addr s = Inr s1" and net1: "net_ok interest s1"
    and chat: "chat s1 = chat s" and live: "live_conns s1 = insert (fresh_conn s) (live_conns s)"
    by (rule NewConnection_mail [OF laws mail up fresh, where call = call and addr = addr])
  obtain s1' where run': "NewConnection os call t fd addr s = Inr s1'"
    and sv: "server s1' = (server s)\<lparr>sv_next_connection_id := sv_next_connection_id (server s) + 1,
       sv_connections := AList.update (conn_name (server s)) (fresh_conn s) (sv_connections (server s))\<rparr>"
    and cn: "conns s1' = (conns s)(fresh_conn s := new_conn l fd (local_addr_of os fd (kern s)) addr (fresh_chan s) (server s))"
    and rest: "chans s1' = (chans s)(fresh_chan s := (Channel l fd)
       \<lparr>ch_read_cb := Some (ConnHandleRead (fresh_conn s)), ch_write_cb := Some (ConnHandleWrite (fresh_conn s)),
        ch_close_cb := Some (ConnHandleClose (fresh_conn s)), ch_error_cb := Some (ConnHandleError (fresh_conn s))\<rparr>)"
      "evloops s1' = (evloops s)(l := push_pending (BindConnectionEstablished (fresh_conn s)) (evloops s l))"
      "fresh_conn s1' = fresh_conn s + 1" "pollers s1' = pollers s" "fresh_chan s1' = fresh_chan s + 1"
      "the_acceptor s1' = the_acceptor s"
    and pl: "pool s1' = (pool s)\<lparr>tp_next := (tp_next (pool s) + 1) mod length (get_loops (pool s))\<rparr>"
    unfolding l_def by (rule NewConnection_runs [OF nx(1,2), of os call fd addr])
  have same: "s1' = s1" using run run' by simp
  have "tp_next (pool s) < length (get_loops (pool s))"
    using nx(1) by (auto simp: pool_ok_def get_loops_def split: if_splits)
  then have "l \<in> set (get_loops (pool s))" by (simp add: l_def)
  moreover have "table_ok s1"
    by (rule NewConnection_table(1) [OF nx(3,4) refl sv [unfolded same] cn [unfolded same] _ rest(3) [unfolded same]])
       (simp add: new_conn_def)
  moreover have "get_loops (pool s1) = get_loops (pool s)" "pool_ok (pool s1)"
    using nx(1) pl unfolding same by (auto simp: get_loops_def pool_ok_def)
  ultimately have "entered l fd s s1"
    using rest cn sv live chat unfolding entered_def Let_def same by auto
  from base_entered [OF this ok0 free net1] entered_spares [OF this ok0] have "moves interest R ch s s1"
    using server_okD(2) [OF ok] rest(2) by (simp add: moves_def goes_on_def server_ok_def chat same push_pending_def)
  with run show ?thesis by blast
qed

definition accepts_free :: "'k os \<Rightarrow> ('k, 'z) world_scheme \<Rightarrow> bool" where
  "accepts_free os s \<longleftrightarrow>
     (case fst (sys_accept4 os (ac_fd (the_acceptor s)) (kern s)) of
        Inl e \<Rightarrow> True
      | Inr (fd, addr) \<Rightarrow> descriptor_free fd s)"

lemma Acceptor_HandleRead_moves:
  fixes s :: "('k, 'z) world_scheme"
  defines "t \<equiv> el_thread_id (evloops s (sv_loop (server s)))"
  assumes laws: "kernel_laws os wire interest" and acc: "accept_law os interest" and ok: "server_ok interest R s"
    and free: "accepts_free os s" and count: "sv_next_connection_id (server s) < 2 ^ 31 - 1"
  shows "\<exists>s'. Acceptor_HandleRead os (call_accept os t) s = Inr s' \<and> moves interest R ch s s'"
proof -
  obtain r k' where call: "sys_accept4 os (ac_fd (the_acceptor s)) (kern s) = (r, k')" by fastforce
  define s1 where "s1 = s\<lparr>kern := k'\<rparr>"
  have "interest k' = interest (kern s)" using acc call by (metis accept_law_def snd_conv)
  then have one: "moves interest R ch s s1"
    unfolding s1_def by (intro still_moves [OF still_kern ok]) (simp_all add: server_okD(3) [OF ok])
  have cb: "ac_new_cb (the_acceptor s) = Some FnNewConnection"
    using baseD(2) [OF server_okD(1) [OF ok]] by (simp add: service_ok_def)
  show ?thesis
  proof (cases r)
    case (Inl e)
    then show ?thesis using one by (simp add: Acceptor_HandleRead_def Accept_def call Let_def s1_def)
  next
    case (Inr p)
    obtain fd addr where p: "p = (fd, addr)" by fastforce
    have "descriptor_free fd s1"
      using free by (simp add: accepts_free_def call Inr p descriptor_free_def s1_def gone_def)
    moreover have "server_ok interest R s1" using one by (simp add: moves_def goes_on_def)
    ultimately obtain s2 where "NewConnection os (call_conn os t) t fd addr s1 = Inr s2" "moves interest R ch s1 s2"
      using NewConnection_moves [OF laws, of R s1 fd "call_conn os t" addr] count by (auto simp: s1_def t_def)
    then show ?thesis
      using moves_trans [OF one] cb
      by (simp add: Acceptor_HandleRead_def Accept_def call Inr p Let_def s1_def call_accept_def)
  qed
qed

end
