(* ===== verification/ServerRuns.thy ===== *)
theory ServerRuns
  imports ServerAccept
begin

text \<open>
  The server in operation: its main loop accepts, its I/O loops run the handlers of their
  connections and the functors queued for them, one at a time, in any order across the loops.
\<close>

subsection \<open>Actions\<close>

text \<open>
  A callback that loop \<open>l\<close> runs for one of its channels; and \<open>DoPendingFunctors\<close> in its three parts:
  the swap of the queue, the call of one functor, the end.
\<close>

datatype action = Calls loop chan_cb timestamp | Swaps loop | Runs loop | Finishes loop

definition act ::
  "'k os \<Rightarrow> (hwm_fn \<Rightarrow> conn \<Rightarrow> nat \<Rightarrow> ('k, 'z) world_scheme \<Rightarrow> ('k, 'z) world_scheme res) \<Rightarrow> action \<Rightarrow>
   batch \<times> ('k, 'z) world_scheme \<Rightarrow> (batch \<times> ('k, 'z) world_scheme) res" where
  "act os hwm a = (\<lambda>(R, s).
     case a of
       Calls l cb now \<Rightarrow> bind_res (call_chan os (el_thread_id (evloops s l)) cb now s) (\<lambda>s1. Inr (R, s1))
     | Swaps l \<Rightarrow>
         (let s1 = upd_loop l (\<lambda>el. el\<lparr>el_calling := True\<rparr>) s
          in Inr (R(l := R l @ fst (swap_pending (evloops s1 l))), upd_loop l (\<lambda>el. snd (swap_pending el)) s1))
     | Runs l \<Rightarrow>
         (case R l of
            [] \<Rightarrow> Inr (R, s)
          | f # fs \<Rightarrow> bind_res (exec_task os hwm (el_thread_id (evloops s l)) f s) (\<lambda>s1. Inr (R(l := fs), s1)))
     | Finishes l \<Rightarrow> Inr (R, upd_loop l (\<lambda>el. el\<lparr>el_calling := False\<rparr>) s))"

text \<open>
  A callback is run for a channel that is in the poller of its loop (a write also after the close that
  the same event has brought); the listening socket belongs to the main loop, \<open>accept4\<close> hands out
  descriptors that are not in use, and the numbers of connections stay in an \<open>int\<close>.
\<close>

definition in_poller :: "loop \<Rightarrow> conn \<Rightarrow> ('k, 'z) world_scheme \<Rightarrow> bool" where
  "in_poller l c s \<longleftrightarrow>
     c < fresh_conn s \<and> l = tc_loop (conns s c) \<and> ch_index (conn_channel s c) = kAdded"

definition possible :: "'k os \<Rightarrow> action \<Rightarrow> batch \<times> ('k, 'z) world_scheme \<Rightarrow> bool" where
  "possible os a = (\<lambda>(R, s).
     case a of
       Calls l cb now \<Rightarrow>
         (case cb of
            LoopHandleRead l' \<Rightarrow> True
          | AcceptorHandleRead \<Rightarrow>
              l = sv_loop (server s) \<and> sv_next_connection_id (server s) < 2 ^ 31 - 1 \<and> accepts_free os s
          | ConnHandleRead c \<Rightarrow> in_poller l c s \<and> named_or_naming os c s
          | ConnHandleWrite c \<Rightarrow> c < fresh_conn s \<and> ch_index (conn_channel s c) \<noteq> kNew
          | ConnHandleClose c \<Rightarrow> in_poller l c s
          | ConnHandleError c \<Rightarrow> True)
     | _ \<Rightarrow> True)"

text \<open>The faults the server's own input can provoke.\<close>

definition known_faults :: "fault set" where
  "known_faults = {HeapOverrun, HeapOverread, BadFunctionCall}"

definition all_ok :: "'k interest \<Rightarrow> batch \<times> ('k, 'z) world_scheme \<Rightarrow> bool" where
  "all_ok interest = (\<lambda>(R, s). server_ok interest R s)"

definition same_threads :: "batch \<times> ('k, 'z) world_scheme \<Rightarrow> batch \<times> ('k, 'z) world_scheme \<Rightarrow> bool" where
  "same_threads = (\<lambda>(R, s) (R', s'). \<forall>l. el_thread_id (evloops s' l) = el_thread_id (evloops s l))"

subsection \<open>Every action preserves the invariant\<close>

text \<open>A loop's own bookkeeping, and what the kernel reports of its channels: neither concerns the invariant.\<close>

definition seen :: "('k, 'z) world_scheme \<Rightarrow> ('k, 'z) world_scheme \<Rightarrow> bool" where
  "seen s s' \<longleftrightarrow>
     (\<forall>ch. \<exists>ev. chans s' ch = (chans s ch)\<lparr>ch_revents := ev\<rparr>) \<and>
     (\<forall>l. epoll_fd (pollers s' l) = epoll_fd (pollers s l) \<and> p_channels (pollers s' l) = p_channels (pollers s l)) \<and>
     (\<forall>l. el_thread_id (evloops s' l) = el_thread_id (evloops s l) \<and> el_wakeup_fd (evloops s' l) = el_wakeup_fd (evloops s l)) \<and>
     fresh_chan s' = fresh_chan s \<and> conns s' = conns s \<and> cstate.more s' = cstate.more s"

lemma seenD:
  assumes "seen s s'"
  shows "\<exists>ev. chans s' ch = (chans s ch)\<lparr>ch_revents := ev\<rparr>" "epoll_fd (pollers s' l) = epoll_fd (pollers s l)"
    "p_channels (pollers s' l) = p_channels (pollers s l)" "el_thread_id (evloops s' l) = el_thread_id (evloops s l)"
    "el_wakeup_fd (evloops s' l) = el_wakeup_fd (evloops s l)" "fresh_chan s' = fresh_chan s" "conns s' = conns s"
    "cstate.more s' = cstate.more s"
  using assms unfolding seen_def by blast+

lemma seen_chan:
  assumes "seen s s'"
  shows "ch_index (chans s' ch) = ch_index (chans s ch)" "ch_events (chans s' ch) = ch_events (chans s ch)"
    "ch_fd (chans s' ch) = ch_fd (chans s ch)" "ch_loop (chans s' ch) = ch_loop (chans s ch)"
    "IsReading (chans s' ch) = IsReading (chans s ch)"
    "ch_read_cb (chans s' ch) = ch_read_cb (chans s ch)" "ch_write_cb (chans s' ch) = ch_write_cb (chans s ch)"
    "ch_close_cb (chans s' ch) = ch_close_cb (chans s ch)" "ch_error_cb (chans s' ch) = ch_error_cb (chans s ch)"
  using seenD(1) [OF assms, of ch] by (auto simp: IsReading_def)

lemma server_ok_seen:
  assumes ok: "server_ok interest R s" and seen: "seen s s'" and quiet: "interest (kern s') = interest (kern s)"
    and same: "\<And>k. backlog R' k s' = backlog R k s"
  shows "server_ok interest R' s'"
proof -
  note ok0 = server_okD(1) [OF ok]
  note upper = world_tail [OF seenD(8) [OF seen]]
  note low = seenD(2-7) [OF seen] seen_chan [OF seen]
  have live: "live_conns s' = live_conns s" and table: "table_ok s' = table_ok s"
    by (simp_all add: live_conns_def table_ok_def upper low)
  have staffed: "staffed s' = staffed s" by (simp add: staffed_def handled_def upper low)
  have owed: "owed R' c s' = owed R c s" for c by (simp add: owed_def same upper low)
  have stage: "in_stage R' st c s' = in_stage R st c s" for st c
    by (cases st) (simp_all add: in_stage_def Let_def owed live upper low)
  have net: "net_ok interest s'"
    using baseD(1) [OF ok0] unfolding net_ok_def poller_ok_def low quiet .
  have "base interest R' {} s'"
  proof (rule baseI)
    show "service_ok s'" using baseD(2) [OF ok0] unfolding service_ok_def table staffed low upper .
    show "apart s'" using baseD(3) [OF ok0] by (simp add: apart_def gone_def upper low)
    show "made_ok c s'" if "c < fresh_conn s'" for c
      using baseD(4) [OF ok0, of c] that unfolding made_ok_def Let_def low upper by blast
    show "placed s' k f" if "f \<in> set (backlog R' k s')" for k f
      using baseD(5) [OF ok0, of f k] that unfolding same by (cases f) (simp_all add: placed_def mail_task_def upper low)
    have mem: "members s' = members s" by (rule members_chat [OF upper(2)])
    show "\<exists>st. in_stage R' st c s'" if "c < fresh_conn s'" for c using baseD(6) [OF ok0, of c] that by (simp add: stage upper)
    show "c < fresh_conn s'" if "c \<in> members s'" for c using baseD(7) [OF ok0, of c] that by (simp add: mem upper)
    show "in_stage R' Up c s'" if "c \<in> members s'" for c using baseD(8) [OF ok0, of c] that by (simp add: mem stage)
  qed (rule net)
  then show ?thesis using server_okD(2) [OF ok] by (simp add: server_ok_def upper)
qed

lemma server_ok_upd_loop:
  assumes "server_ok interest R s"
    and "\<And>x. el_thread_id (h x) = el_thread_id x" "\<And>x. el_wakeup_fd (h x) = el_wakeup_fd x"
    and "\<And>k. backlog R' k (upd_loop l h s) = backlog R k s"
  shows "server_ok interest R' (upd_loop l h s)"
proof (rule server_ok_seen [OF assms(1)])
  have "cstate.more (upd_loop l h s) = cstate.more s" by (simp add: upd_loop_def)
  moreover have "\<exists>ev. ch = ch\<lparr>ch_revents := ev\<rparr>" for ch :: channel by (intro exI [of _ "ch_revents ch"]) simp
  ultimately show "seen s (upd_loop l h s)" using assms(2,3) by (simp add: seen_def)
qed (use assms(4) in simp_all)

text \<open>A callback of a connection is a callback of its channel.\<close>

definition runs_for :: "chan_cb \<Rightarrow> chan \<Rightarrow> ('k, 'z) world_scheme \<Rightarrow> bool" where
  "runs_for cb ch s \<longleftrightarrow>
     (case cb of ConnHandleRead c \<Rightarrow> ch = tc_channel (conns s c) | ConnHandleClose c \<Rightarrow> ch = tc_channel (conns s c) | _ \<Rightarrow> True)"

lemma call_chan_moves:
  fixes s :: "('k, 'z) world_scheme"
  assumes laws: "kernel_laws os wire interest" and acc: "accept_law os interest" and ok: "server_ok interest R s"
    and may: "possible os (Calls l cb now) (R, s)" and ch: "runs_for cb ch s"
  shows "ends known_faults (moves interest R ch s) (call_chan os (el_thread_id (evloops s l)) cb now s)"
proof (cases cb)
  case (LoopHandleRead l')
  then show ?thesis using Loop_HandleRead_moves [OF laws ok] by (simp add: call_chan_def)
next
  case AcceptorHandleRead
  with may Acceptor_HandleRead_moves [OF laws acc ok, of ch] show ?thesis
    by (auto simp: call_chan_def possible_def)
next
  case (ConnHandleRead c)
  have c: "c < fresh_conn s" "ch_index (conn_channel s c) = kAdded" "l = tc_loop (conns s c)" "named_or_naming os c s"
    "ch = tc_channel (conns s c)"
    using may ch by (simp_all add: possible_def in_poller_def runs_for_def ConnHandleRead)
  from HandleRead_moves [OF laws ok c(1,2) _ c(4), of "el_thread_id (evloops s l)" now]
  have "ends {HeapOverrun, HeapOverread} (moves interest R ch s) (call_chan os (el_thread_id (evloops s l)) cb now s)"
    by (simp add: call_chan_def ConnHandleRead IsInLoopThread_def c(3,5))
  then show ?thesis by (rule ends_mono) (auto simp: known_faults_def)
next
  case (ConnHandleWrite c)
  with may obtain s' where "HandleWrite os (el_thread_id (evloops s l)) c s = Inr s'" "moves interest R ch s s'"
    using HandleWrite_moves [OF laws ok, of c] by (fastforce simp: possible_def)
  then show ?thesis by (simp add: call_chan_def ConnHandleWrite)
next
  case (ConnHandleClose c)
  have c: "c < fresh_conn s" "ch_index (conn_channel s c) = kAdded" "l = tc_loop (conns s c)" "ch = tc_channel (conns s c)"
    using may ch by (simp_all add: possible_def in_poller_def runs_for_def ConnHandleClose)
  from HandleClose_moves [OF laws ok c(1,2), of "el_thread_id (evloops s l)"]
  have "ends {HeapOverrun} (moves interest R ch s) (call_chan os (el_thread_id (evloops s l)) cb now s)"
    by (simp add: call_chan_def ConnHandleClose IsInLoopThread_def c(3,4))
  then show ?thesis by (rule ends_mono) (auto simp: known_faults_def)
next
  case (ConnHandleError c)
  then show ?thesis using HandleError_moves [OF laws ok] by (simp add: call_chan_def)
qed

lemma call_chan_goes_on:
  fixes s :: "('k, 'z) world_scheme"
  assumes laws: "kernel_laws os wire interest" and acc: "accept_law os interest" and ok: "server_ok interest R s"
    and may: "possible os (Calls l cb now) (R, s)"
  shows "ends known_faults (goes_on interest R s) (call_chan os (el_thread_id (evloops s l)) cb now s)"
proof -
  have "\<exists>ch. runs_for cb ch s" by (cases cb) (simp_all add: runs_for_def)
  then obtain ch where "runs_for cb ch s" by blast
  from call_chan_moves [OF laws acc ok may this] show ?thesis by (rule ends_mono) (simp_all add: movesD)
qed

lemma act_ok:
  fixes s :: "('k, 'z) world_scheme"
  assumes laws: "kernel_laws os wire interest" and acc: "accept_law os interest" and ok: "all_ok interest x"
    and may: "possible os a x"
  shows "ends known_faults (\<lambda>y. all_ok interest y \<and> same_threads x y) (act os hwm a x)"
proof -
  obtain R s where x: "x = (R, s)" by fastforce
  have ok: "server_ok interest R s" using ok by (simp add: all_ok_def x)
  show ?thesis
  proof (cases a)
    case (Calls l cb now)
    from call_chan_goes_on [OF laws acc ok, of l cb now] may
    have "ends known_faults (goes_on interest R s) (call_chan os (el_thread_id (evloops s l)) cb now s)"
      by (simp add: x Calls)
    then show ?thesis
      unfolding x Calls act_def prod.case action.case
      by (rule ends_bind) (simp add: goes_on_def all_ok_def same_threads_def)
  next
    case (Swaps l)
    let ?h = "\<lambda>el. snd (swap_pending (el\<lparr>el_calling := True\<rparr>))"
    have "server_ok interest (R(l := R l @ el_pending (evloops s l))) (upd_loop l ?h s)"
      by (rule server_ok_upd_loop [OF ok]) (simp_all add: swap_pending_def backlog_def)
    then show ?thesis
      by (simp add: x Swaps act_def all_ok_def same_threads_def Let_def swap_pending_def upd_loop_def)
  next
    case (Runs l)
    show ?thesis
    proof (cases "R l")
      case Nil
      then show ?thesis using ok by (simp add: x Runs act_def all_ok_def same_threads_def)
    next
      case (Cons f fs)
      then have "R(l := f # fs) = R" by auto
      with exec_task_goes_on [OF laws, of R l f fs s hwm "el_thread_id (evloops s l)"] ok
      have "ends {HeapOverrun, BadFunctionCall} (goes_on interest (R(l := fs)) s) (exec_task os hwm (el_thread_id (evloops s l)) f s)"
        by simp
      then have "ends known_faults (goes_on interest (R(l := fs)) s) (exec_task os hwm (el_thread_id (evloops s l)) f s)"
        by (rule ends_mono) (auto simp: known_faults_def)
      then show ?thesis
        unfolding x Runs act_def prod.case action.case Cons list.case
        by (rule ends_bind) (simp add: goes_on_def all_ok_def same_threads_def)
    qed
  next
    case (Finishes l)
    have "server_ok interest R (upd_loop l (\<lambda>el. el\<lparr>el_calling := False\<rparr>) s)"
      by (rule server_ok_upd_loop [OF ok]) (simp_all add: backlog_def)
    then show ?thesis by (simp add: x Finishes act_def all_ok_def same_threads_def)
  qed
qed

definition runs_to ::
  "'k os \<Rightarrow> (hwm_fn \<Rightarrow> conn \<Rightarrow> nat \<Rightarrow> ('k, 'z) world_scheme \<Rightarrow> ('k, 'z) world_scheme res) \<Rightarrow>
   ('k, 'z) world_scheme \<Rightarrow> batch \<times> ('k, 'z) world_scheme \<Rightarrow> bool" where
  "runs_to os hwm s0 = reach (\<lambda>x. x = (\<lambda>l. [], s0)) (\<lambda>x y. \<exists>a. possible os a x \<and> act os hwm a x = Inr y)"

lemma runs_init: "runs_to os hwm s (\<lambda>l. [], s)"
  by (simp add: runs_to_def reach_init)

lemma runs_step: "runs_to os hwm s x \<Longrightarrow> possible os a x \<Longrightarrow> act os hwm a x = Inr y \<Longrightarrow> runs_to os hwm s y"
  unfolding runs_to_def by (rule reach_step) blast+

lemma runs_ok:
  assumes laws: "kernel_laws os wire interest" and acc: "accept_law os interest"
    and start: "server_ok interest (\<lambda>l. []) s0" and run: "runs_to os hwm s0 x"
  shows "all_ok interest x"
proof (rule reach_invariant [OF run [unfolded runs_to_def], where P = "all_ok interest"])
  fix x y assume "\<exists>a. possible os a x \<and> act os hwm a x = Inr y" and ok: "all_ok interest x"
  then obtain a where "possible os a x" "act os hwm a x = Inr y" by blast
  with act_ok [OF laws acc ok this(1), of hwm] show "all_ok interest y" by simp
qed (use start in \<open>simp add: all_ok_def\<close>)

text \<open>C1. The server's invariant. From a state in which the whole program is consistent (\<open>server_ok\<close>), any
  sequence of actions of its loops - a callback of a channel, the swap of a queue, one functor, the end of
  \<open>DoPendingFunctors\<close>, each one atomic step, in any order across the loops - leads to such states only, if each
  action is \<open>possible\<close> where it is taken: reads and closes come for connections in their loop's poller, only
  the main loop accepts, an accepted descriptor is not in use, the number of connections fits an \<open>int\<close>,
  and no client gives the empty name as its first message. So every connection ever accepted is at all
  times in exactly one stage of its life, with exactly one functor waiting that takes it to the next if it
  is between two; the members of the room are connections in service; the server's table, the two
  maps of the room, the pollers and the interest lists of the kernel agree. And a possible action can fail
  only by an overrun or an over-read of a buffer or by the unset callback for the high-water mark: none
  closes the process with \<open>exit(-1)\<close>, uses a null pointer, or removes a channel twice. What the
  conditions leave out does break the maps: the empty name (C40), and handlers that are not atomic (C34).
\<close>

theorem server_invariant:
  assumes laws: "kernel_laws os wire interest" "accept_law os interest" and start: "server_ok interest (\<lambda>l. []) s0"
    and run: "runs_to os hwm s0 (R, s)"
  shows "server_ok interest R s \<and>
    (\<forall>a e. possible os a (R, s) \<longrightarrow> act os hwm a (R, s) = Inl e \<longrightarrow> e \<in> known_faults)"
proof -
  have ok: "all_ok interest (R, s)" by (rule runs_ok [OF laws start run])
  have "e \<in> known_faults" if "possible os a (R, s)" "act os hwm a (R, s) = Inl e" for a e
    using act_ok [OF laws ok that(1), of hwm] that(2) by simp
  with ok show ?thesis by (simp add: all_ok_def)
qed

subsection \<open>A run\<close>

text \<open>The server of theory \<open>Lifecycle\<close>, with a client at its door.\<close>

definition demo_door :: "demo world" where
  "demo_door = demo_hall\<lparr>kern := (demo_kernel 100)\<lparr>dk_incoming := [(20, no_addr)]\<rparr>\<rparr>"

lemma demo_door_simps [simp]:
  "kern demo_door = (demo_kernel 100)\<lparr>dk_incoming := [(20, no_addr)]\<rparr>" "chans demo_door = chans demo_hall"
  "pollers demo_door = pollers demo_hall" "evloops demo_door = evloops demo_hall" "conns demo_door = conns demo_hall"
  "server demo_door = server demo_hall" "pool demo_door = pool demo_hall" "fresh_conn demo_door = fresh_conn demo_hall"
  "fresh_chan demo_door = fresh_chan demo_hall" "the_acceptor demo_door = the_acceptor demo_hall" "chat demo_door = chat demo_hall"
  by (simp_all add: demo_door_def)

lemma demo_accept_law: "accept_law demo_os dk_interest"
  by (simp add: accept_law_def demo_os_def split: list.split)

lemma demo_server_vals:
  "fresh_conn demo_server = 0" "sv_loop (server demo_server) = 9" "sv_next_connection_id (server demo_server) = 1"
  "el_pending (evloops demo_server l) = []" "el_wakeup_fd (evloops demo_server l) = -1"
  "p_channels (pollers demo_server l) = Map.empty" "pool demo_server = demo_pool"
  "el_thread_id (evloops demo_server l) = (if l = 9 then 1 else int l)"
  by (simp_all add: demo_server_def)

lemma demo_hall_vals:
  "the_acceptor demo_hall = the_acceptor demo_server" "chat demo_hall = \<lparr>name_conn_map = [], conn_name_map = []\<rparr>"
  by (simp_all add: demo_hall_def demo_server_def sstate.defs world.defs)

lemma demo_door_ok: "server_ok dk_interest (\<lambda>l. []) demo_door"
proof -
  have net: "net_ok dk_interest demo_door"
    by (rule net_ok_cong [of dk_interest demo_hall])
       (use demo_hall_ok(1) in \<open>simp_all add: mail_ok_def\<close>, simp add: demo_server_def demo_kernel_def)
  have "service_ok demo_door"
    by (simp add: service_ok_def table_ok_def staffed_def demo_hall_vals demo_server_vals)
       (simp add: demo_server_def demo_pool_def pool_ok_def get_loops_def Channel_def kNew_def kAdded_def)
  moreover have "apart demo_door"
    by (simp add: apart_def demo_server_vals) (simp add: demo_server_def Channel_def kNew_def)
  ultimately show ?thesis
    using net by (simp add: server_ok_def base_def backlog_def members_def demo_server_vals demo_hall_vals chat_ok_def mutual_def)
qed

theorem server_invariant_witness:
  "\<exists>R s. runs_to demo_os (\<lambda>g c n s. Inr s) demo_door (R, s) \<and>
     server_ok dk_interest R s \<and> fresh_conn s = 1 \<and> R 12 = [BindConnectionEstablished 0]"
proof -
  let ?hwm = "\<lambda>g c n s. Inr s" and ?R = "\<lambda>l :: loop. [] :: task list"
  have call: "sys_accept4 demo_os 4 (kern demo_door) = (Inr (20, no_addr), demo_kernel 100)"
    by (simp add: demo_os_def demo_kernel_def)
  have fd: "ac_fd (the_acceptor demo_door) = 4" "ac_new_cb (the_acceptor demo_door) = Some FnNewConnection"
    by (simp_all add: demo_hall_vals) (simp_all add: demo_server_def)
  let ?s = "demo_door\<lparr>kern := demo_kernel 100\<rparr>"
  have pool: "pool_ok (pool ?s)" "get_loops (pool ?s) ! tp_next (pool ?s) = 12"
    by (simp_all add: demo_server_vals demo_pool_def pool_ok_def get_loops_def)
  obtain s1 where s1: "NewConnection demo_os (call_conn demo_os 1) 1 20 no_addr ?s = Inr s1"
    "evloops s1 = (evloops ?s)(12 := push_pending (BindConnectionEstablished (fresh_conn ?s)) (evloops ?s 12))"
    "fresh_conn s1 = fresh_conn ?s + 1"
    by (rule NewConnection_runs [OF pool(1), of 1 demo_os "call_conn demo_os 1" 20 no_addr, unfolded pool(2)])
       (simp_all add: IsInLoopThread_def demo_server_vals)
  have run1: "act demo_os ?hwm (Calls 9 AcceptorHandleRead 0) (?R, demo_door) = Inr (?R, s1)"
    using s1(1) fd call
    by (simp add: act_def call_chan_def Acceptor_HandleRead_def Accept_def Let_def call_accept_def demo_server_vals)
  have may1: "possible demo_os (Calls 9 AcceptorHandleRead 0) (?R, demo_door)"
    using fd call by (simp add: possible_def accepts_free_def descriptor_free_def demo_server_vals)
  let ?h = "\<lambda>el. snd (swap_pending (el\<lparr>el_calling := True\<rparr>))"
  have run2: "act demo_os ?hwm (Swaps 12) (?R, s1) = Inr (?R(12 := [BindConnectionEstablished 0]), upd_loop 12 ?h s1)"
    using s1(2) by (simp add: act_def Let_def swap_pending_def push_pending_def upd_loop_def demo_server_vals)
  have may2: "possible demo_os (Swaps 12) (?R, s1)" by (simp add: possible_def)
  note run = runs_step [OF runs_step [OF runs_init may1 run1] may2 run2]
  from server_invariant [OF demo_laws demo_accept_law demo_door_ok run] s1(3) show ?thesis
    by (intro exI [of _ "?R(12 := [BindConnectionEstablished 0])"] exI [of _ "upd_loop 12 ?h s1"] conjI run)
       (simp_all add: demo_server_vals)
qed

end
