(* ===== verification/ServerLoop.thy ===== *)
theory ServerLoop
  imports ServerRuns PollerCorrect
begin

text \<open>
  One iteration of a loop: it waits for events, handles those of its channels in the kernel's order,
  and runs the functors queued for it. The server's invariant survives it.
\<close>

subsection \<open>Waiting\<close>

text \<open>
  \<open>epoll_wait(2)\<close> reports descriptors that are in the interest list, each at most once and with the
  data it was registered with.
\<close>

definition wait_law :: "'k os \<Rightarrow> 'k interest \<Rightarrow> bool" where
  "wait_law os interest \<longleftrightarrow>
     (\<forall>ep n timeout k. interest (snd (sys_epoll_wait os ep n timeout k)) = interest k) \<and>
     (\<forall>k. interest (snd (sys_time os k)) = interest k) \<and>
     (\<forall>ep n timeout k evs k'. sys_epoll_wait os ep n timeout k = (Inr evs, k') \<longrightarrow>
        distinct (map ev_ptr evs) \<and>
        (\<forall>ev \<in> set evs. \<exists>fd reg. interest k ep fd = Some reg \<and> ev_ptr ev = ev_ptr reg))"

lemma wait_lawD:
  assumes "wait_law os interest"
  shows "interest (snd (sys_epoll_wait os ep n timeout k)) = interest k" "interest (snd (sys_time os k)) = interest k"
    "sys_epoll_wait os ep n timeout k = (Inr evs, k') \<Longrightarrow> distinct (map ev_ptr evs)"
    "sys_epoll_wait os ep n timeout k = (Inr evs, k') \<Longrightarrow> ev \<in> set evs \<Longrightarrow>
       \<exists>fd reg. interest k ep fd = Some reg \<and> ev_ptr ev = ev_ptr reg"
  using assms unfolding wait_law_def by blast+

lemma Poll_sees:
  fixes s :: "('k, 'z) world_scheme"
  assumes wait: "wait_law os interest" and net: "net_ok interest s" and poll: "Poll os l timeout [] s = (now, active, s')"
  shows "seen s s'" "evloops s' = evloops s" "interest (kern s') = interest (kern s)" "distinct active"
    "ch \<in> set active \<Longrightarrow> ch_index (chans s' ch) = kAdded \<and> ch_loop (chans s' ch) = l"
proof -
  obtain r k1 where w: "sys_epoll_wait os (epoll_fd (pollers s l)) (events_size (pollers s l)) timeout (kern s) = (r, k1)"
    by fastforce
  obtain now' k2 where ti: "sys_time os k1 = (now', k2)" by fastforce
  have quiet: "interest k2 = interest (kern s)"
    using wait_lawD(1) [OF wait, of "epoll_fd (pollers s l)" "events_size (pollers s l)" timeout "kern s"]
      wait_lawD(2) [OF wait, of k1] w ti by simp
  define evs where "evs = (case r of Inl e \<Rightarrow> [] | Inr evs \<Rightarrow> evs)"
  have same: "pstate.more s' = pstate.more s" "chans s' = (\<lambda>c. reported evs c (chans s c))" "active = map ev_ptr evs" "kern s' = k2"
    and slots: "epoll_fd (pollers s' k) = epoll_fd (pollers s k)" "p_channels (pollers s' k) = p_channels (pollers s k)" for k
    using poll
    by (auto simp: Poll_def w ti Let_def evs_def FillActivechannels_all fold_set_revents reported_def
        split: sum.splits if_splits)
  note more = more_upper [OF same(1)]
  have fresh: "fresh_chan s' = fresh_chan s" using same(1) by (cases s, cases s') simp
  have "\<exists>ev. chans s' ch = (chans s ch)\<lparr>ch_revents := ev\<rparr>" for ch
    by (cases "chans s ch") (auto simp: same(2) reported_def set_revents_def)
  then show seen: "seen s s'" unfolding seen_def by (simp add: slots more fresh)
  show "evloops s' = evloops s" by (rule more)
  show "interest (kern s') = interest (kern s)" by (simp add: same(4) quiet)
  have real: "distinct (map ev_ptr evs) \<and>
      (\<forall>ev \<in> set evs. \<exists>fd reg. interest (kern s) (epoll_fd (pollers s l)) fd = Some reg \<and> ev_ptr ev = ev_ptr reg)"
    using wait_lawD(3,4) [OF wait] w by (cases r) (auto simp: evs_def)
  then show "distinct active" by (simp add: same(3))
  show "ch_index (chans s' ch) = kAdded \<and> ch_loop (chans s' ch) = l" if ch: "ch \<in> set active"
  proof -
    obtain fd reg where reg: "interest (kern s) (epoll_fd (pollers s l)) fd = Some reg" "ch = ev_ptr reg"
      using ch real by (auto simp: same(3))
    note po = net_okD(1) [OF net, of l]
    from reg poller_ok_interest [OF po, of fd] have "p_channels (pollers s l) fd = Some ch" "ch_index (chans s ch) = kAdded"
      by (auto split: option.splits if_splits)
    with poller_ok_mapped [OF po this(1)] show ?thesis by (simp add: seen_chan [OF seen])
  qed
qed


subsection \<open>Handling an event\<close>

text \<open>
  What the environment is asked for when an event of channel \<open>ch\<close> is handled: an accepted descriptor is
  not in use and the numbers of connections stay in an \<open>int\<close>; a client without a name gives one; and
  the kernel does not report a hangup with urgent data (\<open>EPOLLPRI\<close>) but without \<open>EPOLLIN\<close>, for which
  the handler would close the connection and then read from it.
\<close>

definition greeted :: "'k os \<Rightarrow> chan \<Rightarrow> ('k, 'z) world_scheme \<Rightarrow> bool" where
  "greeted os ch s \<longleftrightarrow>
     (case ch_read_cb (chans s ch) of
        Some AcceptorHandleRead \<Rightarrow> sv_next_connection_id (server s) < 2 ^ 31 - 1 \<and> accepts_free os s
      | Some (ConnHandleRead c) \<Rightarrow>
          (let rv = ch_revents (chans s ch)
           in (rv AND EPOLLHUP \<noteq> 0 \<longrightarrow> rv AND EPOLLIN \<noteq> 0 \<or> rv AND EPOLLPRI = 0) \<and>
              named_or_naming os c (if rv AND EPOLLERR \<noteq> 0 then HandleError os c s else s))
      | _ \<Rightarrow> True)"

lemma moves_refl: "server_ok interest R s \<Longrightarrow> moves interest R ch s s"
  by (rule still_moves [OF still_refl [OF server_okD(3)]])

lemma moves_ok: "moves interest R ch s s' \<Longrightarrow> server_ok interest R s'"
  "moves interest R ch s s' \<Longrightarrow> el_thread_id (evloops s' l) = el_thread_id (evloops s l)"
  by (simp_all add: moves_def goes_on_def)

text \<open>One callback, in a state reached from \<open>s\<close>.\<close>

lemma call_step:
  fixes s s1 :: "('k, 'z) world_scheme"
  assumes laws: "kernel_laws os wire interest" "accept_law os interest" and m: "moves interest R ch s s1"
    and may: "possible os (Calls l cb now) (R, s1)" and ch: "runs_for cb ch s1"
  shows "ends known_faults (moves interest R ch s) (call_chan os (el_thread_id (evloops s l)) cb now s1)"
  using call_chan_moves [OF laws moves_ok(1) [OF m] may ch] unfolding moves_ok(2) [OF m]
  by (rule ends_mono) (simp_all add: moves_trans [OF m])

lemma own_event_moves:
  fixes s :: "('k, 'z) world_scheme" and l :: loop
  defines "t \<equiv> el_thread_id (evloops s l)"
  assumes laws: "kernel_laws os wire interest" "accept_law os interest" and ok: "server_ok interest R s"
    and ch: "handled (sv_loop (server s)) (chans s ch)" "ch_loop (chans s ch) = l" and wel: "greeted os ch s"
  shows "ends known_faults (moves interest R ch s) (HandleEventWithGuard (call_chan os t) (chans s ch) now s)"
proof -
  have none: "ch_write_cb (chans s ch) = None" "ch_close_cb (chans s ch) = None" "ch_error_cb (chans s ch) = None"
    using ch(1) by (simp_all add: handled_def)
  obtain cb where cb: "ch_read_cb (chans s ch) = Some cb" "possible os (Calls l cb now) (R, s)" "runs_for cb ch s"
    using ch wel by (auto simp: handled_def greeted_def possible_def runs_for_def)
  have "ends known_faults (moves interest R ch s) (call_chan os t cb now s)"
    unfolding t_def by (rule call_step [OF laws moves_refl [OF ok] cb(2,3)])
  with moves_refl [OF ok] show ?thesis
    by (simp add: HandleEventWithGuard_def Let_def none cb(1) call_if_set_def)
qed

lemma mask_or_zero: "x AND EPOLLIN = 0 \<Longrightarrow> x AND EPOLLPRI = 0 \<Longrightarrow> x AND (EPOLLIN OR EPOLLPRI) = 0"
  by (simp add: bit.conj_disj_distrib)

lemma conn_event_moves:
  fixes s :: "('k, 'z) world_scheme" and l :: loop
  defines "t \<equiv> el_thread_id (evloops s l)"
  assumes laws: "kernel_laws os wire interest" "accept_law os interest" and ok: "server_ok interest R s"
    and c: "c < fresh_conn s" "tc_channel (conns s c) = ch" and added: "ch_index (chans s ch) = kAdded"
    and l: "ch_loop (chans s ch) = l" and wel: "greeted os ch s"
  shows "ends known_faults (moves interest R ch s) (HandleEventWithGuard (call_chan os t) (chans s ch) now s)"
proof -
  define rv where "rv = ch_revents (chans s ch)"
  have made: "made_ok c s" by (rule baseD(4) [OF server_okD(1) [OF ok] c(1)])
  then have cbs: "ch_read_cb (chans s ch) = Some (ConnHandleRead c)" "ch_write_cb (chans s ch) = Some (ConnHandleWrite c)"
    "ch_close_cb (chans s ch) = Some (ConnHandleClose c)" "ch_error_cb (chans s ch) = Some (ConnHandleError c)"
    "tc_loop (conns s c) = l"
    using l by (simp_all add: made_ok_def Let_def c(2))
  have wel: "rv AND EPOLLHUP \<noteq> 0 \<longrightarrow> rv AND EPOLLIN \<noteq> 0 \<or> rv AND EPOLLPRI = 0"
    "named_or_naming os c (if rv AND EPOLLERR \<noteq> 0 then HandleError os c s else s)"
    using wel by (simp_all add: greeted_def cbs(1) Let_def rv_def)
  note step = call_step [OF laws, of R ch s _ l, folded t_def]
  let ?hangs = "rv AND EPOLLHUP \<noteq> 0 \<and> rv AND EPOLLIN = 0"
  have same: "c < fresh_conn s1 \<and> tc_channel (conns s1 c) = ch \<and> tc_loop (conns s1 c) = l \<and> ch_index (chans s1 ch) \<noteq> kNew"
    if "moves interest R ch s s1" for s1
    using sparesD [OF movesD(2) [OF that]] conn_static_fields(1,4) [of "conns s1 c" "conns s c"] c added cbs(5)
    by (simp add: kAdded_def kNew_def)
  have close: "ends known_faults (\<lambda>s1. moves interest R ch s s1 \<and> (\<not> ?hangs \<longrightarrow> s1 = s))
      (if ?hangs then call_chan os t (ConnHandleClose c) now s else Inr s)"
    using step [OF moves_refl [OF ok], of "ConnHandleClose c" now] moves_refl [OF ok] c added cbs(5)
    by (auto simp: possible_def in_poller_def runs_for_def elim: ends_mono)
  have error: "ends known_faults (\<lambda>s2. moves interest R ch s s2 \<and> (\<not> ?hangs \<longrightarrow> s2 = (if rv AND EPOLLERR \<noteq> 0 then HandleError os c s else s)))
      (if rv AND EPOLLERR \<noteq> 0 then call_chan os t (ConnHandleError c) now s1 else Inr s1)"
    if "moves interest R ch s s1 \<and> (\<not> ?hangs \<longrightarrow> s1 = s)" for s1
    using step [of s1 "ConnHandleError c" now] that by (auto simp: possible_def runs_for_def call_chan_def)
  have reads: "ends known_faults (moves interest R ch s)
      (if rv AND (EPOLLIN OR EPOLLPRI) \<noteq> 0 then call_chan os t (ConnHandleRead c) now s2 else Inr s2)"
    if s2: "moves interest R ch s s2 \<and> (\<not> ?hangs \<longrightarrow> s2 = (if rv AND EPOLLERR \<noteq> 0 then HandleError os c s else s))" for s2
  proof (cases "rv AND (EPOLLIN OR EPOLLPRI) = 0")
    case True
    with s2 show ?thesis by simp
  next
    case False
    then have "\<not> ?hangs" using mask_or_zero wel(1) by blast
    with s2 have s2: "moves interest R ch s s2" "s2 = (if rv AND EPOLLERR \<noteq> 0 then HandleError os c s else s)" by blast+
    then have "ch_index (conn_channel s2 c) = kAdded" using added c(2) by (simp add: HandleError_def)
    with step [OF s2(1), of "ConnHandleRead c" now] same [OF s2(1)] wel(2) False show ?thesis
      by (simp add: possible_def in_poller_def runs_for_def s2(2) [symmetric])
  qed
  have writes: "ends known_faults (moves interest R ch s)
      (if rv AND EPOLLOUT \<noteq> 0 then call_chan os t (ConnHandleWrite c) now s3 else Inr s3)"
    if "moves interest R ch s s3" for s3
    using step [OF that, of "ConnHandleWrite c" now] same [OF that] that by (simp add: possible_def runs_for_def)
  show ?thesis
    unfolding HandleEventWithGuard_def Let_def cbs call_if_set_def option.case rv_def [symmetric]
    by (rule ends_bind [OF close], rule ends_bind [OF error], assumption, rule ends_bind [OF reads], assumption, rule writes)
qed

lemma event_moves:
  fixes s :: "('k, 'z) world_scheme" and l :: loop
  defines "t \<equiv> el_thread_id (evloops s l)"
  assumes laws: "kernel_laws os wire interest" "accept_law os interest" and ok: "server_ok interest R s"
    and ch: "ch_index (chans s ch) = kAdded" "ch_loop (chans s ch) = l" and wel: "greeted os ch s"
  shows "ends known_faults (moves interest R ch s) (handle_channel os t ch now s)"
proof -
  have "staffed s" using baseD(2) [OF server_okD(1) [OF ok]] unfolding service_ok_def by blast
  then consider c where "c < fresh_conn s" "tc_channel (conns s c) = ch" | "handled (sv_loop (server s)) (chans s ch)"
    using ch(1) by (auto simp: staffed_def)
  then have "ends known_faults (moves interest R ch s) (HandleEventWithGuard (call_chan os t) (chans s ch) now s)"
    using conn_event_moves [OF laws ok _ _ ch wel] own_event_moves [OF laws ok _ ch(2) wel] unfolding t_def by cases
  with moves_refl [OF ok] show ?thesis by (simp add: handle_channel_def HandleEvent_def split: option.split)
qed

subsection \<open>An iteration\<close>

text \<open>The environment in the handling of all the events of one wait, each in the state the ones before it leave.\<close>

fun greeted_all :: "'k os \<Rightarrow> tid \<Rightarrow> timestamp \<Rightarrow> chan list \<Rightarrow> ('k, 'z) world_scheme \<Rightarrow> bool" where
  "greeted_all os t now [] s \<longleftrightarrow> True"
| "greeted_all os t now (ch # chs) s \<longleftrightarrow>
     greeted os ch s \<and>
     (case handle_channel os t ch now s of Inl e \<Rightarrow> True | Inr s' \<Rightarrow> greeted_all os t now chs s')"

definition greeted_loop :: "'k os \<Rightarrow> loop \<Rightarrow> ('k, 'z) world_scheme \<Rightarrow> bool" where
  "greeted_loop os l s \<longleftrightarrow>
     (case Poll os l kPollTimeout [] (upd_loop l (\<lambda>el. el\<lparr>el_active := []\<rparr>) s) of
        (now, active, s1) \<Rightarrow>
          greeted_all os (el_thread_id (evloops s l)) now active
            (upd_loop l (\<lambda>el. el\<lparr>el_return_time := now, el_active := active\<rparr>) s1))"

lemma dispatch_goes_on:
  fixes s :: "('k, 'z) world_scheme"
  assumes laws: "kernel_laws os wire interest" "accept_law os interest"
  shows "server_ok interest R s \<Longrightarrow> el_thread_id (evloops s l) = t \<Longrightarrow> distinct chs \<Longrightarrow>
    \<forall>ch \<in> set chs. ch_index (chans s ch) = kAdded \<and> ch_loop (chans s ch) = l \<Longrightarrow> greeted_all os t now chs s \<Longrightarrow>
    ends known_faults (goes_on interest R s) (foldR (\<lambda>ch. handle_channel os t ch now) chs s)"
proof (induction chs arbitrary: s)
  case Nil
  then show ?case by (simp add: goes_on_def)
next
  case (Cons ch chs)
  have ch: "ch_index (chans s ch) = kAdded" "ch_loop (chans s ch) = l" "greeted os ch s" using Cons.prems(4,5) by simp_all
  have first: "ends known_faults (moves interest R ch s) (handle_channel os t ch now s)"
    using event_moves [OF laws Cons.prems(1) ch] by (simp add: Cons.prems(2))
  show ?case
    unfolding foldR.simps
  proof (rule ends_bind [OF first])
    fix s1 assume run: "handle_channel os t ch now s = Inr s1" and m: "moves interest R ch s s1"
    have "ends known_faults (goes_on interest R s1) (foldR (\<lambda>ch. handle_channel os t ch now) chs s1)"
    proof (rule Cons.IH)
      show "\<forall>d \<in> set chs. ch_index (chans s1 d) = kAdded \<and> ch_loop (chans s1 d) = l"
      proof
        fix d assume "d \<in> set chs"
        then have d: "d \<noteq> ch" "ch_index (chans s d) = kAdded" "ch_loop (chans s d) = l" using Cons.prems(3,4) by auto
        then have "ch_index (chans s d) \<noteq> kNew" by (simp add: kAdded_def kNew_def)
        with d sparesD(1,3) [OF movesD(2) [OF m], of d] chan_static_fields(2) [of "chans s1 d" "chans s d"]
        show "ch_index (chans s1 d) = kAdded \<and> ch_loop (chans s1 d) = l" by simp
      qed
    qed (use moves_ok [OF m] Cons.prems(2,3,5) run in simp_all)
    then show "ends known_faults (goes_on interest R s) (foldR (\<lambda>ch. handle_channel os t ch now) chs s1)"
      by (rule ends_mono) (use moves_ok(2) [OF m] in \<open>simp_all add: goes_on_def\<close>)
  qed
qed

text \<open>The functors that a loop has swapped out.\<close>

lemma functors_go_on:
  fixes s :: "('k, 'z) world_scheme"
  assumes laws: "kernel_laws os wire interest"
  shows "server_ok interest (R(l := fs)) s \<Longrightarrow>
    ends known_faults (goes_on interest (R(l := [])) s) (foldR (exec_task os hwm t) fs s)"
proof (induction fs arbitrary: s)
  case Nil
  then show ?case by (simp add: goes_on_def)
next
  case (Cons f fs)
  have first: "ends known_faults (goes_on interest (R(l := fs)) s) (exec_task os hwm t f s)"
    by (rule ends_mono [OF exec_task_goes_on [OF laws Cons.prems]]) (auto simp: known_faults_def)
  show ?case
    unfolding foldR.simps
  proof (rule ends_bind [OF first])
    fix s1 assume s1: "goes_on interest (R(l := fs)) s s1"
    then have "server_ok interest (R(l := fs)) s1" by (simp add: goes_on_def)
    from Cons.IH [OF this]
    show "ends known_faults (goes_on interest (R(l := [])) s) (foldR (exec_task os hwm t) fs s1)"
      by (rule ends_mono) (use s1 in \<open>simp_all add: goes_on_def del: fun_upd_apply\<close>)
  qed
qed

lemma DoPendingFunctors_goes_on:
  fixes s :: "('k, 'z) world_scheme"
  assumes laws: "kernel_laws os wire interest" and ok: "server_ok interest R s" and R: "R l = []"
  shows "ends known_faults (goes_on interest R s) (DoPendingFunctors (exec_task os hwm t) l s)"
proof -
  define fs where "fs = el_pending (evloops s l)"
  let ?s1 = "upd_loop l (\<lambda>el. el\<lparr>el_calling := True\<rparr>) s"
  define s2 where "s2 = upd_loop l (\<lambda>el. snd (swap_pending el)) ?s1"
  have "upd_loop l (\<lambda>el. snd (swap_pending (el\<lparr>el_calling := True\<rparr>))) s = s2"
    by (simp add: s2_def upd_loop_def)
  moreover have "server_ok interest (R(l := fs)) (upd_loop l (\<lambda>el. snd (swap_pending (el\<lparr>el_calling := True\<rparr>))) s)"
    by (rule server_ok_upd_loop [OF ok]) (simp_all add: swap_pending_def backlog_def R fs_def)
  ultimately have ok2: "server_ok interest (R(l := fs)) s2" by simp
  have threads: "el_thread_id (evloops s2 k) = el_thread_id (evloops s k)" for k
    by (simp add: s2_def swap_pending_def)
  have "DoPendingFunctors (exec_task os hwm t) l s =
      bind_res (foldR (exec_task os hwm t) fs s2) (\<lambda>s3. Inr (upd_loop l (\<lambda>el. el\<lparr>el_calling := False\<rparr>) s3))"
    by (simp add: DoPendingFunctors_def Let_def s2_def fs_def swap_pending_def)
  moreover have "ends known_faults (goes_on interest R s)
      (bind_res (foldR (exec_task os hwm t) fs s2) (\<lambda>s3. Inr (upd_loop l (\<lambda>el. el\<lparr>el_calling := False\<rparr>) s3)))"
  proof (rule ends_bind [OF functors_go_on [OF laws ok2]])
    fix s3 assume s3: "goes_on interest (R(l := [])) s2 s3"
    have "R(l := []) = R" using R by auto
    with s3 have "server_ok interest R (upd_loop l (\<lambda>el. el\<lparr>el_calling := False\<rparr>) s3)"
      by (intro server_ok_upd_loop [where R = R]) (simp_all add: goes_on_def backlog_def)
    then show "ends known_faults (goes_on interest R s) (Inr (upd_loop l (\<lambda>el. el\<lparr>el_calling := False\<rparr>) s3))"
      using s3 threads by (simp add: goes_on_def)
  qed
  ultimately show ?thesis by simp
qed

lemma iteration_goes_on:
  fixes s :: "('k, 'z) world_scheme"
  assumes laws: "kernel_laws os wire interest" "accept_law os interest" and wait: "wait_law os interest"
    and ok: "server_ok interest R s" and R: "R l = []" and wel: "greeted_loop os l s"
  shows "ends known_faults (goes_on interest R s) (world_iteration os hwm l s)"
proof -
  define t where "t = el_thread_id (evloops s l)"
  define s1 where "s1 = upd_loop l (\<lambda>el. el\<lparr>el_active := []\<rparr>) s"
  obtain now active s2 where poll: "Poll os l kPollTimeout [] s1 = (now, active, s2)" by (metis prod_cases3)
  define s3 where "s3 = upd_loop l (\<lambda>el. el\<lparr>el_return_time := now, el_active := active\<rparr>) s2"
  have ok1: "server_ok interest R s1" unfolding s1_def by (rule server_ok_upd_loop [OF ok]) (simp_all add: backlog_def)
  note sees = Poll_sees [OF wait server_okD(3) [OF ok1] poll]
  have "server_ok interest R s2" by (rule server_ok_seen [OF ok1 sees(1,3)]) (simp add: backlog_def sees(2))
  then have ok3: "server_ok interest R s3" unfolding s3_def by (rule server_ok_upd_loop) (simp_all add: backlog_def)
  have threads: "el_thread_id (evloops s3 k) = el_thread_id (evloops s k)" for k
    by (simp add: s3_def s1_def sees(2))
  have "\<forall>ch \<in> set active. ch_index (chans s3 ch) = kAdded \<and> ch_loop (chans s3 ch) = l"
    using sees(5) by (simp add: s3_def)
  moreover have "greeted_all os t now active s3"
    using wel unfolding greeted_loop_def s1_def [symmetric] poll by (simp add: t_def s3_def)
  ultimately have dispatch: "ends known_faults (goes_on interest R s3) (foldR (\<lambda>ch. handle_channel os t ch now) active s3)"
    by (intro dispatch_goes_on [OF laws ok3 _ sees(4), where l = l]) (simp_all add: threads t_def)
  have "world_iteration os hwm l s =
      bind_res (foldR (\<lambda>ch. handle_channel os t ch now) active s3) (DoPendingFunctors (exec_task os hwm t) l)"
    using poll by (simp add: world_iteration_def loop_body_def Let_def t_def s1_def s3_def)
  moreover have "ends known_faults (goes_on interest R s)
      (bind_res (foldR (\<lambda>ch. handle_channel os t ch now) active s3) (DoPendingFunctors (exec_task os hwm t) l))"
  proof (rule ends_bind [OF dispatch])
    fix s4 assume s4: "goes_on interest R s3 s4"
    then have "server_ok interest R s4" by (simp add: goes_on_def)
    from DoPendingFunctors_goes_on [OF laws(1) this R]
    show "ends known_faults (goes_on interest R s) (DoPendingFunctors (exec_task os hwm t) l s4)"
      by (rule ends_mono) (use s4 threads in \<open>simp_all add: goes_on_def\<close>)
  qed
  ultimately show ?thesis by simp
qed

text \<open>C2. The loops at work. From a consistent state, iterations of the loops - wait, handle the events
  reported, run the functors queued, each iteration undisturbed by the other loops' - lead to consistent
  states only, whichever loop is next, as long as each iteration is \<open>greeted_loop\<close>: at each of its events,
  in the state in which it is handled, an accepted descriptor is not in use and the number of connections fits an
  \<open>int\<close>, a client that has no name yet does not send the empty one, and \<open>EPOLLHUP\<close> does not come with
  \<open>EPOLLPRI\<close> and without \<open>EPOLLIN\<close>. Such an iteration fails, if at all, by an overrun or an over-read of a
  buffer or by the unset high-water-mark callback. Of \<open>epoll_wait\<close> it is assumed that it reports registered
  descriptors, each once. (The empty name and the bare hangup with urgent data are left out because they do
  break the invariant: C40, and the handler that reads a connection it has just closed.)
\<close>

theorem loops_keep_server:
  assumes laws: "kernel_laws os wire interest" "accept_law os interest" "wait_law os interest"
    and start: "server_ok interest (\<lambda>l. []) s0"
    and run: "reach (\<lambda>x. x = s0) (\<lambda>x y. \<exists>l. greeted_loop os l x \<and> world_iteration os hwm l x = Inr y) s"
  shows "server_ok interest (\<lambda>l. []) s \<and>
    (\<forall>l e. greeted_loop os l s \<longrightarrow> world_iteration os hwm l s = Inl e \<longrightarrow> e \<in> known_faults)"
proof -
  note step = iteration_goes_on [OF laws, where R = "\<lambda>l. []", OF _ refl]
  have ok: "server_ok interest (\<lambda>l. []) s"
  proof (rule reach_invariant [OF run])
    fix x y assume "\<exists>l. greeted_loop os l x \<and> world_iteration os hwm l x = Inr y" and "server_ok interest (\<lambda>l. []) x"
    with step [of x _ hwm] show "server_ok interest (\<lambda>l. []) y" by (fastforce simp: goes_on_def)
  qed (use start in simp)
  moreover have "e \<in> known_faults" if "greeted_loop os l s" "world_iteration os hwm l s = Inl e" for l e
    using step [OF ok that(1), of hwm] that(2) by simp
  ultimately show ?thesis by blast
qed

subsection \<open>A run\<close>

text \<open>
  The demonstration kernel with an \<open>epoll_wait\<close> that reports, of the next script, the first event of a
  registered descriptor; and the server with its listening socket watched and a client at the door.
\<close>

definition demo_known :: "fd \<Rightarrow> demo \<Rightarrow> epoll_event \<Rightarrow> bool" where
  "demo_known ep k ev \<longleftrightarrow> list_ex (\<lambda>fd. map_option ev_ptr (dk_interest k ep fd) = Some (ev_ptr ev)) [0..64]"

definition demo_watch :: "demo os" where
  "demo_watch = demo_os
     \<lparr>sys_epoll_wait := \<lambda>ep n timeout k.
        (case dk_ready k of
           [] \<Rightarrow> (Inr [], k)
         | evs # rest \<Rightarrow> (Inr (take (min 1 n) (filter (demo_known ep k) evs)), k\<lparr>dk_ready := rest\<rparr>))\<rparr>"

lemma laws_wait:
  "kernel_laws (os\<lparr>sys_epoll_wait := w\<rparr>) wire interest = kernel_laws os wire interest"
  "accept_law (os\<lparr>sys_epoll_wait := w\<rparr>) interest = accept_law os interest"
  by (simp_all add: kernel_laws_def readv_law_def write_law_def epoll_law_def quiet_law_def accept_law_def)

lemma demo_watch_laws: "kernel_laws demo_watch dk_wire dk_interest" "accept_law demo_watch dk_interest"
  using demo_laws demo_accept_law by (simp_all add: demo_watch_def laws_wait)

lemma demo_wait_law: "wait_law demo_watch dk_interest"
proof -
  have one: "distinct (map ev_ptr (take (min (Suc 0) n) evs))" for n and evs :: "epoll_event list"
    by (cases evs; cases n) simp_all
  have real: "\<exists>fd reg. dk_interest k ep fd = Some reg \<and> ev_ptr ev = ev_ptr reg"
    if "ev \<in> set (take n (filter (demo_known ep k) evs))" for ev n ep k evs
    using in_set_takeD [OF that] by (fastforce simp: demo_known_def list_ex_iff)
  show ?thesis
    using real by (auto simp: wait_law_def demo_watch_def demo_os_def one split: list.splits)
qed

definition demo_porch :: "demo world" where
  "demo_porch = demo_hall
     \<lparr>kern := (demo_kernel 100)
        \<lparr>dk_incoming := [(20, no_addr)], dk_ready := [[\<lparr>ev_events = EPOLLIN, ev_ptr = 4\<rparr>]],
         dk_interest := (\<lambda>_ _. None)(109 := [4 \<mapsto> \<lparr>ev_events = kReadEvent, ev_ptr = 4\<rparr>])\<rparr>,
      chans := (\<lambda>_. Channel 9 0)(4 := (SetReadCallBack AcceptorHandleRead (Channel 9 4))
        \<lparr>ch_events := kReadEvent, ch_index := kAdded\<rparr>),
      pollers := \<lambda>l. \<lparr>epoll_fd = int l + 100, p_channels = (if l = 9 then [4 \<mapsto> 4] else Map.empty), events_size = 16\<rparr>\<rparr>"

lemma demo_porch_simps [simp]:
  "kern demo_porch = (demo_kernel 100)
     \<lparr>dk_incoming := [(20, no_addr)], dk_ready := [[\<lparr>ev_events = EPOLLIN, ev_ptr = 4\<rparr>]],
      dk_interest := (\<lambda>_ _. None)(109 := [4 \<mapsto> \<lparr>ev_events = kReadEvent, ev_ptr = 4\<rparr>])\<rparr>"
  "chans demo_porch = (\<lambda>_. Channel 9 0)(4 := (SetReadCallBack AcceptorHandleRead (Channel 9 4))
     \<lparr>ch_events := kReadEvent, ch_index := kAdded\<rparr>)"
  "pollers demo_porch = (\<lambda>l. \<lparr>epoll_fd = int l + 100, p_channels = (if l = 9 then [4 \<mapsto> 4] else Map.empty), events_size = 16\<rparr>)"
  "evloops demo_porch = evloops demo_hall" "conns demo_porch = conns demo_hall"
  "server demo_porch = server demo_hall" "pool demo_porch = pool demo_hall" "fresh_conn demo_porch = fresh_conn demo_hall"
  "fresh_chan demo_porch = fresh_chan demo_hall" "the_acceptor demo_porch = the_acceptor demo_hall" "chat demo_porch = chat demo_hall"
  by (simp_all add: demo_porch_def)

lemma demo_porch_ok: "server_ok dk_interest (\<lambda>l. []) demo_porch"
proof -
  have net: "net_ok dk_interest demo_porch"
    by (auto simp: net_ok_def poller_ok_def inj_def Channel_def SetReadCallBack_def channel_index demo_kernel_def)
  have "service_ok demo_porch"
    by (simp add: service_ok_def table_ok_def staffed_def demo_hall_vals demo_server_vals)
       (simp add: demo_server_def demo_pool_def pool_ok_def get_loops_def Channel_def SetReadCallBack_def channel_index handled_def)
  moreover have "apart demo_porch"
    by (simp add: apart_def demo_server_vals) (simp add: demo_server_def Channel_def kNew_def)
  ultimately show ?thesis
    using net by (simp add: server_ok_def base_def backlog_def members_def demo_server_vals demo_hall_vals chat_ok_def mutual_def)
qed

theorem loops_keep_server_witness:
  "\<exists>s. reach (\<lambda>x. x = demo_porch)
       (\<lambda>x y. \<exists>l. greeted_loop demo_watch l x \<and> world_iteration demo_watch (\<lambda>g c n s. Inr s) l x = Inr y) s \<and>
     server_ok dk_interest (\<lambda>l. []) s \<and> fresh_conn s = 1"
proof -
  let ?hwm = "\<lambda>g c n s. Inr s"
  define k1 where "k1 = (kern demo_porch)\<lparr>dk_ready := []\<rparr>"
  define s1 where "s1 = upd_chan 4 (set_revents EPOLLIN) (upd_loop 9 (\<lambda>el. el\<lparr>el_active := []\<rparr>) demo_porch\<lparr>kern := k1\<rparr>)"
  have poll: "Poll demo_watch 9 kPollTimeout [] (upd_loop 9 (\<lambda>el. el\<lparr>el_active := []\<rparr>) demo_porch) = (0, [4], s1)"
    by (simp add: Poll_def demo_watch_def demo_os_def demo_known_def demo_kernel_def s1_def k1_def list_ex_iff)
  define s2 where "s2 = upd_loop 9 (\<lambda>el. el\<lparr>el_return_time := 0, el_active := [4]\<rparr>) s1"
  have s2: "chans s2 4 = (SetReadCallBack AcceptorHandleRead (Channel 9 4))\<lparr>ch_events := kReadEvent, ch_index := kAdded, ch_revents := EPOLLIN\<rparr>"
    "kern s2 = k1" "server s2 = server demo_hall" "pool s2 = demo_pool" "fresh_conn s2 = 0" "the_acceptor s2 = the_acceptor demo_server"
    "el_thread_id (evloops s2 l) = (if l = 9 then 1 else int l)" "el_pending (evloops s2 9) = []" "pollers s2 = pollers demo_porch"
    "el_wakeup_fd (evloops s2 l) = -1" for l
    by (simp_all add: s2_def s1_def set_revents_def demo_server_vals demo_hall_vals)
  have call: "sys_accept4 demo_watch 4 k1 = (Inr (20, no_addr), k1\<lparr>dk_incoming := []\<rparr>)"
    by (simp add: demo_watch_def demo_os_def k1_def)
  have fd: "ac_fd (the_acceptor demo_server) = 4" "ac_new_cb (the_acceptor demo_server) = Some FnNewConnection"
    by (simp_all add: demo_server_def)
  let ?s = "s2\<lparr>kern := k1\<lparr>dk_incoming := []\<rparr>\<rparr>"
  have pool: "pool_ok (pool ?s)" "get_loops (pool ?s) ! tp_next (pool ?s) = 12"
    by (simp_all add: s2 demo_pool_def pool_ok_def get_loops_def)
  obtain s3 where s3: "NewConnection demo_watch (call_conn demo_watch 1) 1 20 no_addr ?s = Inr s3"
    "evloops s3 = (evloops ?s)(12 := push_pending (BindConnectionEstablished (fresh_conn ?s)) (evloops ?s 12))"
    "fresh_conn s3 = fresh_conn ?s + 1"
    by (rule NewConnection_runs [OF pool(1), of 1 demo_watch "call_conn demo_watch 1" 20 no_addr, unfolded pool(2)])
       (simp_all add: IsInLoopThread_def s2 demo_server_vals)
  have handle: "handle_channel demo_watch 1 4 0 s2 = Inr s3"
    using s3(1) fd call
    by (simp add: handle_channel_def HandleEvent_def HandleEventWithGuard_def Let_def s2 SetReadCallBack_def Channel_def
        epoll_bits call_if_set_def call_chan_def Acceptor_HandleRead_def Accept_def call_accept_def)
  have "greeted demo_watch 4 s2"
    using fd call
    by (simp add: greeted_def s2 SetReadCallBack_def accepts_free_def descriptor_free_def demo_server_vals)
  then have wel: "greeted_loop demo_watch 9 demo_porch"
    by (simp add: greeted_loop_def poll s2_def [symmetric] handle demo_server_vals)
  let ?after = "upd_loop 9 (\<lambda>el. el\<lparr>el_calling := False\<rparr>) (upd_loop 9 (\<lambda>el. snd (swap_pending el)) (upd_loop 9 (\<lambda>el. el\<lparr>el_calling := True\<rparr>) s3))"
  have "el_pending (evloops s3 9) = []" using s3(2) s2(8) by simp
  then have run: "world_iteration demo_watch ?hwm 9 demo_porch = Inr ?after"
    using handle poll
    by (simp add: world_iteration_def loop_body_def Let_def s2_def [symmetric] demo_server_vals DoPendingFunctors_def swap_pending_def)
  let ?step = "\<lambda>x y. \<exists>l. greeted_loop demo_watch l x \<and> world_iteration demo_watch ?hwm l x = Inr y"
  have "reach (\<lambda>x. x = demo_porch) ?step demo_porch" by (rule reach_init) simp
  then have reached: "reach (\<lambda>x. x = demo_porch) ?step ?after"
    by (rule reach_step) (use wel run in blast)
  from loops_keep_server [OF demo_watch_laws demo_wait_law demo_porch_ok reached] s3(3) show ?thesis
    by (intro exI [of _ ?after] conjI reached) (simp_all add: s2)
qed

end
