(* ===== verification/ServerStart.thy ===== *)
theory ServerStart
  imports ServerRuns
begin

text \<open>
  The start of the server: \<open>main\<close> up to \<open>loop.Loop()\<close> constructs the main loop, the chat room's
  server with its acceptor, and the three I/O loops in threads of their own, and listens. It ends in
  the invariant of theory \<open>ServerInv\<close>, or in \<open>exit(-1)\<close> when the kernel refuses a call.
\<close>

subsection \<open>Descriptors\<close>

text \<open>
  \<open>used k\<close> are the descriptors in use. \<open>epoll_create1(2)\<close>, \<open>eventfd(2)\<close> and \<open>socket(2)\<close> hand out one
  that is not, a new epoll instance has an empty interest list, and the other calls that \<open>main\<close>
  makes open nothing.
\<close>

definition hands_out :: "'k interest \<Rightarrow> ('k \<Rightarrow> fd set) \<Rightarrow> ('k \<Rightarrow> (errno + fd) \<times> 'k) \<Rightarrow> bool" where
  "hands_out interest used call \<longleftrightarrow>
     (\<forall>k fd k'. call k = (Inr fd, k') \<longrightarrow>
        fd \<notin> used k \<and> used k' = insert fd (used k) \<and> interest k' = interest k)"

definition creates_epoll :: "'k interest \<Rightarrow> ('k \<Rightarrow> fd set) \<Rightarrow> ('k \<Rightarrow> (errno + fd) \<times> 'k) \<Rightarrow> bool" where
  "creates_epoll interest used call \<longleftrightarrow>
     (\<forall>k fd k'. call k = (Inr fd, k') \<longrightarrow>
        fd \<notin> used k \<and> used k' = insert fd (used k) \<and> interest k' = (interest k)(fd := \<lambda>_. None))"

definition open_law :: "'k os \<Rightarrow> 'k interest \<Rightarrow> ('k \<Rightarrow> fd set) \<Rightarrow> bool" where
  "open_law os interest used \<longleftrightarrow>
     creates_epoll interest used (sys_epoll_create os) \<and> hands_out interest used (sys_eventfd os) \<and>
     hands_out interest used (sys_socket os) \<and>
     quiet_law os used \<and> (\<forall>ep op fd ev k. used (snd (sys_epoll_ctl os ep op fd ev k)) = used k) \<and>
     (\<forall>fd addr k. used (snd (sys_bind os fd addr k)) = used k \<and> interest (snd (sys_bind os fd addr k)) = interest k) \<and>
     (\<forall>fd n k. used (snd (sys_listen os fd n k)) = used k \<and> interest (snd (sys_listen os fd n k)) = interest k)"

lemma open_lawD:
  assumes "open_law os interest used"
  shows "creates_epoll interest used (sys_epoll_create os)" "hands_out interest used (sys_eventfd os)"
    "hands_out interest used (sys_socket os)"
    "quiet_law os used" "used (snd (sys_epoll_ctl os ep op fd ev k)) = used k"
    "used (snd (sys_bind os fd addr k)) = used k" "interest (snd (sys_bind os fd addr k)) = interest k"
    "used (snd (sys_listen os fd n k)) = used k" "interest (snd (sys_listen os fd n k)) = interest k"
  using assms by (simp_all add: open_law_def)

lemma handed_out:
  assumes "hands_out interest used call" "call k = (Inr fd, k')"
  shows "fd \<notin> used k" "used k' = insert fd (used k)" "interest k' = interest k"
  using assms by (auto simp: hands_out_def)

lemma created_epoll:
  assumes "creates_epoll interest used call" "call k = (Inr fd, k')"
  shows "fd \<notin> used k" "used k' = insert fd (used k)" "interest k' = (interest k)(fd := \<lambda>_. None)"
  using assms by (auto simp: creates_epoll_def)

text \<open>The calls of \<open>main\<close> that end it with \<open>exit(-1)\<close> when the kernel refuses them.\<close>

definition grants :: "'k os \<Rightarrow> bool" where
  "grants os \<longleftrightarrow>
     (\<forall>k e. fst (sys_epoll_create os k) \<noteq> Inl e \<and> fst (sys_eventfd os k) \<noteq> Inl e \<and> fst (sys_socket os k) \<noteq> Inl e) \<and>
     (\<forall>fd addr k. fst (sys_bind os fd addr k) = 0) \<and> (\<forall>fd n k. fst (sys_listen os fd n k) = 0)"

definition refused :: "'k os \<Rightarrow> fault set" where
  "refused os = (if grants os then {} else {ExitFailure})"

lemma exit_refused:
  "sys_epoll_create os k = (Inl e, k') \<Longrightarrow> ExitFailure \<in> refused os" "sys_eventfd os k = (Inl e, k') \<Longrightarrow> ExitFailure \<in> refused os"
  "sys_socket os k = (Inl e, k') \<Longrightarrow> ExitFailure \<in> refused os"
  "sys_bind os fd addr k = (r, k') \<Longrightarrow> r \<noteq> 0 \<Longrightarrow> ExitFailure \<in> refused os"
  "sys_listen os fd n k = (r, k') \<Longrightarrow> r \<noteq> 0 \<Longrightarrow> ExitFailure \<in> refused os"
  unfolding refused_def grants_def by (metis fst_conv singletonI)+

text \<open>
  While the program starts: what has been made is consistent, and nothing is known of the objects
  still to be made but that no channel and no functor is registered with them.
\<close>

definition booting :: "'k interest \<Rightarrow> ('k \<Rightarrow> fd set) \<Rightarrow> loop \<Rightarrow> ('k, 'z) lstate_scheme \<Rightarrow> bool" where
  "booting interest used m s \<longleftrightarrow>
     net_ok interest s \<and> (\<forall>l. epoll_fd (pollers s l) \<in> used (kern s)) \<and>
     (\<forall>l fd. p_channels (pollers s l) fd \<noteq> None \<longrightarrow> fd \<in> used (kern s)) \<and>
     (\<forall>l \<ge> fresh_loop s. p_channels (pollers s l) = Map.empty) \<and>
     (\<forall>ch \<ge> fresh_chan s. ch_index (chans s ch) = kNew) \<and>
     (\<forall>l. el_pending (evloops s l) = []) \<and> (\<forall>t \<ge> fresh_tid s. thread_loop s t = None) \<and>
     (\<forall>ch. ch_index (chans s ch) = kAdded \<longrightarrow> handled m (chans s ch))"

lemma bootingD:
  assumes "booting interest used m s"
  shows "net_ok interest s" "epoll_fd (pollers s l) \<in> used (kern s)"
    "p_channels (pollers s l) fd = Some ch \<Longrightarrow> fd \<in> used (kern s)"
    "fresh_loop s \<le> l \<Longrightarrow> p_channels (pollers s l) = Map.empty"
    "fresh_chan s \<le> ch \<Longrightarrow> ch_index (chans s ch) = kNew" "el_pending (evloops s l) = []"
    "fresh_tid s \<le> t \<Longrightarrow> thread_loop s t = None" "ch_index (chans s ch) = kAdded \<Longrightarrow> handled m (chans s ch)"
  using assms unfolding booting_def by blast+

subsection \<open>A loop\<close>

text \<open>A new epoll instance for a loop without channels.\<close>

lemma net_ok_new_poller:
  assumes ok: "net_ok interest s" and empty: "p_channels (pollers s l) = Map.empty"
    and new: "\<And>l. epoll_fd (pollers s l) \<noteq> fd" "interest (kern s') = (interest (kern s))(fd := \<lambda>_. None)"
    and same: "chans s' = chans s"
      "pollers s' = (pollers s)(l := \<lparr>epoll_fd = fd, p_channels = Map.empty, events_size = n\<rparr>)"
  shows "net_ok interest s'"
proof -
  have "poller_ok interest k s'" for k
  proof (cases "k = l")
    case True
    have "ch_index (chans s ch) = kNew" if "ch_loop (chans s ch) = l" for ch
      using poller_ok_new_or_owned [OF net_okD(1) [OF ok] that] empty by simp
    with True new(2) show ?thesis unfolding poller_ok_def by (simp add: same)
  next
    case False
    then have "pollers s' k = pollers s k" by (simp add: same(2))
    moreover have "interest (kern s') (epoll_fd (pollers s k)) = interest (kern s) (epoll_fd (pollers s k))"
      using new(1) [of k] by (simp add: new(2))
    ultimately show ?thesis using net_okD(1) [OF ok, of k] unfolding poller_ok_def same(1) by simp
  qed
  moreover have "inj (\<lambda>k. epoll_fd (pollers s' k))"
    using ok new(1) by (auto simp: net_ok_def inj_def same(2))
  ultimately show ?thesis by (simp add: net_ok_def)
qed

text \<open>What the constructor of loop \<open>l\<close> with wakeup channel \<open>wc\<close> in thread \<open>t\<close> does.\<close>

definition looped ::
  "'k interest \<Rightarrow> ('k \<Rightarrow> fd set) \<Rightarrow> loop \<Rightarrow> tid \<Rightarrow> loop \<Rightarrow> chan \<Rightarrow> ('k, 'z) lstate_scheme \<Rightarrow> ('k, 'z) lstate_scheme \<Rightarrow> bool" where
  "looped interest used m t l wc s s' \<longleftrightarrow>
     booting interest used m s' \<and>
     (\<forall>k. k \<noteq> l \<longrightarrow> pollers s' k = pollers s k \<and> evloops s' k = evloops s k) \<and>
     el_thread_id (evloops s' l) = t \<and> (\<forall>ch. ch \<noteq> wc \<longrightarrow> chans s' ch = chans s ch) \<and>
     used (kern s) \<subseteq> used (kern s') \<and> thread_loop s' = (thread_loop s)(t \<mapsto> l) \<and>
     fresh_loop s' = fresh_loop s \<and> fresh_chan s' = fresh_chan s \<and> fresh_tid s' = fresh_tid s \<and>
     lstate.more s' = lstate.more s"

lemma fresh_lower:
  fixes s s' :: "('k, 'z) lstate_scheme"
  assumes "pstate.more s' = pstate.more s"
  shows "evloops s' = evloops s" "thread_loop s' = thread_loop s" "fresh_loop s' = fresh_loop s"
    "fresh_chan s' = fresh_chan s" "fresh_tid s' = fresh_tid s" "lstate.more s' = lstate.more s"
  using assms by (cases s, cases s', simp)+

text \<open>The reading of a new channel, on a descriptor just opened, is enabled.\<close>

lemma EnableReading_boots:
  fixes s :: "('k, 'z) lstate_scheme"
  assumes laws: "kernel_laws os wire interest" and law: "open_law os interest used" and ok: "booting interest used m s"
    and new: "ch_index (chans s ch) = kNew" "p_channels (pollers s (ch_loop (chans s ch))) (ch_fd (chans s ch)) = None"
    and old: "ch < fresh_chan s" "ch_loop (chans s ch) < fresh_loop s" "ch_fd (chans s ch) \<in> used (kern s)"
    and cbs: "handled m (chans s ch)"
  obtains s' where "EnableReading os ch s = Inr s'" "booting interest used m s'" "updated ch (upd_chan ch add_read s) s'"
    "used (kern s') = used (kern s)"
proof -
  obtain s' where run: "Channel_Update os ch (upd_chan ch add_read s) = Inr s'" and net: "net_ok interest s'"
    and upd: "updated ch (upd_chan ch add_read s) s'"
    using Channel_Update_net [OF kernel_lawsD(3) [OF laws] bootingD(1) [OF ok] keeps_simps(1), of ch] new by blast
  have used: "used (kern s') = used (kern s)"
    using Channel_Update_view [OF open_lawD(5) [OF law] run] by simp
  have fd: "ch_fd (add_read x) = ch_fd x" "ch_loop (add_read x) = ch_loop x" for x by (simp_all add: add_read_def)
  have more: "pstate.more s' = pstate.more s" using upd by (simp add: updated_def Let_def)
  note low = fresh_lower [OF more]
  have chans: "d \<noteq> ch \<Longrightarrow> chans s' d = chans s d" for d using upd by (simp add: updated_def Let_def)
  have slots: "pollers s' = (pollers s)(ch_loop (chans s ch) := (pollers s (ch_loop (chans s ch)))
      \<lparr>p_channels := (p_channels (pollers s (ch_loop (chans s ch))))(ch_fd (chans s ch) \<mapsto> ch)\<rparr>)"
    using upd by (simp add: updated_def Let_def fd)
  have "chans s' ch = (add_read (chans s ch))\<lparr>ch_index := next_index (add_read (chans s ch))\<rparr>"
    using upd by (simp add: updated_def Let_def)
  then have "handled m (chans s' ch)" using cbs by (simp add: handled_def add_read_def)
  then have "handled m (chans s' d)" if "ch_index (chans s' d) = kAdded" for d
    using that chans bootingD(8) [OF ok] by (cases "d = ch") simp_all
  then have "booting interest used m s'"
    unfolding booting_def used low
    using net old bootingD(2-7) [OF ok] chans by (auto simp: slots split: if_splits)
  with run upd used show thesis by (intro that [of s']) (simp_all add: EnableReading_def)
qed


lemma EventLoop_ctor_boots:
  fixes s :: "('k, 'z) lstate_scheme"
  assumes laws: "kernel_laws os wire interest" and law: "open_law os interest used" and ok: "booting interest used m s"
    and l: "l < fresh_loop s" "p_channels (pollers s l) = Map.empty" and wc: "wc < fresh_chan s" "ch_index (chans s wc) = kNew"
    and t: "t < fresh_tid s" "thread_loop s t = None"
  shows "ends (refused os) (looped interest used m t l wc s) (EventLoop_ctor False os t l wc s)"
proof -
  obtain r1 k1 where ep: "sys_epoll_create os (kern s) = (r1, k1)" by fastforce
  obtain r2 k2 where ev: "sys_eventfd os k1 = (r2, k2)" by fastforce
  show ?thesis
  proof (cases "\<exists>e. r1 = Inl e \<or> r2 = Inl e")
    case True
    with ep ev show ?thesis
      by (auto simp: EventLoop_ctor_def NewDefaultePoller_def EpollPoller_def CreateEventFd_def exit_refused split: sum.split)
  next
    case False
    then obtain ep_fd fd where r: "r1 = Inr ep_fd" "r2 = Inr fd" by (metis sumE)
    note k1 = created_epoll [OF open_lawD(1) [OF law] ep [unfolded r(1)]]
    note k2 = handed_out [OF open_lawD(2) [OF law] ev [unfolded r(2)]]
    define s1 where "s1 = upd_poller l (\<lambda>_. \<lparr>epoll_fd = ep_fd, p_channels = Map.empty, events_size = kInitEventListSize\<rparr>) (s\<lparr>kern := k1\<rparr>)"
    define el where "el = \<lparr>el_looping = False, el_quit = False, el_calling = False, el_thread_id = t, el_return_time = 0,
      el_wakeup_fd = fd, el_wakeup_channel = wc, el_active = [], el_pending = []\<rparr>"
    define ch where "ch = SetReadCallBack (LoopHandleRead l) (Channel l fd)"
    define s2 where "s2 = s1\<lparr>kern := k2, evloops := (evloops s)(l := el), thread_loop := (thread_loop s)(t \<mapsto> l),
      chans := (chans s)(wc := ch)\<rparr>"
    have ctor: "EventLoop_ctor False os t l wc s = EnableReading os wc s2"
      using t(2)
      by (simp add: EventLoop_ctor_def NewDefaultePoller_def EpollPoller_def CreateEventFd_def ep ev r Let_def
          s2_def s1_def el_def ch_def upd_poller_def upd_loop_def upd_chan_def)
    have "net_ok interest s1"
      by (rule net_ok_new_poller [OF bootingD(1) [OF ok] l(2), of ep_fd])
         (use bootingD(2) [OF ok] k1 in \<open>auto simp: s1_def upd_poller_def\<close>)
    then have net2: "net_ok interest s2"
      by (rule net_ok_new_chan [where ch = wc and x = ch])
         (simp_all add: s2_def s1_def wc k2(3) ch_def Channel_def kNew_def upd_poller_def)
    have low2: "pollers s2 = (pollers s)(l := \<lparr>epoll_fd = ep_fd, p_channels = Map.empty, events_size = kInitEventListSize\<rparr>)"
      "chans s2 = (chans s)(wc := ch)" "evloops s2 = (evloops s)(l := el)" "thread_loop s2 = (thread_loop s)(t \<mapsto> l)"
      "used (kern s2) = insert fd (insert ep_fd (used (kern s)))" "fresh_loop s2 = fresh_loop s"
      "fresh_chan s2 = fresh_chan s" "fresh_tid s2 = fresh_tid s" "lstate.more s2 = lstate.more s"
      by (simp_all add: s2_def s1_def upd_poller_def k1(2) k2(2))
    have ch: "handled m ch" "ch_index ch \<noteq> kAdded" by (simp_all add: ch_def Channel_def handled_def kNew_def kAdded_def)
    have boot2: "booting interest used m s2"
      unfolding booting_def low2
      using net2 bootingD(2-8) [OF ok] l(1) wc(1) t(1) ch by (auto simp: el_def)
    have ch2: "ch_index (chans s2 wc) = kNew" "ch_loop (chans s2 wc) = l" "ch_fd (chans s2 wc) = fd"
      by (simp_all add: low2 ch_def Channel_def kNew_def)
    obtain s3 where s3: "EnableReading os wc s2 = Inr s3" "booting interest used m s3"
      "updated wc (upd_chan wc add_read s2) s3" "used (kern s3) = used (kern s2)"
      by (rule EnableReading_boots [OF laws law boot2, of wc]) (use l(1) wc(1) ch(1) in \<open>simp_all add: ch2, simp_all add: low2\<close>)
    have "pstate.more s3 = pstate.more s2" using s3(3) by (simp add: updated_def Let_def)
    note low3 = fresh_lower [OF this]
    have "pollers s3 k = pollers s k" if "k \<noteq> l" for k
      using s3(3) that by (simp add: updated_def Let_def add_read_def ch2 low2(1))
    moreover have "chans s3 c = chans s c" if "c \<noteq> wc" for c
      using s3(3) that by (simp add: updated_def Let_def low2(2))
    ultimately show ?thesis
      using s3(1,2,4) by (auto simp: ctor looped_def low3 low2(3-9) el_def)
  qed
qed

lemma StartLoop_boots:
  fixes s :: "('k, 'z) lstate_scheme"
  assumes laws: "kernel_laws os wire interest" and law: "open_law os interest used" and ok: "booting interest used m s"
  shows "ends (refused os) (\<lambda>(l, s'). l = fresh_loop s \<and>
      looped interest used m (fresh_tid s) l (fresh_chan s)
        (s\<lparr>fresh_loop := l + 1, fresh_chan := fresh_chan s + 1, fresh_tid := fresh_tid s + 1\<rparr>) s')
    (StartLoop False os None name s)"
proof -
  let ?s = "s\<lparr>fresh_loop := fresh_loop s + 1, fresh_chan := fresh_chan s + 1, fresh_tid := fresh_tid s + 1\<rparr>"
  have "net_ok interest ?s" by (rule net_ok_cong [OF bootingD(1) [OF ok]]) simp_all
  then have "booting interest used m ?s" using bootingD [OF ok] by (auto simp: booting_def)
  then have "ends (refused os) (looped interest used m (fresh_tid s) (fresh_loop s) (fresh_chan s) ?s)
      (EventLoop_ctor False os (fresh_tid s) (fresh_loop s) (fresh_chan s) ?s)"
    by (rule EventLoop_ctor_boots [OF laws law]) (use bootingD(4,5,7) [OF ok] in simp_all)
  then show ?thesis unfolding StartLoop_def Let_def by (elim ends_bind) simp
qed


subsection \<open>The pool\<close>

text \<open>What starting more loops leaves alone: all that is there.\<close>

definition grown :: "'k interest \<Rightarrow> ('k \<Rightarrow> fd set) \<Rightarrow> loop \<Rightarrow> ('k, 'z) lstate_scheme \<Rightarrow> ('k, 'z) lstate_scheme \<Rightarrow> bool" where
  "grown interest used m s s' \<longleftrightarrow>
     booting interest used m s' \<and>
     fresh_loop s \<le> fresh_loop s' \<and> fresh_chan s \<le> fresh_chan s' \<and> fresh_tid s \<le> fresh_tid s' \<and>
     (\<forall>k < fresh_loop s. pollers s' k = pollers s k \<and> evloops s' k = evloops s k) \<and>
     (\<forall>ch < fresh_chan s. chans s' ch = chans s ch) \<and> used (kern s) \<subseteq> used (kern s') \<and>
     lstate.more s' = lstate.more s"

lemma grown_refl: "booting interest used m s \<Longrightarrow> grown interest used m s s"
  by (simp add: grown_def)

lemma grown_trans:
  assumes "grown interest used m s s1" "grown interest used m s1 s2"
  shows "grown interest used m s s2"
  using assms unfolding grown_def by (auto intro: order_trans)

text \<open>The loops of the pool are none of thread \<open>t0\<close>'s.\<close>

definition others :: "tid \<Rightarrow> loop list \<Rightarrow> ('k, 'z) lstate_scheme \<Rightarrow> bool" where
  "others t0 ls s \<longleftrightarrow> (\<forall>l \<in> set ls. l < fresh_loop s \<and> el_thread_id (evloops s l) \<noteq> t0)"

lemma StartLoop_grows:
  fixes s :: "('k, 'z) lstate_scheme"
  assumes laws: "kernel_laws os wire interest" and law: "open_law os interest used" and ok: "booting interest used m s"
    and t0: "t0 < fresh_tid s" and ls: "others t0 ls s"
  shows "ends (refused os) (\<lambda>(l, s'). grown interest used m s s' \<and> others t0 (ls @ [l]) s') (StartLoop False os None name s)"
proof (rule ends_mono [OF StartLoop_boots [OF laws law ok] subset_refl])
  fix x
  let ?s = "s\<lparr>fresh_loop := fresh_loop s + 1, fresh_chan := fresh_chan s + 1, fresh_tid := fresh_tid s + 1\<rparr>"
  assume x: "case x of (l, s') \<Rightarrow> l = fresh_loop s \<and>
      looped interest used m (fresh_tid s) l (fresh_chan s)
        (s\<lparr>fresh_loop := l + 1, fresh_chan := fresh_chan s + 1, fresh_tid := fresh_tid s + 1\<rparr>) s'"
  obtain s' where x': "x = (fresh_loop s, s')" and lo: "looped interest used m (fresh_tid s) (fresh_loop s) (fresh_chan s) ?s s'"
    using x by (cases x) simp
  have "grown interest used m s s'" using lo by (auto simp: looped_def grown_def)
  moreover have "others t0 (ls @ [fresh_loop s]) s'" using lo ls t0 by (auto simp: looped_def others_def)
  ultimately show "case x of (l, s') \<Rightarrow> grown interest used m s s' \<and> others t0 (ls @ [l]) s'" by (simp add: x')
qed

lemma start_threads_grows:
  fixes s :: "('k, 'z) lstate_scheme"
  assumes laws: "kernel_laws os wire interest" and law: "open_law os interest used"
  shows "booting interest used m s \<Longrightarrow> t0 < fresh_tid s \<Longrightarrow> others t0 (tp_loops tp) s \<Longrightarrow>
    ends (refused os) (\<lambda>(tp', s'). grown interest used m s s' \<and> others t0 (tp_loops tp') s' \<and> tp_base_loop tp' = tp_base_loop tp)
      (start_threads (StartLoop False os None) i n (tp, s))"
proof (induction n arbitrary: i tp s)
  case 0
  then show ?case by (simp add: grown_refl)
next
  case (Suc n)
  show ?case
    unfolding start_threads.simps Let_def
  proof (rule ends_bind [OF StartLoop_grows [OF laws law Suc.prems]])
    fix x
    assume x: "case x of (l, s') \<Rightarrow> grown interest used m s s' \<and> others t0 (tp_loops tp @ [l]) s'"
    obtain l s1 where x': "x = (l, s1)" by fastforce
    have s1: "grown interest used m s s1" "others t0 (tp_loops tp @ [l]) s1" using x by (simp_all add: x')
    let ?tp = "tp\<lparr>tp_threads := tp_threads tp @ [tp_name tp @ decimal i], tp_loops := tp_loops tp @ [l]\<rparr>"
    have "ends (refused os) (\<lambda>(tp', s'). grown interest used m s1 s' \<and> others t0 (tp_loops tp') s' \<and> tp_base_loop tp' = tp_base_loop ?tp)
        (start_threads (StartLoop False os None) (Suc i) n (?tp, s1))"
      by (rule Suc.IH) (use s1 Suc.prems(2) in \<open>auto simp: grown_def\<close>)
    then show "ends (refused os)
        (\<lambda>(tp', s'). grown interest used m s s' \<and> others t0 (tp_loops tp') s' \<and> tp_base_loop tp' = tp_base_loop tp)
        (case x of (l, s) \<Rightarrow> start_threads (StartLoop False os None) (Suc i) n
            (tp\<lparr>tp_threads := tp_threads tp @ [tp_name tp @ decimal i], tp_loops := tp_loops tp @ [l]\<rparr>, s))"
      unfolding x' prod.case
      by (rule ends_mono) (use grown_trans [OF s1(1)] in auto)
  qed
qed

subsection \<open>The listening socket\<close>

text \<open>The acceptor's constructor: a bound socket, and a channel that is not registered yet.\<close>

lemma Acceptor_ctor_boots:
  fixes s :: "('k, 'z) world_scheme"
  assumes laws: "kernel_laws os wire interest" and law: "open_law os interest used" and ok: "booting interest used m s"
    and l: "l < fresh_loop s"
  shows "ends (refused os) (\<lambda>s'. \<exists>fd k'. fd \<in> used k' \<and> p_channels (pollers s l) fd = None \<and>
      booting interest used m s' \<and>
      s' = upd_chan (fresh_chan s) (\<lambda>_. SetReadCallBack AcceptorHandleRead (Channel l fd))
        (s\<lparr>kern := k', fresh_chan := fresh_chan s + 1,
           the_acceptor := \<lparr>ac_loop = l, ac_fd = fd, ac_channel = fresh_chan s, ac_new_cb = None, ac_listenning = False\<rparr>\<rparr>))
    (Acceptor_ctor os l addr reuse s)"
proof -
  obtain r k1 where so: "sys_socket os (kern s) = (r, k1)" by fastforce
  show ?thesis
  proof (cases r)
    case (Inl e)
    then show ?thesis by (simp add: Acceptor_ctor_def CreateNonBlocking_def so exit_refused(3) [OF so [unfolded Inl]])
  next
    case (Inr fd)
    note k1 = handed_out [OF open_lawD(3) [OF law] so [unfolded Inr]]
    define k2 where "k2 = SetReusePort os fd True (SetReuseAddr os fd True k1)"
    obtain n k3 where bi: "sys_bind os fd addr k2 = (n, k3)" by fastforce
    have k3: "used k3 = insert fd (used (kern s))" "interest k3 = interest (kern s)"
      using open_lawD(6,7) [OF law, of fd addr k2] k1(2,3) quiet_lawD(5) [OF open_lawD(4) [OF law]]
        quiet_lawD(5) [OF kernel_lawsD(5) [OF laws]] bi
      by (simp_all add: k2_def SetReusePort_def SetReuseAddr_def)
    let ?ch = "SetReadCallBack AcceptorHandleRead (Channel l fd)"
    define s' where "s' = upd_chan (fresh_chan s) (\<lambda>_. ?ch)
        (s\<lparr>kern := k3, fresh_chan := fresh_chan s + 1,
           the_acceptor := \<lparr>ac_loop = l, ac_fd = fd, ac_channel = fresh_chan s, ac_new_cb = None, ac_listenning = False\<rparr>\<rparr>)"
    have run: "Acceptor_ctor os l addr reuse s = (if n \<noteq> 0 then Inl ExitFailure else Inr s')"
      by (simp add: Acceptor_ctor_def CreateNonBlocking_def so Inr BindAddress_def k2_def [symmetric] bi Let_def s'_def)
    have low: "chans s' = (chans s)(fresh_chan s := ?ch)" "pollers s' = pollers s" "kern s' = k3" "evloops s' = evloops s"
      "thread_loop s' = thread_loop s" "fresh_loop s' = fresh_loop s" "fresh_chan s' = fresh_chan s + 1" "fresh_tid s' = fresh_tid s"
      by (simp_all add: s'_def upd_chan_def)
    have "net_ok interest s'"
      by (rule net_ok_new_chan [OF bootingD(1) [OF ok] _ _ low(1,2)])
         (use bootingD(5) [OF ok] in \<open>simp_all add: low(3) k3(2) Channel_def kNew_def\<close>)
    then have "booting interest used m s'"
      using bootingD(2-8) [OF ok] unfolding booting_def low k3(1) by (auto simp: Channel_def kNew_def kAdded_def)
    moreover have "p_channels (pollers s l) fd = None"
      using bootingD(3) [OF ok, of l fd] k1(1) by (cases "p_channels (pollers s l) fd") auto
    ultimately show ?thesis
      unfolding run using k3(1) s'_def exit_refused(4) [OF bi] by (auto intro!: exI [of _ fd] exI [of _ k3])
  qed
qed


subsection \<open>main\<close>

lemma booting_cong:
  assumes "booting interest used m s" "kern s' = kern s" "chans s' = chans s" "pollers s' = pollers s" "evloops s' = evloops s"
    "thread_loop s' = thread_loop s" "fresh_loop s' = fresh_loop s" "fresh_chan s' = fresh_chan s" "fresh_tid s' = fresh_tid s"
  shows "booting interest used m s'"
proof -
  have "net_ok interest s'" by (rule net_ok_cong [OF bootingD(1) [OF assms(1)]]) (simp_all add: assms(2-4))
  then show ?thesis using assms(1) unfolding booting_def assms(2-9) by blast
qed

text \<open>
  The state after the constructors: the server, made for loop \<open>l\<close> of thread \<open>t\<close>, with its acceptor
  still closed; nothing is in the pool, the table, the room.
\<close>

definition constructed ::
  "'k interest \<Rightarrow> ('k \<Rightarrow> fd set) \<Rightarrow> net_lib \<Rightarrow> tid \<Rightarrow> loop \<Rightarrow> ('k, 'z) world_scheme \<Rightarrow> bool" where
  "constructed interest used net t l s \<longleftrightarrow>
     booting interest used l s \<and> l < fresh_loop s \<and> el_thread_id (evloops s l) = t \<and>
     (let a = the_acceptor s; ch = chans s (ac_channel a) in
        ac_channel a < fresh_chan s \<and> ch_index ch = kNew \<and> ch_events ch = 0 \<and> ch_loop ch = l \<and> ch_fd ch = ac_fd a \<and>
        handled l ch \<and> ac_fd a \<in> used (kern s) \<and> p_channels (pollers s l) (ac_fd a) = None \<and>
        ac_new_cb a = Some FnNewConnection) \<and>
     pool s = (EventLoopThreadPool l ''server#0'')\<lparr>tp_num_threads := 3\<rparr> \<and>
     server s = \<lparr>sv_loop = l, sv_ip_port = ToIpPort net (SetAddress net 12345 ''127.0.0.1''), sv_name = ''server#0'',
        sv_connection_cb = Some FnOnConnection, sv_message_cb = Some FnReadCb, sv_write_complete_cb = None,
        sv_started = 0, sv_next_connection_id = 1, sv_connections = []\<rparr> \<and>
     chat s = \<lparr>name_conn_map = [], conn_name_map = []\<rparr>"

text \<open>The constructor of the chat room's server, after that of the acceptor.\<close>

definition furnished :: "net_lib \<Rightarrow> loop \<Rightarrow> ('k, 'z) world_scheme \<Rightarrow> ('k, 'z) world_scheme" where
  "furnished net l s =
     set_thread_num 3 (upd_server (Server_set_msg_cb (Some FnReadCb))
       (upd_server (Server_set_connection_cb (Some FnOnConnection)) (upd_chat (\<lambda>_. \<lparr>name_conn_map = [], conn_name_map = []\<rparr>)
         (upd_acceptor (set_new_connection_cb (Some FnNewConnection))
           (s\<lparr>pool := EventLoopThreadPool l ''server#0'',
              server := \<lparr>sv_loop = l, sv_ip_port = ToIpPort net (SetAddress net 12345 ''127.0.0.1''), sv_name = ''server#0'',
                sv_connection_cb = None, sv_message_cb = None, sv_write_complete_cb = None,
                sv_started = 0, sv_next_connection_id = 1, sv_connections = []\<rparr>\<rparr>)))))"

lemma ChatRoomServer_ctor_furnished:
  "ChatRoomServer_ctor os net l (SetAddress net 12345 ''127.0.0.1'') ''server#0'' s =
     bind_res (Acceptor_ctor os l (SetAddress net 12345 ''127.0.0.1'') False s) (\<lambda>s1. Inr (furnished net l s1))"
  by (simp only: ChatRoomServer_ctor_def TcpServer_ctor_def CheckLoopNotNull_def option.case bind_res_simps bind_res_assoc
      Let_def furnished_def server_option.distinct)

lemma ChatRoomServer_ctor_boots:
  fixes s :: "('k, 'z) world_scheme"
  assumes laws: "kernel_laws os wire interest" and law: "open_law os interest used" and ok: "booting interest used l s"
    and l: "l < fresh_loop s" "el_thread_id (evloops s l) = t"
  shows "ends (refused os) (\<lambda>s'. constructed interest used net t l s' \<and> fresh_tid s' = fresh_tid s \<and> fresh_conn s' = fresh_conn s)
    (ChatRoomServer_ctor os net l (SetAddress net 12345 ''127.0.0.1'') ''server#0'' s)"
  unfolding ChatRoomServer_ctor_furnished
proof (rule ends_bind [OF Acceptor_ctor_boots [OF laws law ok l(1)]], elim exE conjE)
  fix s1 fd k'
  assume fd: "fd \<in> used k'" "p_channels (pollers s l) fd = None" and boot1: "booting interest used l s1"
    and s1: "s1 = upd_chan (fresh_chan s) (\<lambda>_. SetReadCallBack AcceptorHandleRead (Channel l fd))
      (s\<lparr>kern := k', fresh_chan := fresh_chan s + 1,
         the_acceptor := \<lparr>ac_loop = l, ac_fd = fd, ac_channel = fresh_chan s, ac_new_cb = None, ac_listenning = False\<rparr>\<rparr>)"
  have low1: "kern s1 = k'" "chans s1 = (chans s)(fresh_chan s := SetReadCallBack AcceptorHandleRead (Channel l fd))"
    "pollers s1 = pollers s" "evloops s1 = evloops s" "fresh_loop s1 = fresh_loop s" "fresh_chan s1 = fresh_chan s + 1"
    "fresh_tid s1 = fresh_tid s" "fresh_conn s1 = fresh_conn s"
    "the_acceptor s1 = \<lparr>ac_loop = l, ac_fd = fd, ac_channel = fresh_chan s, ac_new_cb = None, ac_listenning = False\<rparr>"
    by (simp_all add: s1 upd_chan_def)
  note up = furnished_def upd_server_def upd_chat_def upd_acceptor_def
  have "booting interest used l (furnished net l s1)" by (rule booting_cong [OF boot1]) (simp_all add: up)
  then have "constructed interest used net t l (furnished net l s1)"
    using fd l unfolding constructed_def Let_def by (simp add: up low1 set_threads_num_def Channel_def SetReadCallBack_def handled_def kNew_def)
  then show "ends (refused os) (\<lambda>s'. constructed interest used net t l s' \<and> fresh_tid s' = fresh_tid s \<and> fresh_conn s' = fresh_conn s)
      (Inr (furnished net l s1))"
    by (simp add: up low1)
qed

lemma short_address:
  assumes "\<And>a. length (inet_ntop net a) \<le> 15"
  shows "length (ToIpPort net addr) \<le> 21"
proof -
  have "unat w \<le> 65535" for w :: "16 word" using unsigned_less [where 'a = nat, of w] by simp
  then have "length (decimal (unat w)) \<le> length (decimal 65535)" for w :: "16 word" by (intro length_decimal_mono)
  moreover have "length (decimal 65535) = 5" by (simp add: decimal.simps)
  ultimately have "length (decimal (unat w)) \<le> 5" for w :: "16 word" by simp
  then have "length (decimal (unat (ntohs net (sin_port addr)))) \<le> 5" .
  with assms [of "sin_addr addr"] show ?thesis by (simp add: ToIpPort_def)
qed


text \<open>The rest of \<open>main\<close>: the pool, and the acceptor listens.\<close>

definition listening :: "'k interest \<Rightarrow> ('k, 'z) world_scheme \<Rightarrow> bool" where
  "listening interest s \<longleftrightarrow>
     ac_listenning (the_acceptor s) \<and>
     interest (kern s) (epoll_fd (pollers s (sv_loop (server s)))) (ac_fd (the_acceptor s)) =
       Some \<lparr>ev_events = kReadEvent, ev_ptr = ac_channel (the_acceptor s)\<rparr>"

lemma Acceptor_Listen_boots:
  fixes s :: "('k, 'z) world_scheme"
  assumes laws: "kernel_laws os wire interest" and law: "open_law os interest used" and ok: "booting interest used m s"
    and at: "sv_loop (server s) < fresh_loop s"
      "ac_channel (the_acceptor s) < fresh_chan s" "ch_index (chans s (ac_channel (the_acceptor s))) = kNew"
      "ch_events (chans s (ac_channel (the_acceptor s))) = 0"
      "ch_loop (chans s (ac_channel (the_acceptor s))) = sv_loop (server s)"
      "ch_fd (chans s (ac_channel (the_acceptor s))) = ac_fd (the_acceptor s)"
      "ac_fd (the_acceptor s) \<in> used (kern s)"
      "p_channels (pollers s (sv_loop (server s))) (ac_fd (the_acceptor s)) = None"
      "handled m (chans s (ac_channel (the_acceptor s)))"
  shows "ends (refused os) (\<lambda>s'. booting interest used m s' \<and> listening interest s' \<and> server s' = server s \<and> pool s' = pool s \<and>
      chat s' = chat s \<and> fresh_conn s' = fresh_conn s \<and> conns s' = conns s \<and> evloops s' = evloops s \<and>
      ac_new_cb (the_acceptor s') = ac_new_cb (the_acceptor s))
    (Acceptor_Listen os s)"
proof -
  let ?a = "the_acceptor s" and ?l = "sv_loop (server s)"
  obtain r k' where li: "sys_listen os (ac_fd ?a) 1024 (kern s) = (r, k')" by fastforce
  have k': "used k' = used (kern s)" "interest k' = interest (kern s)"
    using open_lawD(8,9) [OF law, of "ac_fd ?a" 1024 "kern s"] li by simp_all
  define s1 where "s1 = (upd_acceptor (\<lambda>a. a\<lparr>ac_listenning := True\<rparr>) s)\<lparr>kern := k'\<rparr>"
  have low1: "kern s1 = k'" "chans s1 = chans s" "pollers s1 = pollers s" "evloops s1 = evloops s" "thread_loop s1 = thread_loop s"
    "fresh_loop s1 = fresh_loop s" "fresh_chan s1 = fresh_chan s" "fresh_tid s1 = fresh_tid s" "conns s1 = conns s"
    "server s1 = server s" "pool s1 = pool s" "chat s1 = chat s" "fresh_conn s1 = fresh_conn s"
    "the_acceptor s1 = ?a\<lparr>ac_listenning := True\<rparr>"
    by (simp_all add: s1_def upd_acceptor_def)
  have "net_ok interest s1" by (rule net_ok_cong [OF bootingD(1) [OF ok]]) (simp_all add: low1 k'(2))
  then have boot1: "booting interest used m s1" using ok unfolding booting_def low1 k'(1) by blast
  obtain s2 where s2: "EnableReading os (ac_channel ?a) s1 = Inr s2" "booting interest used m s2"
    "updated (ac_channel ?a) (upd_chan (ac_channel ?a) add_read s1) s2"
    by (rule EnableReading_boots [OF laws law boot1, of "ac_channel ?a"]) (use at in \<open>simp_all add: low1 k'(1)\<close>)
  have run: "Acceptor_Listen os s = (if r \<noteq> 0 then Inl ExitFailure else Inr s2)"
    using s2(1) li by (simp add: Acceptor_Listen_def Socket_Listen_def Let_def s1_def upd_acceptor_def)
  have "pstate.more s2 = pstate.more s1" using s2(3) by (simp add: updated_def Let_def)
  note low2 = fresh_lower(1,6) [OF this] more_upper(2,3) [OF this]
  note up2 = world_tail [OF low2(4)]
  have ev: "ch_events (add_read x) = kReadEvent" if "ch_events x = 0" for x using that by (simp add: add_read_def)
  have "chans s2 (ac_channel ?a) = (add_read (chans s (ac_channel ?a)))\<lparr>ch_index := next_index (add_read (chans s (ac_channel ?a)))\<rparr>"
    using s2(3) by (simp add: updated_def Let_def low1)
  then have ch2: "ch_events (chans s2 (ac_channel ?a)) = kReadEvent" "ch_index (chans s2 (ac_channel ?a)) = kAdded"
    using ev [OF at(4)] by (simp_all add: next_index_def IsNoneEvent_def channel_events)
  have "p_channels (pollers s2 ?l) (ac_fd ?a) = Some (ac_channel ?a)"
    using s2(3) at(5,6) by (simp add: updated_def Let_def low1 add_read_def)
  then have "interest (kern s2) (epoll_fd (pollers s2 ?l)) (ac_fd ?a) = Some \<lparr>ev_events = kReadEvent, ev_ptr = ac_channel ?a\<rparr>"
    using poller_ok_interest [OF net_okD(1) [OF bootingD(1) [OF s2(2)]], of ?l "ac_fd ?a"] ch2 by simp
  then show ?thesis using s2(2) exit_refused(5) [OF li] by (simp add: run listening_def up2 low1 low2)
qed

text \<open>The server at the moment \<open>main\<close> enters \<open>loop.Loop()\<close>.\<close>

definition at_work :: "'k interest \<Rightarrow> loop \<Rightarrow> tid \<Rightarrow> ('k, 'z) world_scheme \<Rightarrow> bool" where
  "at_work interest l t s \<longleftrightarrow>
     server_ok interest (\<lambda>l. []) s \<and> listening interest s \<and> length (tp_loops (pool s)) = 3 \<and>
     sv_loop (server s) = l \<and> el_thread_id (evloops s l) = t \<and> live_conns s = {}"

lemma at_work_from:
  assumes boot: "booting interest used l s" and acc: "listening interest s" "ac_new_cb (the_acceptor s) = Some FnNewConnection"
    and net: "\<And>a. length (inet_ntop net a) \<le> 15"
    and server: "server s = \<lparr>sv_loop = l, sv_ip_port = ToIpPort net (SetAddress net 12345 ''127.0.0.1''), sv_name = ''server#0'',
        sv_connection_cb = Some FnOnConnection, sv_message_cb = Some FnReadCb, sv_write_complete_cb = None,
        sv_started = 1, sv_next_connection_id = 1, sv_connections = []\<rparr>"
    and chat: "chat s = \<lparr>name_conn_map = [], conn_name_map = []\<rparr>" and none: "fresh_conn s = 0"
    and pool: "\<forall>k \<in> set (tp_loops (pool s)). el_thread_id (evloops s k) \<noteq> t" "length (tp_loops (pool s)) = 3" "tp_next (pool s) = 0"
    and t: "el_thread_id (evloops s l) = t"
  shows "at_work interest l t s"
proof -
  have loops: "get_loops (pool s) = tp_loops (pool s)" using pool(2) by (auto simp: get_loops_def)
  have "staffed s" using bootingD(8) [OF boot] by (simp add: staffed_def server)
  then have "service_ok s"
    using pool t acc(2) short_address [OF net, of "SetAddress net 12345 ''127.0.0.1''"]
    by (auto simp: service_ok_def table_ok_def loops pool_ok_def none server)
  moreover have "apart s" using bootingD(5) [OF boot] by (simp add: apart_def none)
  ultimately have "base interest (\<lambda>l. []) {} s"
    using bootingD(1,6) [OF boot] by (simp add: base_def none chat members_def backlog_def)
  then show ?thesis
    using acc(1) pool(2) t by (simp add: at_work_def server_ok_def none chat chat_ok_def mutual_def live_conns_def server)
qed

lemma Server_Start_boots:
  fixes s :: "('k, 'z) world_scheme"
  assumes laws: "kernel_laws os wire interest" and law: "open_law os interest used" and net: "\<And>a. length (inet_ntop net a) \<le> 15"
    and con: "constructed interest used net t l s" and t: "t < fresh_tid s" and none: "fresh_conn s = 0"
  shows "ends (refused os)
    (at_work interest l t)
    (Server_Start os t None (StartLoop False os None) s)"
proof -
  have boot: "booting interest used l s" and l: "l < fresh_loop s" "el_thread_id (evloops s l) = t"
    and acc: "ac_channel (the_acceptor s) < fresh_chan s" "ch_index (chans s (ac_channel (the_acceptor s))) = kNew"
      "ch_events (chans s (ac_channel (the_acceptor s))) = 0" "ch_loop (chans s (ac_channel (the_acceptor s))) = l"
      "ch_fd (chans s (ac_channel (the_acceptor s))) = ac_fd (the_acceptor s)"
      "ac_fd (the_acceptor s) \<in> used (kern s)" "p_channels (pollers s l) (ac_fd (the_acceptor s)) = None"
      "ac_new_cb (the_acceptor s) = Some FnNewConnection"
      "handled l (chans s (ac_channel (the_acceptor s)))"
    and pool: "pool s = (EventLoopThreadPool l ''server#0'')\<lparr>tp_num_threads := 3\<rparr>"
    and server: "server s = \<lparr>sv_loop = l, sv_ip_port = ToIpPort net (SetAddress net 12345 ''127.0.0.1''), sv_name = ''server#0'',
        sv_connection_cb = Some FnOnConnection, sv_message_cb = Some FnReadCb, sv_write_complete_cb = None,
        sv_started = 0, sv_next_connection_id = 1, sv_connections = []\<rparr>"
    and chat: "chat s = \<lparr>name_conn_map = [], conn_name_map = []\<rparr>"
    using con unfolding constructed_def Let_def by blast+
  define s1 where "s1 = upd_server (\<lambda>sv. sv\<lparr>sv_started := 1\<rparr>) s"
  define tp1 where "tp1 = (pool s)\<lparr>tp_started := True\<rparr>"
  have boot1: "booting interest used l s1" by (rule booting_cong [OF boot]) (simp_all add: s1_def upd_server_def)
  have tp1: "tp_loops tp1 = []" "tp_num_threads tp1 = 3" "tp_next tp1 = 0" by (simp_all add: tp1_def pool EventLoopThreadPool_def)
  have start: "Server_Start os t None (StartLoop False os None) s =
      bind_res (start_threads (StartLoop False os None) 0 3 (tp1, s1)) (\<lambda>(tp, s2).
        RunInLoop os t (sv_loop (server s2)) BindListen (Acceptor_Listen os) (s2\<lparr>pool := tp\<rparr>))"
    by (simp add: Server_Start_def Let_def server Pool_Start_def s1_def tp1_def)
       (simp add: upd_server_def pool EventLoopThreadPool_def)
  have "t < fresh_tid s1" "others t (tp_loops tp1) s1" using t by (simp_all add: s1_def upd_server_def tp1 others_def)
  note grow = start_threads_grows [OF laws law boot1 this, of 0 3]
  show ?thesis
    unfolding start
  proof (rule ends_bind [OF grow])
    fix x
    assume run: "start_threads (StartLoop False os None) 0 3 (tp1, s1) = Inr x"
      and x: "case x of (tp', s') \<Rightarrow> grown interest used l s1 s' \<and> others t (tp_loops tp') s' \<and> tp_base_loop tp' = tp_base_loop tp1"
    obtain tp s2 where x': "x = (tp, s2)" by fastforce
    have s2: "grown interest used l s1 s2" "others t (tp_loops tp) s2" using x by (simp_all add: x')
    have tp: "length (tp_loops tp) = 3" "tp_next tp = 0"
      using start_threads_loops [of "StartLoop False os None" 0 3 tp1 s1 tp s2] run by (simp_all add: x' tp1)
    have more2: "lstate.more s2 = lstate.more s1" using s2(1) by (simp add: grown_def)
    have same2: "server s2 = server s1" "the_acceptor s2 = the_acceptor s1" "chat s2 = chat s1" "fresh_conn s2 = fresh_conn s1"
      using more2 by (cases s1, cases s2, simp)+
    have up1: "the_acceptor s1 = the_acceptor s" "chat s1 = chat s" "fresh_conn s1 = 0" "fresh_loop s1 = fresh_loop s"
      "fresh_chan s1 = fresh_chan s" "chans s1 = chans s" "pollers s1 = pollers s" "evloops s1 = evloops s" "kern s1 = kern s"
      "server s1 = (server s)\<lparr>sv_started := 1\<rparr>"
      using none by (simp_all add: s1_def upd_server_def)
    let ?s2 = "s2\<lparr>pool := tp\<rparr>" and ?a = "the_acceptor s"
    have boot2: "booting interest used l ?s2"
      by (rule booting_cong [of interest used l s2]) (use s2(1) in \<open>simp_all add: grown_def\<close>)
    have at2: "l < fresh_loop s2" "ac_channel ?a < fresh_chan s2" "chans s2 (ac_channel ?a) = chans s (ac_channel ?a)"
      "pollers s2 l = pollers s l" "evloops s2 l = evloops s l" "ac_fd ?a \<in> used (kern s2)"
      using s2(1) l(1) acc(1,6) by (auto simp: grown_def up1)
    have here: "IsInLoopThread t (sv_loop (server ?s2)) ?s2"
      using l(2) at2(5) by (simp add: IsInLoopThread_def same2 up1 server)
    have "ends (refused os) (\<lambda>s'. booting interest used l s' \<and> listening interest s' \<and> server s' = server ?s2 \<and> pool s' = pool ?s2 \<and>
        chat s' = chat ?s2 \<and> fresh_conn s' = fresh_conn ?s2 \<and> conns s' = conns ?s2 \<and> evloops s' = evloops ?s2 \<and>
        ac_new_cb (the_acceptor s') = ac_new_cb (the_acceptor ?s2)) (Acceptor_Listen os ?s2)"
      by (rule Acceptor_Listen_boots [OF laws law boot2]) (use at2 acc in \<open>simp_all add: same2 up1 server\<close>)
    then have "ends (refused os) (at_work interest l t) (Acceptor_Listen os ?s2)"
    proof (rule ends_mono)
      fix s3
      assume s3: "booting interest used l s3 \<and> listening interest s3 \<and> server s3 = server ?s2 \<and> pool s3 = pool ?s2 \<and>
        chat s3 = chat ?s2 \<and> fresh_conn s3 = fresh_conn ?s2 \<and> conns s3 = conns ?s2 \<and> evloops s3 = evloops ?s2 \<and>
        ac_new_cb (the_acceptor s3) = ac_new_cb (the_acceptor ?s2)"
      show "at_work interest l t s3"
        by (rule at_work_from [OF conjunct1 [OF s3] _ _ net])
           (use s3 s2(2) tp l(2) at2(5) in \<open>simp_all add: same2 up1 acc(8) chat server others_def\<close>)
    qed simp
    with here show "ends (refused os)
      (at_work interest l t)
      (case x of (tp, s2) \<Rightarrow> RunInLoop os t (sv_loop (server s2)) BindListen (Acceptor_Listen os) (s2\<lparr>pool := tp\<rparr>))"
      by (simp add: x' RunInLoop_def)
  qed
qed

lemma main_init_boots:
  fixes s :: "('k, 'z) world_scheme"
  assumes laws: "kernel_laws os wire interest" "open_law os interest used" and net: "\<And>a. length (inet_ntop net a) \<le> 15"
    and blank: "booting interest used (fresh_loop s) s" "thread_loop s t = None" "t < fresh_tid s" "fresh_conn s = 0"
  shows "ends (refused os)
    (at_work interest (fresh_loop s) t)
    (main_init False os net t s)"
proof -
  let ?l = "fresh_loop s" and ?wc = "fresh_chan s"
  let ?s = "s\<lparr>fresh_loop := ?l + 1, fresh_chan := ?wc + 1\<rparr>"
  have "net_ok interest ?s" by (rule net_ok_cong [OF bootingD(1) [OF blank(1)]]) simp_all
  then have "booting interest used ?l ?s" using bootingD [OF blank(1)] by (auto simp: booting_def)
  note loop = EventLoop_ctor_boots [OF laws this, of ?l ?wc t]
  show ?thesis
    unfolding main_init_def Let_def
  proof (rule ends_bind [OF loop])
    fix s1 assume s1: "looped interest used ?l t ?l ?wc ?s s1"
    then have boot1: "booting interest used ?l s1" "?l < fresh_loop s1" "el_thread_id (evloops s1 ?l) = t" "t < fresh_tid s1"
      "lstate.more s1 = lstate.more s"
      using blank(3) by (simp_all add: looped_def)
    have conn1: "fresh_conn s1 = 0" using boot1(5) blank(4) by (cases s, cases s1) simp
    show "ends (refused os)
      (at_work interest ?l t)
      (bind_res (ChatRoomServer_ctor os net ?l (SetAddress net 12345 ''127.0.0.1'') ''server#0'' s1)
        (Server_Start os t None (StartLoop False os None)))"
    proof (rule ends_bind [OF ChatRoomServer_ctor_boots [OF laws boot1(1-3)]])
      fix s2 assume "constructed interest used net t ?l s2 \<and> fresh_tid s2 = fresh_tid s1 \<and> fresh_conn s2 = fresh_conn s1"
      then have "constructed interest used net t ?l s2" "t < fresh_tid s2" "fresh_conn s2 = 0"
        using boot1(4) conn1 by simp_all
      from Server_Start_boots [OF laws net this]
      show "ends (refused os)
        (at_work interest ?l t)
        (Server_Start os t None (StartLoop False os None) s2)" .
    qed
  qed (use bootingD(4,5) [OF blank(1)] blank(2,3) in simp_all)
qed

text \<open>With \<open>MUDUO_USE_POLL\<close> set there is no poller, and the constructor of the first loop needs one.\<close>

lemma main_init_use_poll:
  fixes s :: "('k, 'z) world_scheme"
  assumes "thread_loop s t = None"
  shows "main_init True os net t s = Inl NullDeref \<or>
    main_init True os net t s = Inl ExitFailure \<and> ExitFailure \<in> refused os"
proof -
  obtain r k' where ev: "sys_eventfd os (kern s) = (r, k')" by fastforce
  show ?thesis
    using assms ev exit_refused(2) [of os "kern s"]
    by (cases r) (simp_all add: main_init_def EventLoop_ctor_def NewDefaultePoller_def CreateEventFd_def Let_def
        upd_chan_def upd_loop_def)
qed

text \<open>C3. The program from its start, when it has made nothing yet, on a kernel that hands out descriptors
  not in use. Without \<open>MUDUO_USE_POLL\<close>, \<open>main\<close> reaches \<open>loop.Loop()\<close> in a state that satisfies the
  invariant of the whole server - three I/O loops with threads of their own in the pool, nobody
  connected - with the listening socket in the main loop's interest list, and the invariant holds in
  every state that the server reaches from there by the actions of C1 (atomic callbacks and functors,
  each \<open>possible\<close>); the only other outcome is \<open>exit(-1)\<close>, and there is none on a kernel that grants
  every \<open>epoll_create1\<close>, \<open>eventfd\<close>, \<open>socket\<close>, \<open>bind\<close> and \<open>listen\<close>. With \<open>MUDUO_USE_POLL\<close> set, \<open>main\<close> never
  gets there: it uses a null pointer, unless the kernel refuses the \<open>eventfd\<close> before.
\<close>

theorem main_starts:
  fixes s :: "('k, 'z) world_scheme"
  assumes laws: "kernel_laws os wire interest" "open_law os interest used" "accept_law os interest"
    and net: "\<And>a. length (inet_ntop net a) \<le> 15"
    and blank: "booting interest used (fresh_loop s) s" "thread_loop s t = None" "t < fresh_tid s" "fresh_conn s = 0"
  shows "if use_poll
    then main_init use_poll os net t s = Inl NullDeref \<or>
      main_init use_poll os net t s = Inl ExitFailure \<and> ExitFailure \<in> refused os
    else ends (refused os)
      (\<lambda>s1. listening interest s1 \<and> length (tp_loops (pool s1)) = 3 \<and>
         sv_loop (server s1) = fresh_loop s \<and> el_thread_id (evloops s1 (fresh_loop s)) = t \<and> live_conns s1 = {} \<and>
         (\<forall>R s'. runs_to os hwm s1 (R, s') \<longrightarrow> server_ok interest R s'))
      (main_init use_poll os net t s)"
proof (cases use_poll)
  case True
  then show ?thesis using main_init_use_poll [OF blank(2)] by simp
next
  case False
  have "ends (refused os)
      (\<lambda>s1. listening interest s1 \<and> length (tp_loops (pool s1)) = 3 \<and>
         sv_loop (server s1) = fresh_loop s \<and> el_thread_id (evloops s1 (fresh_loop s)) = t \<and> live_conns s1 = {} \<and>
         (\<forall>R s'. runs_to os hwm s1 (R, s') \<longrightarrow> server_ok interest R s'))
      (main_init False os net t s)"
  proof (rule ends_mono [OF main_init_boots [OF laws(1,2) net blank]])
    fix s1 :: "('k, 'z) world_scheme"
    assume s1: "at_work interest (fresh_loop s) t s1"
    have "server_ok interest R s'" if "runs_to os hwm s1 (R, s')" for R s'
      using runs_ok [OF laws(1,3) _ that] s1 by (simp add: all_ok_def at_work_def)
    with s1 show "listening interest s1 \<and> length (tp_loops (pool s1)) = 3 \<and>
      sv_loop (server s1) = fresh_loop s \<and> el_thread_id (evloops s1 (fresh_loop s)) = t \<and> live_conns s1 = {} \<and>
      (\<forall>R s'. runs_to os hwm s1 (R, s') \<longrightarrow> server_ok interest R s')" by (simp add: at_work_def)
  qed simp
  with False show ?thesis by simp
qed

text \<open>A program on the demonstration kernel, before \<open>main\<close>: its objects are not made, and their descriptors negative.\<close>

definition demo_blank :: "demo world" where
  "demo_blank = demo_hall
     \<lparr>pollers := \<lambda>l. \<lparr>epoll_fd = - int l - 2, p_channels = Map.empty, events_size = 0\<rparr>, thread_loop := Map.empty\<rparr>"

definition demo_net :: net_lib where
  "demo_net = \<lparr>inet_addr = \<lambda>str. 0, inet_ntop = \<lambda>a. ''127.0.0.1'', htons = \<lambda>w. w, ntohs = \<lambda>w. w\<rparr>"

definition demo_used :: "demo \<Rightarrow> fd set" where
  "demo_used k = {fd. fd < dk_next k}"

lemma demo_open_law: "open_law demo_os dk_interest demo_used"
  by (auto simp: open_law_def creates_epoll_def hands_out_def quiet_law_def demo_calls demo_epoll_def demo_used_def split: list.splits)

lemma demo_blank_simps [simp]:
  "pollers demo_blank = (\<lambda>l. \<lparr>epoll_fd = - int l - 2, p_channels = Map.empty, events_size = 0\<rparr>)"
  "thread_loop demo_blank = Map.empty" "chans demo_blank = (\<lambda>_. Channel 9 0)" "kern demo_blank = demo_kernel 100"
  "fresh_tid demo_blank = 20" "fresh_conn demo_blank = 0" "el_pending (evloops demo_blank l) = []"
  by (simp_all add: demo_blank_def demo_hall_def demo_server_def sstate.defs world.defs)

lemma demo_grants: "grants demo_os"
  by (simp add: grants_def demo_calls demo_epoll_def)

theorem main_starts_witness:
  "\<exists>s1. main_init False demo_os demo_net 1 demo_blank = Inr s1 \<and> listening dk_interest s1 \<and> length (tp_loops (pool s1)) = 3 \<and>
     (\<forall>R s'. runs_to demo_os (\<lambda>g c n s. Inr s) s1 (R, s') \<longrightarrow> server_ok dk_interest R s')"
proof -
  have blank: "booting dk_interest demo_used (fresh_loop demo_blank) demo_blank"
    by (simp add: booting_def net_ok_def poller_ok_def inj_def Channel_def kNew_def kAdded_def demo_used_def demo_kernel_def)
  have "ends (refused demo_os) (\<lambda>s1. listening dk_interest s1 \<and> length (tp_loops (pool s1)) = 3 \<and>
       (\<forall>R s'. runs_to demo_os (\<lambda>g c n s. Inr s) s1 (R, s') \<longrightarrow> server_ok dk_interest R s')) (main_init False demo_os demo_net 1 demo_blank)"
    by (rule ends_mono
      [OF main_starts [OF demo_laws demo_open_law demo_accept_law _ blank, where hwm = "\<lambda>g c n s. Inr s" and use_poll = False,
        simplified if_False]])
      (simp_all add: demo_net_def)
  then show ?thesis
    by (cases "main_init False demo_os demo_net 1 demo_blank") (simp_all add: refused_def demo_grants)
qed

end
