(* ===== verification/QtText.thy ===== *)
theory QtText
  imports Prelude
begin

text \<open>
  Qt strings as the client uses them. A \<open>QString\<close> is its list of UTF-16 code units, a
  \<open>QStringList\<close> a list of these. The conversions to and from UTF-8 (\<open>toStdString\<close>, and the
  construction of a \<open>QString\<close> from a C string) and to a number (\<open>toInt\<close>) are code of the Qt library:
  they are the fields of the parameter \<open>qt\<close>, and \<open>utf8_law\<close> is what the documentation says of the
  first two.
\<close>

type_synonym qchar = "16 word"
type_synonym qstring = "qchar list"

text \<open>A narrow string literal of the sources, and the conversion of a \<open>char\<close> below 128.\<close>

definition latin :: "string \<Rightarrow> qstring" where
  "latin s = map of_char s"

lemma latin_simps [simp]:
  "latin [] = []" "latin (c # s) = of_char c # latin s" "latin (s @ t) = latin s @ latin t"
  by (simp_all add: latin_def)

subsection \<open>Lists of strings\<close>

text \<open>\<open>QString::split\<close> at one character, keeping empty parts.\<close>

fun split_on :: "'a \<Rightarrow> 'a list \<Rightarrow> 'a list list" where
  "split_on x [] = [[]]"
| "split_on x (y # ys) =
     (if y = x then [] # split_on x ys
      else case split_on x ys of [] \<Rightarrow> [[y]] | p # ps \<Rightarrow> (y # p) # ps)"

lemma split_on_nonempty [simp]: "split_on x ys \<noteq> []"
  by (induction ys) (auto split: list.split)

lemma split_on_one: "x \<notin> set p \<Longrightarrow> split_on x p = [p]"
  by (induction p) auto

lemma split_on_append [simp]:
  "x \<notin> set p \<Longrightarrow> split_on x (p @ x # ys) = p # split_on x ys"
  by (induction p) auto

text \<open>Splitting undoes the joining of parts that do not contain the separator.\<close>

lemma split_on_terminated:
  "\<forall>p \<in> set ps. x \<notin> set p \<Longrightarrow> split_on x (concat (map (\<lambda>p. p @ [x]) ps)) = ps @ [[]]"
  by (induction ps) auto

text \<open>\<open>QList::indexOf\<close>, -1 when there is none.\<close>

fun index_of :: "'a \<Rightarrow> 'a list \<Rightarrow> int" where
  "index_of x [] = -1"
| "index_of x (y # ys) = (if y = x then 0 else let i = index_of x ys in if i < 0 then -1 else i + 1)"

lemma index_of_range: "-1 \<le> index_of x ys \<and> index_of x ys < int (length ys)"
  by (induction ys) (auto simp: Let_def)

lemma index_of_absent: "index_of x ys = -1 \<longleftrightarrow> x \<notin> set ys"
proof (induction ys)
  case (Cons y ys)
  with index_of_range [of x ys] show ?case by (auto simp: Let_def)
qed simp

text \<open>Elements are removed at an index; outside the list nothing is.\<close>

definition remove_at :: "int \<Rightarrow> 'a list \<Rightarrow> 'a list" where
  "remove_at i xs = (if 0 \<le> i \<and> i < int (length xs) then take (nat i) xs @ drop (nat i + 1) xs else xs)"

lemma remove1_index: "x \<in> set xs \<Longrightarrow> remove1 x xs = remove_at (index_of x xs) xs"
proof (induction xs)
  case (Cons y ys)
  show ?case
  proof (cases "y = x")
    case True
    then show ?thesis by (simp add: remove_at_def)
  next
    case False
    with Cons.prems have "x \<in> set ys" by simp
    with index_of_absent [of x ys] index_of_range [of x ys] have i: "0 \<le> index_of x ys" by linarith
    with False Cons.IH [OF \<open>x \<in> set ys\<close>] index_of_range [of x ys] show ?thesis
      by (auto simp: remove_at_def Let_def nat_add_distrib)
  qed
qed simp

subsection \<open>UTF-8\<close>

record qt_lib =
  toStdString :: "qstring \<Rightarrow> string"
  fromUtf8 :: "string \<Rightarrow> qstring"
  toInt :: "qstring \<Rightarrow> int"

text \<open>
  UTF-8 on text without surrogates: characters are encoded one by one, in one to three bytes,
  those below 128 as themselves and all others in bytes from 128 on; decoding undoes encoding.
\<close>

definition plain :: "qstring \<Rightarrow> bool" where
  "plain q \<longleftrightarrow> (\<forall>u \<in> set q. u < 0xD800 \<or> 0xDFFF < u)"

lemma plain_simps [simp]:
  "plain []" "plain (u # q) \<longleftrightarrow> (u < 0xD800 \<or> 0xDFFF < u) \<and> plain q" "plain (p @ q) \<longleftrightarrow> plain p \<and> plain q"
  by (auto simp: plain_def)

definition utf8_law :: "qt_lib \<Rightarrow> bool" where
  "utf8_law qt \<longleftrightarrow>
     (\<forall>q. plain q \<longrightarrow> fromUtf8 qt (toStdString qt q) = q) \<and> toStdString qt [] = [] \<and>
     (\<forall>u q. plain (u # q) \<longrightarrow> toStdString qt (u # q) = toStdString qt [u] @ toStdString qt q) \<and>
     (\<forall>u. plain [u] \<longrightarrow>
        (if u < 128 then toStdString qt [u] = [char_of (unat u)]
         else length (toStdString qt [u]) \<in> {2, 3} \<and>
              (\<forall>b \<in> set (toStdString qt [u]). 128 \<le> (of_char b :: nat))))"

lemma utf8_lawD:
  assumes "utf8_law qt"
  shows "plain q \<Longrightarrow> fromUtf8 qt (toStdString qt q) = q" "toStdString qt [] = []"
    "plain (u # q) \<Longrightarrow> toStdString qt (u # q) = toStdString qt [u] @ toStdString qt q"
    "plain [u] \<Longrightarrow> u < 128 \<Longrightarrow> toStdString qt [u] = [char_of (unat u)]"
    "plain [u] \<Longrightarrow> \<not> u < 128 \<Longrightarrow> length (toStdString qt [u]) \<in> {2, 3}"
    "plain [u] \<Longrightarrow> \<not> u < 128 \<Longrightarrow> b \<in> set (toStdString qt [u]) \<Longrightarrow> 128 \<le> (of_char b :: nat)"
proof -
  note law = assms [unfolded utf8_law_def]
  show "plain q \<Longrightarrow> fromUtf8 qt (toStdString qt q) = q" using law by blast
  show "toStdString qt [] = []" using law by blast
  show "plain (u # q) \<Longrightarrow> toStdString qt (u # q) = toStdString qt [u] @ toStdString qt q"
    using law by blast
  have one: "plain [u] \<Longrightarrow> if u < 128 then toStdString qt [u] = [char_of (unat u)]
         else length (toStdString qt [u]) \<in> {2, 3} \<and>
              (\<forall>b \<in> set (toStdString qt [u]). 128 \<le> (of_char b :: nat))"
    using law by blast
  show "plain [u] \<Longrightarrow> u < 128 \<Longrightarrow> toStdString qt [u] = [char_of (unat u)]" using one by presburger
  show "plain [u] \<Longrightarrow> \<not> u < 128 \<Longrightarrow> length (toStdString qt [u]) \<in> {2, 3}" using one by presburger
  show "128 \<le> (of_char b :: nat)" if "plain [u]" "\<not> u < 128" "b \<in> set (toStdString qt [u])"
    using one [OF that(1)] that(2,3) by (simp only: if_False)
qed

lemma of_char_unat [simp]: "unat (of_char b :: 16 word) = of_char b"
  by (simp add: of_char_def)

lemma of_char_eq: "u < 128 \<Longrightarrow> of_char b = (u :: 16 word) \<longleftrightarrow> b = char_of (unat u)"
proof
  assume "u < 128"
  then have u: "unat u < 128" by (simp add: word_less_nat_alt)
  assume "b = char_of (unat u)"
  then have "unat (of_char b :: 16 word) = unat u" using u by simp
  then show "of_char b = u" by (simp only: word_unat_eq_iff)
next
  assume "of_char b = u"
  then show "b = char_of (unat u)" by (metis of_char_unat char_of_char)
qed

lemma utf8_append:
  assumes "utf8_law qt"
  shows "plain p \<Longrightarrow> plain q \<Longrightarrow> toStdString qt (p @ q) = toStdString qt p @ toStdString qt q"
proof (induction p)
  case (Cons u p)
  then show ?case using utf8_lawD(3) [OF assms, of u p] utf8_lawD(3) [OF assms, of u "p @ q"] by simp
qed (simp add: utf8_lawD(2) [OF assms])

lemma utf8_length:
  assumes "utf8_law qt"
  shows "plain q \<Longrightarrow> length q \<le> length (toStdString qt q) \<and> length (toStdString qt q) \<le> 3 * length q"
proof (induction q)
  case (Cons u q)
  have one: "plain [u]" using Cons.prems by simp
  have "1 \<le> length (toStdString qt [u]) \<and> length (toStdString qt [u]) \<le> 3"
    using utf8_lawD(4) [OF assms one] utf8_lawD(5) [OF assms one] by (cases "u < 128") auto
  with Cons utf8_lawD(3) [OF assms Cons.prems] show ?case by simp
qed (simp add: utf8_lawD(2) [OF assms])

text \<open>A byte below 128 is in the encoding exactly when the character is in the text.\<close>

lemma utf8_low:
  assumes "utf8_law qt" "(of_char b :: nat) < 128"
  shows "plain q \<Longrightarrow> b \<in> set (toStdString qt q) \<longleftrightarrow> of_char b \<in> set q"
proof (induction q)
  case (Cons u q)
  have one: "plain [u]" using Cons.prems by simp
  have "b \<in> set (toStdString qt [u]) \<longleftrightarrow> of_char b = u"
  proof (cases "u < 128")
    case True
    with utf8_lawD(4) [OF assms(1) one] of_char_eq [OF True] show ?thesis by simp
  next
    case False
    then have "of_char b \<noteq> u" using assms(2) by (auto simp: word_less_nat_alt)
    with utf8_lawD(6) [OF assms(1) one False, of b] assms(2) show ?thesis by auto
  qed
  with Cons utf8_lawD(3) [OF assms(1) Cons.prems] show ?case by auto
qed (simp add: utf8_lawD(2) [OF assms(1)])

subsection \<open>A codec that obeys the law\<close>

definition encode_nat :: "nat \<Rightarrow> string" where
  "encode_nat n =
     (if n < 128 then [char_of n]
      else if n < 2048 then [char_of (192 + n div 64), char_of (128 + n mod 64)]
      else [char_of (224 + n div 4096), char_of (128 + n div 64 mod 64), char_of (128 + n mod 64)])"

definition encode_unit :: "qchar \<Rightarrow> string" where
  "encode_unit u = encode_nat (unat u)"

fun decode :: "string \<Rightarrow> qstring" where
  "decode [] = []"
| "decode (b # bs) =
     (let n = of_char b :: nat in
      if n < 128 then of_nat n # decode bs
      else case bs of
        [] \<Rightarrow> []
      | c # cs \<Rightarrow>
          if n < 224 then of_nat (64 * (n - 192) + (of_char c - 128)) # decode cs
          else case cs of
            [] \<Rightarrow> []
          | d # ds \<Rightarrow> of_nat (4096 * (n - 224) + 64 * (of_char c - 128) + (of_char d - 128)) # decode ds)"

definition demo_qt :: qt_lib where
  "demo_qt =
     \<lparr>toStdString = (\<lambda>q. concat (map encode_unit q)), fromUtf8 = decode,
      toInt = (\<lambda>q. foldl (\<lambda>n u. 10 * n + (uint u - 48)) 0 q)\<rparr>"

lemma demo_qt_simps [simp]:
  "toStdString demo_qt q = concat (map encode_unit q)" "fromUtf8 demo_qt = decode"
  by (simp_all add: demo_qt_def)

lemma decode_encode_nat:
  assumes n: "n < 65536"
  shows "decode (encode_nat n @ bs) = of_nat n # decode bs"
proof (cases "n < 128")
  case True
  then show ?thesis by (simp add: encode_nat_def Let_def)
next
  case small: False
  show ?thesis
  proof (cases "n < 2048")
    case True
    then have "n div 64 < 32" "n mod 64 < 64" by simp_all
    then show ?thesis
      using small True by (simp add: encode_nat_def Let_def del: of_nat_add of_nat_mult)
  next
    case False
    have low: "n div 4096 < 16" "n div 64 mod 64 < 64" "n mod 64 < 64" using n by simp_all
    have "4096 * (n div 4096) + 64 * (n div 64 mod 64) + n mod 64 = n"
    proof -
      have "n div 4096 = n div 64 div 64" by (simp add: div_mult2_eq [symmetric])
      moreover have "64 * (n div 64 div 64) + n div 64 mod 64 = n div 64" "64 * (n div 64) + n mod 64 = n"
        by simp_all
      ultimately show ?thesis by linarith
    qed
    with low small False show ?thesis
      by (simp add: encode_nat_def Let_def del: of_nat_add of_nat_mult)
  qed
qed

lemma decode_encode: "decode (encode_unit u @ bs) = u # decode bs"
proof -
  have "unat u < 2 ^ LENGTH(16)" by (rule unsigned_less)
  then show ?thesis by (simp add: encode_unit_def decode_encode_nat)
qed

lemma demo_utf8_law: "utf8_law demo_qt"
proof -
  have "decode (concat (map encode_unit q)) = q" for q
    by (induction q) (simp_all add: decode_encode)
  moreover have "length (encode_unit u) \<in> {2, 3} \<and> (\<forall>b \<in> set (encode_unit u). 128 \<le> (of_char b :: nat))"
    if "\<not> u < 128" for u
  proof -
    have n: "\<not> unat u < 128" using that by (simp add: word_less_nat_alt)
    have "unat u < 2 ^ LENGTH(16)" by (rule unsigned_less)
    then have "unat u div 4096 < 16" "unat u div 64 mod 64 < 64" "unat u mod 64 < 64" by simp_all
    moreover have "unat u < 2048 \<Longrightarrow> unat u div 64 < 32" by simp
    ultimately show ?thesis using n by (simp add: encode_unit_def encode_nat_def)
  qed
  moreover have "encode_unit u = [char_of (unat u)]" if "u < 128" for u
    using that by (simp add: encode_unit_def encode_nat_def word_less_nat_alt)
  ultimately show ?thesis by (simp add: utf8_law_def)
qed

end
