(* ===== verification/Regex.thy ===== *)
theory Regex
  imports QtText
begin

text \<open>
  The regular expressions of the login window: what of the pattern syntax it uses, matching by
  derivatives, and \<open>QRegularExpression::match\<close> of a pattern between \<open>^\<close> and \<open>$\<close>.
\<close>

datatype rexp = Zero | One | Range qchar qchar | Plus rexp rexp | Times rexp rexp

subsection \<open>Language and matching\<close>

fun lang :: "rexp \<Rightarrow> qstring set" where
  "lang Zero = {}"
| "lang One = {[]}"
| "lang (Range a b) = {[c] | c. a \<le> c \<and> c \<le> b}"
| "lang (Plus r s) = lang r \<union> lang s"
| "lang (Times r s) = {u @ v | u v. u \<in> lang r \<and> v \<in> lang s}"

fun nullable :: "rexp \<Rightarrow> bool" where
  "nullable Zero = False"
| "nullable One = True"
| "nullable (Range a b) = False"
| "nullable (Plus r s) = (nullable r \<or> nullable s)"
| "nullable (Times r s) = (nullable r \<and> nullable s)"

fun deriv :: "qchar \<Rightarrow> rexp \<Rightarrow> rexp" where
  "deriv c Zero = Zero"
| "deriv c One = Zero"
| "deriv c (Range a b) = (if a \<le> c \<and> c \<le> b then One else Zero)"
| "deriv c (Plus r s) = Plus (deriv c r) (deriv c s)"
| "deriv c (Times r s) =
     (if nullable r then Plus (Times (deriv c r) s) (deriv c s) else Times (deriv c r) s)"

definition matches :: "rexp \<Rightarrow> qstring \<Rightarrow> bool" where
  "matches r s = nullable (fold deriv s r)"

lemma nullable_lang: "nullable r \<longleftrightarrow> [] \<in> lang r"
  by (induction r) auto

lemma deriv_lang: "s \<in> lang (deriv c r) \<longleftrightarrow> c # s \<in> lang r"
proof (induction r arbitrary: s)
  case (Times r1 r2)
  have split: "c # s \<in> lang (Times r1 r2) \<longleftrightarrow>
      ([] \<in> lang r1 \<and> c # s \<in> lang r2) \<or> (\<exists>u v. s = u @ v \<and> c # u \<in> lang r1 \<and> v \<in> lang r2)"
    by (auto simp: Cons_eq_append_conv)
  show ?case
    unfolding split using Times by (auto simp: nullable_lang)
qed auto

lemma matches_lang: "matches r s \<longleftrightarrow> s \<in> lang r"
proof (induction s arbitrary: r)
  case Nil
  then show ?case by (simp add: matches_def nullable_lang)
next
  case (Cons c s)
  then show ?case by (simp add: matches_def deriv_lang [symmetric])
qed

subsection \<open>Pattern syntax\<close>

definition Char :: "char \<Rightarrow> rexp" where "Char c = Range (of_char c) (of_char c)"
definition Class :: "char \<Rightarrow> char \<Rightarrow> rexp" where "Class a b = Range (of_char a) (of_char b)"
definition Opt :: "rexp \<Rightarrow> rexp" where "Opt r = Plus r One"

fun Rep :: "nat \<Rightarrow> rexp \<Rightarrow> rexp" where
  "Rep 0 r = One"
| "Rep (Suc n) r = Times r (Rep n r)"

text \<open>\<open>r{m,n}\<close>\<close>

definition Between :: "nat \<Rightarrow> nat \<Rightarrow> rexp \<Rightarrow> rexp" where
  "Between m n r = foldr Plus (map (\<lambda>i. Rep i r) [m..<Suc n]) Zero"

text \<open>
  A match of \<open>^r$\<close>: without the option \<open>DollarEndOnly\<close> the dollar sign also matches before a line
  feed at the very end.
\<close>

definition anchored :: "rexp \<Rightarrow> qstring \<Rightarrow> bool" where
  "anchored r s \<longleftrightarrow> matches r s \<or> (s \<noteq> [] \<and> last s = 10 \<and> matches r (butlast s))"

lemma anchored_line: "10 \<notin> set s \<Longrightarrow> anchored r s \<longleftrightarrow> s \<in> lang r"
  unfolding anchored_def matches_lang by (metis last_in_set)

lemma lang_Times_assoc: "lang (Times (Times p q) r) = lang (Times p (Times q r))"
proof (rule set_eqI, rule iffI)
  fix s assume "s \<in> lang (Times (Times p q) r)"
  then obtain u v w where "s = (u @ v) @ w" "u \<in> lang p" "v \<in> lang q" "w \<in> lang r" by auto
  then have "s = u @ (v @ w) \<and> u \<in> lang p \<and> v @ w \<in> lang (Times q r)" by auto
  then show "s \<in> lang (Times p (Times q r))" unfolding lang.simps(5) [of p] by blast
next
  fix s assume "s \<in> lang (Times p (Times q r))"
  then obtain u v w where "s = u @ (v @ w)" "u \<in> lang p" "v \<in> lang q" "w \<in> lang r" by auto
  then have "s = (u @ v) @ w \<and> u @ v \<in> lang (Times p q) \<and> w \<in> lang r" by auto
  then show "s \<in> lang (Times (Times p q) r)" unfolding lang.simps(5) [of "Times p q"] by blast
qed

text \<open>Membership, read off the pattern from the left.\<close>

lemma lang_simps:
  "s \<in> lang Zero \<longleftrightarrow> False"
  "s \<in> lang One \<longleftrightarrow> s = []"
  "s \<in> lang (Plus p q) \<longleftrightarrow> s \<in> lang p \<or> s \<in> lang q"
  "s \<in> lang (Range a b) \<longleftrightarrow> (\<exists>c. s = [c] \<and> a \<le> c \<and> c \<le> b)"
  "s \<in> lang (Times (Range a b) r) \<longleftrightarrow> (\<exists>c t. s = c # t \<and> a \<le> c \<and> c \<le> b \<and> t \<in> lang r)"
  "s \<in> lang (Times (Plus p q) r) \<longleftrightarrow> s \<in> lang (Times p r) \<or> s \<in> lang (Times q r)"
  "s \<in> lang (Times (Times p q) r) \<longleftrightarrow> s \<in> lang (Times p (Times q r))"
  "s \<in> lang (Times One r) \<longleftrightarrow> s \<in> lang r"
  "s \<in> lang (Times Zero r) \<longleftrightarrow> False"
proof -
  show "s \<in> lang (Times (Range a b) r) \<longleftrightarrow> (\<exists>c t. s = c # t \<and> a \<le> c \<and> c \<le> b \<and> t \<in> lang r)"
    unfolding lang.simps mem_Collect_eq by (metis append_Cons append_Nil)
  show "s \<in> lang (Times (Plus p q) r) \<longleftrightarrow> s \<in> lang (Times p r) \<or> s \<in> lang (Times q r)"
    unfolding lang.simps mem_Collect_eq Un_iff by blast
  show "s \<in> lang (Times (Times p q) r) \<longleftrightarrow> s \<in> lang (Times p (Times q r))"
    unfolding lang_Times_assoc ..
qed auto

declare lang.simps [simp del]

end
