(* ===== verification/ClientLogin.thy ===== *)
theory ClientLogin
  imports Regex Socket
begin

text \<open>
  \<open>info.h\<close>, \<open>info.cpp\<close>, \<open>login.h\<close> and \<open>login.cpp\<close>: the login window of the client and the
  three values it hands to the chat window. The state holds the texts of the input fields and
  what the handler does to the window; message boxes are counted.
\<close>

subsection \<open>State\<close>

record info =
  info_name :: qstring
  info_IP :: qstring
  info_Port :: qstring

definition info_init :: info where
  "info_init = \<lparr>info_name = [], info_IP = [], info_Port = []\<rparr>"

record login =
  lo_IP_input :: qstring
  lo_name_input :: qstring
  lo_Port_input :: qstring
  lo_info :: info
  lo_hidden :: bool
  lo_jumps :: nat        \<comment> \<open>emissions of \<open>Jump_to_Chat\<close>\<close>
  lo_warnings :: nat

subsection \<open>The patterns\<close>

text \<open>\<open>25[0-5]|2[0-4][0-9]|[01]?[0-9][0-9]?\<close>\<close>

definition octetRegex :: rexp where
  "octetRegex =
     Plus (Times (Char (CHR ''2'')) (Times (Char (CHR ''5'')) (Class (CHR ''0'') (CHR ''5''))))
    (Plus (Times (Char (CHR ''2'')) (Times (Class (CHR ''0'') (CHR ''4'')) (Class (CHR ''0'') (CHR ''9''))))
          (Times (Opt (Class (CHR ''0'') (CHR ''1'')))
            (Times (Class (CHR ''0'') (CHR ''9'')) (Opt (Class (CHR ''0'') (CHR ''9''))))))"

definition ipRegex :: rexp where
  "ipRegex = Times (Rep 3 (Times octetRegex (Char (CHR ''.'')))) octetRegex"

text \<open>\<open>[8-9][0-9]{1,3}|[1-5][0-9]{4}|6[0-5][0-9]{3}|6553[0-5]|655[0-2][0-9]\<close>\<close>

definition portRegex :: rexp where
  "portRegex =
     (let digit = Class (CHR ''0'') (CHR ''9''); six = Char (CHR ''6''); five = Char (CHR ''5'') in
      Plus (Times (Class (CHR ''8'') (CHR ''9'')) (Between 1 3 digit))
     (Plus (Times (Class (CHR ''1'') (CHR ''5'')) (Rep 4 digit))
     (Plus (Times six (Times (Class (CHR ''0'') (CHR ''5'')) (Rep 3 digit)))
     (Plus (Times six (Times five (Times five (Times (Char (CHR ''3'')) (Class (CHR ''0'') (CHR ''5''))))))
           (Times six (Times five (Times five (Times (Class (CHR ''0'') (CHR ''2'')) digit))))))))"

subsection \<open>The handler\<close>

definition Login_Success :: "login \<Rightarrow> login" where
  "Login_Success w =
     (let server_IP = lo_IP_input w; username = lo_name_input w; server_port = lo_Port_input w in
      if anchored ipRegex server_IP \<and> anchored portRegex server_port \<and> username \<noteq> [] \<and> length username \<le> 4
      then w\<lparr>lo_info := \<lparr>info_name = username, info_IP = server_IP, info_Port = server_port\<rparr>,
             lo_hidden := True, lo_jumps := lo_jumps w + 1\<rparr>
      else w\<lparr>lo_warnings := lo_warnings w + 1\<rparr>)"

subsection \<open>Decimal texts\<close>

definition digit_text :: "qstring \<Rightarrow> bool" where
  "digit_text q \<longleftrightarrow> (\<forall>u \<in> set q. 48 \<le> unat u \<and> unat u \<le> 57)"

definition text_value :: "qstring \<Rightarrow> nat" where
  "text_value q = foldl (\<lambda>n u. 10 * n + (unat u - 48)) 0 q"

lemma text_value_snoc [simp]: "text_value (q @ [u]) = 10 * text_value q + (unat u - 48)"
  by (simp add: text_value_def)

lemma text_value_Cons: "text_value (u # q) = (unat u - 48) * 10 ^ length q + text_value q"
proof (induction q rule: rev_induct)
  case Nil
  then show ?case by (simp add: text_value_def)
next
  case (snoc v q)
  have "text_value (u # q @ [v]) = 10 * text_value (u # q) + (unat v - 48)"
    using text_value_snoc [of "u # q" v] by simp
  with snoc show ?case by (simp add: algebra_simps)
qed

lemma text_value_decimal: "text_value (latin (decimal n)) = n"
proof -
  have "foldl (\<lambda>n u. 10 * n + (unat (u :: qchar) - 48)) m (latin ds) =
      foldl (\<lambda>n d. 10 * n + (of_char d - 48)) m ds" for m ds
    by (induction ds arbitrary: m) simp_all
  then show ?thesis using undecimal_decimal [of n] by (simp add: text_value_def undecimal_def)
qed

lemma digit_text_decimal: "digit_text (latin (decimal n))"
  using decimal_digits [of _ n] by (auto simp: digit_text_def latin_def)

lemma digit_back:
  assumes "48 \<le> unat u" "unat u \<le> 57"
  shows "of_char (char_of (48 + (unat u - 48))) = (u :: qchar)"
proof -
  have "u < 128" using assms(2) by (simp add: word_less_nat_alt)
  moreover have "48 + (unat u - 48) = unat u" using assms(1) by simp
  ultimately show ?thesis using of_char_eq [of u "char_of (unat u)"] by metis
qed

lemma decimal_text_value:
  "digit_text q \<Longrightarrow> q \<noteq> [] \<Longrightarrow> hd q \<noteq> 48 \<Longrightarrow> latin (decimal (text_value q)) = q \<and> 1 \<le> text_value q"
proof (induction q rule: rev_induct)
  case (snoc u q)
  have u: "48 \<le> unat u" "unat u \<le> 57" and q: "digit_text q" using snoc.prems by (simp_all add: digit_text_def)
  show ?case
  proof (cases "q = []")
    case True
    with snoc.prems(3) have "unat u \<noteq> 48" by (simp add: word_unat_eq_iff)
    then show ?thesis
      using True u digit_back [OF u] by (simp add: text_value_def) (subst decimal.simps, simp, linarith)
  next
    case False
    with snoc have IH: "latin (decimal (text_value q)) = q" "1 \<le> text_value q" using q by simp_all
    define d where "d = unat u - 48"
    have "d < 10" using u(2) unfolding d_def by linarith
    then have "decimal (10 * text_value q + d) = decimal (text_value q) @ [char_of (48 + d)]"
      using IH(2) by (subst decimal.simps) simp
    then show ?thesis using IH digit_back [OF u] by (simp add: d_def [symmetric])
  qed
qed simp

lemma text_value_lower:
  "digit_text (u # q) \<Longrightarrow> u \<noteq> 48 \<Longrightarrow> 10 ^ length q \<le> text_value (u # q)"
proof -
  assume "digit_text (u # q)" "u \<noteq> 48"
  then have "48 \<le> unat u" "unat u \<noteq> 48" by (auto simp: digit_text_def word_unat_eq_iff)
  then have "1 \<le> unat u - 48" by linarith
  then have "1 * 10 ^ length q \<le> (unat u - 48) * 10 ^ length q" by (rule mult_le_mono1)
  then show ?thesis unfolding text_value_Cons by linarith
qed

lemma decimal_head: "0 < n \<Longrightarrow> hd (latin (decimal n)) \<noteq> 48"
proof (induction n rule: decimal.induct)
  case (1 n)
  show ?case
  proof (cases "n < 10")
    case True
    have "unat (hd (latin (decimal n))) = 48 + n" using True by (subst decimal.simps) simp
    with 1(2) show ?thesis by auto
  next
    case False
    then have "0 < n div 10" by (simp add: div_greater_zero_iff)
    with 1(1) [OF False] have IH: "hd (latin (decimal (n div 10))) \<noteq> 48" .
    have "latin (decimal (n div 10)) \<noteq> []" by (subst decimal.simps) simp
    with IH False show ?thesis by (subst decimal.simps) simp
  qed
qed

subsection \<open>What the patterns accept\<close>

lemma lang_Char: "s \<in> lang (Char c) \<longleftrightarrow> s = [of_char c]"
  unfolding Char_def lang_simps by auto

lemma lang_Char_Times: "s \<in> lang (Times (Char c) r) \<longleftrightarrow> (\<exists>t. s = of_char c # t \<and> t \<in> lang r)"
  unfolding Char_def lang_simps by auto

lemma lang_Class:
  "s \<in> lang (Class a b) \<longleftrightarrow> (\<exists>u. s = [u] \<and> of_char a \<le> unat u \<and> unat u \<le> of_char b)"
  "s \<in> lang (Times (Class a b) r) \<longleftrightarrow>
     (\<exists>u t. s = u # t \<and> of_char a \<le> unat u \<and> unat u \<le> of_char b \<and> t \<in> lang r)"
  unfolding Class_def lang_simps word_le_nat_alt of_char_unat by simp_all

lemmas pattern_simps = lang_Char lang_Char_Times lang_Class Opt_def lang_simps(1-3,6-9)

text \<open>An octet: one to three digits, of a value up to 255.\<close>

definition octet_text :: "qstring \<Rightarrow> bool" where
  "octet_text q \<longleftrightarrow> digit_text q \<and> 1 \<le> length q \<and> length q \<le> 3 \<and> text_value q \<le> 255"

lemma qchar_const: "(u :: qchar) = 50 \<longleftrightarrow> unat u = 50" "(u :: qchar) = 53 \<longleftrightarrow> unat u = 53"
  "(u :: qchar) = 54 \<longleftrightarrow> unat u = 54" "(u :: qchar) = 51 \<longleftrightarrow> unat u = 51"
  "(u :: qchar) = 48 \<longleftrightarrow> unat u = 48"
  by (simp_all add: word_unat_eq_iff)

lemma octet_arith:
  fixes a b c :: nat
  shows "(a = 50 \<and> b = 53 \<and> 48 \<le> c \<and> c \<le> 53) \<or>
      (a = 50 \<and> 48 \<le> b \<and> b \<le> 52 \<and> 48 \<le> c \<and> c \<le> 57) \<or>
      (48 \<le> a \<and> a \<le> 49 \<and> 48 \<le> b \<and> b \<le> 57 \<and> 48 \<le> c \<and> c \<le> 57) \<longleftrightarrow>
    (48 \<le> a \<and> a \<le> 57 \<and> 48 \<le> b \<and> b \<le> 57 \<and>
      48 \<le> c \<and> c \<le> 57 \<and> 100 * (a - 48) + 10 * (b - 48) + (c - 48) \<le> 255)"
  (is "?L \<longleftrightarrow> ?R")
proof
  show "?L \<Longrightarrow> ?R" by (elim disjE conjE) simp_all
next
  assume r: ?R
  then consider "a \<le> 49" | "a = 50" "b \<le> 52" | "a = 50" "b = 53" | "a = 50" "54 \<le> b" | "51 \<le> a"
    by linarith
  then show ?L using r by cases auto
qed

lemma octetRegex_lang: "q \<in> lang octetRegex \<longleftrightarrow> octet_text q"
proof -
  consider "q = []" | a where "q = [a]" | a b where "q = [a, b]" | a b c where "q = [a, b, c]"
    | a b c d r where "q = a # b # c # d # r"
    by (metis list.exhaust)
  then show ?thesis
  proof cases
    case (4 a b c)
    have "q \<in> lang octetRegex \<longleftrightarrow>
        (unat a = 50 \<and> unat b = 53 \<and> 48 \<le> unat c \<and> unat c \<le> 53) \<or>
        (unat a = 50 \<and> 48 \<le> unat b \<and> unat b \<le> 52 \<and> 48 \<le> unat c \<and> unat c \<le> 57) \<or>
        (48 \<le> unat a \<and> unat a \<le> 49 \<and> 48 \<le> unat b \<and> unat b \<le> 57 \<and> 48 \<le> unat c \<and> unat c \<le> 57)"
      using 4 by (simp add: octetRegex_def pattern_simps qchar_const)
    moreover have "octet_text q \<longleftrightarrow> (48 \<le> unat a \<and> unat a \<le> 57 \<and> 48 \<le> unat b \<and> unat b \<le> 57 \<and>
        48 \<le> unat c \<and> unat c \<le> 57 \<and> 100 * (unat a - 48) + 10 * (unat b - 48) + (unat c - 48) \<le> 255)"
      using 4 by (simp add: octet_text_def digit_text_def text_value_def)
    ultimately show ?thesis by (simp only: octet_arith)
  qed (simp_all add: octetRegex_def pattern_simps octet_text_def digit_text_def text_value_def, linarith+)
qed

text \<open>The numbers the port pattern accepts, without leading zeros.\<close>

definition port_text :: "qstring \<Rightarrow> bool" where
  "port_text q \<longleftrightarrow>
     (\<exists>n. q = latin (decimal n) \<and> (n \<in> {80..99} \<or> n \<in> {800..999} \<or> n \<in> {8000..65999}))"

lemma port_text_value:
  "port_text q \<longleftrightarrow> digit_text q \<and> q \<noteq> [] \<and> hd q \<noteq> 48 \<and>
     (text_value q \<in> {80..99} \<or> text_value q \<in> {800..999} \<or> text_value q \<in> {8000..65999})"
proof
  assume "port_text q"
  then obtain n where n: "q = latin (decimal n)" "n \<in> {80..99} \<or> n \<in> {800..999} \<or> n \<in> {8000..65999}"
    by (auto simp: port_text_def)
  moreover have "q \<noteq> []" unfolding n(1) by (subst decimal.simps) simp
  moreover have "0 < n" using n(2) by auto
  ultimately show "digit_text q \<and> q \<noteq> [] \<and> hd q \<noteq> 48 \<and>
     (text_value q \<in> {80..99} \<or> text_value q \<in> {800..999} \<or> text_value q \<in> {8000..65999})"
    using digit_text_decimal decimal_head text_value_decimal by simp
next
  assume "digit_text q \<and> q \<noteq> [] \<and> hd q \<noteq> 48 \<and>
     (text_value q \<in> {80..99} \<or> text_value q \<in> {800..999} \<or> text_value q \<in> {8000..65999})"
  then show "port_text q" unfolding port_text_def using decimal_text_value [of q] by metis
qed

lemma Rep_unfold:
  "Rep 3 r = Times r (Times r (Times r One))" "Rep 4 r = Times r (Times r (Times r (Times r One)))"
  "Between 1 3 r = Plus (Times r One) (Plus (Times r (Times r One)) (Plus (Times r (Times r (Times r One))) Zero))"
  by (simp_all add: numeral_eq_Suc Between_def upt_rec)

lemmas port_simps = portRegex_def Let_def Rep_unfold [unfolded One_nat_def] Rep_unfold pattern_simps qchar_const
  port_text_value digit_text_def text_value_def

lemma portRegex_length: "q \<in> lang portRegex \<Longrightarrow> q \<noteq> [] \<and> length q \<le> 5"
  by (auto simp: portRegex_def Between_def Let_def pattern_simps numeral_eq_Suc upt_rec)

lemma digit_obtain:
  fixes u :: qchar
  assumes "48 \<le> unat u" "unat u \<le> 57"
  obtains y where "unat u = 48 + y" "y \<le> 9"
  using that [of "unat u - 48"] assms by simp

text \<open>The last two alternatives of the pattern are special cases of the third.\<close>

lemma port_five:
  fixes a y w :: nat
  assumes "y \<le> 9" "w \<le> 999"
  shows "48 \<le> a \<and> a \<le> 57 \<and> a \<noteq> 48 \<and>
     (80 \<le> 10000 * (a - 48) + (1000 * y + w) \<and> 10000 * (a - 48) + (1000 * y + w) \<le> 99 \<or>
      800 \<le> 10000 * (a - 48) + (1000 * y + w) \<and> 10000 * (a - 48) + (1000 * y + w) \<le> 999 \<or>
      8000 \<le> 10000 * (a - 48) + (1000 * y + w) \<and> 10000 * (a - 48) + (1000 * y + w) \<le> 65999) \<longleftrightarrow>
     49 \<le> a \<and> a \<le> 53 \<or> a = 54 \<and> y \<le> 5"
proof (cases "49 \<le> a")
  case True
  then obtain x where x: "a = 49 + x" using le_Suc_ex by blast
  consider "x \<le> 4" | "x = 5" | "6 \<le> x" by linarith
  then show ?thesis by cases (use assms in \<open>auto simp: x\<close>)
qed simp

lemma port_five_digits:
  assumes q: "q = [a, b, c, d, e]" shows "q \<in> lang portRegex \<longleftrightarrow> port_text q"
proof (cases "\<forall>u \<in> {b, c, d, e}. 48 \<le> unat u \<and> unat u \<le> 57")
  case True
  then obtain y z v w where b: "unat b = 48 + y" "y \<le> 9" and c: "unat c = 48 + z" "z \<le> 9"
    and d: "unat d = 48 + v" "v \<le> 9" and e: "unat e = 48 + w" "w \<le> 9"
    by (metis digit_obtain insertCI)
  have "100 * z + (10 * v + w) \<le> 999" using c(2) d(2) e(2) by linarith
  note port = port_five [OF b(2) this, of "unat a"]
  have "port_text q \<longleftrightarrow> 49 \<le> unat a \<and> unat a \<le> 53 \<or> unat a = 54 \<and> y \<le> 5"
    unfolding port [symmetric]
    using b(2) c(2) d(2) e(2) by (simp add: q port_text_value digit_text_def text_value_def b(1) c(1) d(1) e(1) qchar_const algebra_simps)
  moreover have "q \<in> lang portRegex \<longleftrightarrow> 49 \<le> unat a \<and> unat a \<le> 53 \<or> unat a = 54 \<and> y \<le> 5"
    using b(2) c(2) d(2) e(2) by (auto simp add: q port_simps b(1) c(1) d(1) e(1))
  ultimately show ?thesis by simp
next
  case False
  then have "\<not> port_text q" by (auto simp: q port_text_value digit_text_def)
  moreover have "q \<notin> lang portRegex" using False by (auto simp: q port_simps)
  ultimately show ?thesis by simp
qed

lemma portRegex_lang: "q \<in> lang portRegex \<longleftrightarrow> port_text q"
proof (cases "q \<noteq> [] \<and> length q \<le> 5")
  case True
  then consider a where "q = [a]" | a b where "q = [a, b]" | a b c where "q = [a, b, c]"
    | a b c d where "q = [a, b, c, d]" | a b c d e where "q = [a, b, c, d, e]"
    by (cases q; cases "tl q"; cases "tl (tl q)"; cases "tl (tl (tl q))"; cases "tl (tl (tl (tl q)))") auto
  then show ?thesis
  proof cases
    case (1 a)
    then show ?thesis by (auto simp: port_simps)
  next
    case (2 a b)
    then show ?thesis by (cases "56 \<le> unat a") (auto simp: port_simps)
  next
    case (3 a b c)
    then show ?thesis by (cases "56 \<le> unat a") (auto simp: port_simps)
  next
    case (4 a b c d)
    then show ?thesis by (cases "56 \<le> unat a") (auto simp: port_simps)
  next
    case (5 a b c d e)
    then show ?thesis by (rule port_five_digits)
  qed
next
  case False
  moreover have "\<not> port_text q" if "5 < length q"
  proof
    assume "port_text q"
    then have q: "digit_text q" "hd q \<noteq> 48" "text_value q \<le> 65999" by (auto simp: port_text_value)
    obtain u r where ur: "q = u # r" using \<open>5 < length q\<close> by (cases q) auto
    have "10 ^ 5 \<le> (10 :: nat) ^ length r" using that ur by (intro power_increasing) simp_all
    also have "\<dots> \<le> text_value q" using text_value_lower [of u r] q(1,2) ur by simp
    finally show False using q(3) by simp
  qed
  ultimately show ?thesis using portRegex_length [of q] by (auto simp: port_text_value)
qed

definition dotted_quad :: "qstring \<Rightarrow> bool" where
  "dotted_quad q \<longleftrightarrow>
     (\<exists>a b c d. q = a @ 46 # b @ 46 # c @ 46 # d \<and>
        octet_text a \<and> octet_text b \<and> octet_text c \<and> octet_text d)"

lemma lang_octet_Times: "q \<in> lang (Times octetRegex r) \<longleftrightarrow> (\<exists>a t. q = a @ t \<and> octet_text a \<and> t \<in> lang r)"
  unfolding lang.simps(5) octetRegex_lang by blast

lemma ipRegex_lang: "q \<in> lang ipRegex \<longleftrightarrow> dotted_quad q"
proof -
  have dot: "(of_char (CHR ''.'') :: qchar) = 46" by simp
  show ?thesis
    unfolding ipRegex_def Rep_unfold lang_Times_assoc lang_octet_Times lang_Char_Times dot
      lang_simps(8) octetRegex_lang dotted_quad_def
    by blast
qed

subsection \<open>The check\<close>

lemma login_test:
  assumes "10 \<notin> set ip" "10 \<notin> set port"
  shows "anchored ipRegex ip \<and> anchored portRegex port \<and> name \<noteq> [] \<and> length name \<le> 4 \<longleftrightarrow>
    dotted_quad ip \<and> 1 \<le> length name \<and> length name \<le> 4 \<and> port_text port"
  using anchored_line [OF assms(1)] anchored_line [OF assms(2)]
  by (cases name) (auto simp: ipRegex_lang portRegex_lang)

text \<open>C21. The login window lets a user through exactly with an address of four octets, each written in
  one to three digits and up to 255, a name of one to four code units, and a port among 80 to 99, 800
  to 999 and 8000 to 65999: the ports 1000 to 7999 are refused, and 65536 to 65999, which are no
  ports, are accepted. It then stores the three texts, hides and starts the chat window, once; in all
  other cases it only warns. (The input fields are single lines.)\<close>

theorem login_accepts:
  assumes "10 \<notin> set (lo_IP_input w)" "10 \<notin> set (lo_Port_input w)"
  shows "Login_Success w =
    (if dotted_quad (lo_IP_input w) \<and> 1 \<le> length (lo_name_input w) \<and> length (lo_name_input w) \<le> 4 \<and>
        (\<exists>n. lo_Port_input w = latin (decimal n) \<and>
           (n \<in> {80..99} \<or> n \<in> {800..999} \<or> n \<in> {8000..65999}))
     then w\<lparr>lo_info := \<lparr>info_name = lo_name_input w, info_IP = lo_IP_input w, info_Port = lo_Port_input w\<rparr>,
            lo_hidden := True, lo_jumps := lo_jumps w + 1\<rparr>
     else w\<lparr>lo_warnings := lo_warnings w + 1\<rparr>)"
  using login_test [OF assms, of "lo_name_input w"]
  by (simp only: Login_Success_def port_text_def Let_def)

definition demo_login_window :: "string \<Rightarrow> login" where
  "demo_login_window port =
     \<lparr>lo_IP_input = latin ''127.0.0.1'', lo_name_input = latin ''ann'', lo_Port_input = latin port,
      lo_info = info_init, lo_hidden = False, lo_jumps = 0, lo_warnings = 0\<rparr>"

lemma demo_texts:
  "dotted_quad (latin ''127.0.0.1'')" "port_text (latin ''12345'')" "port_text (latin ''65999'')"
  "\<not> port_text (latin ''5000'')"
proof -
  show "dotted_quad (latin ''127.0.0.1'')"
    unfolding dotted_quad_def
    by (intro exI [of _ "latin ''127''"] exI [of _ "latin ''0''"] exI [of _ "latin ''1''"])
       (simp add: octet_text_def digit_text_def text_value_def)
qed (simp_all add: port_text_value digit_text_def text_value_def)

text \<open>The server's own port is accepted, as is 65999; 5000 is not.\<close>

theorem login_accepts_witness:
  "lo_jumps (Login_Success (demo_login_window ''12345'')) = 1 \<and>
   lo_jumps (Login_Success (demo_login_window ''65999'')) = 1 \<and>
   lo_warnings (Login_Success (demo_login_window ''5000'')) = 1"
proof -
  have lines: "10 \<notin> set (lo_IP_input (demo_login_window p))" "lo_Port_input (demo_login_window p) = latin p"
    "lo_IP_input (demo_login_window p) = latin ''127.0.0.1''" "length (lo_name_input (demo_login_window p)) = 3"
    "lo_jumps (demo_login_window p) = 0" "lo_warnings (demo_login_window p) = 0" for p
    by (simp_all add: demo_login_window_def)
  have one_line: "10 \<notin> set (latin ''12345'')" "10 \<notin> set (latin ''65999'')" "10 \<notin> set (latin ''5000'')"
    by simp_all
  note accepts = login_accepts [OF lines(1), folded port_text_def, unfolded lines]
  show ?thesis
    using accepts [of "''12345''"] accepts [of "''65999''"] accepts [of "''5000''"]
    by (simp add: demo_texts lines one_line del: latin_simps)
qed

end
