(* ===== verification/ClientChat.thy ===== *)
theory ClientChat
  imports ClientLogin
begin

text \<open>
  \<open>EasyChat.h\<close>, \<open>EasyChat.cpp\<close>, \<open>msgitem.h\<close> and \<open>msgitem.cpp\<close>: the chat window of the client and
  its receiving thread. The state joins the members of \<open>Widget\<close>, the global variables, and what
  the window shows: the list of users, the line with the chat partner, the input box and the
  pieces of text put into the message box. The socket calls are the parameter \<open>ws\<close>, the text
  conversions \<open>qt\<close>, the address conversions \<open>net\<close>; fonts and sizes are left out.
\<close>

subsection \<open>List entries\<close>

record msg_item =
  mi_MsgBox :: qstring

definition MsgItem :: msg_item where "MsgItem = \<lparr>mi_MsgBox = []\<rparr>"

definition MsgItem_name :: "msg_item \<Rightarrow> qstring" where "MsgItem_name m = mi_MsgBox m"

definition MsgItem_setName :: "qstring \<Rightarrow> msg_item \<Rightarrow> msg_item" where
  "MsgItem_setName n m = m\<lparr>mi_MsgBox := n\<rparr>"

definition MsgItem_content :: "msg_item \<Rightarrow> qstring" where "MsgItem_content m = mi_MsgBox m"

definition MsgItem_setContent :: "qstring \<Rightarrow> msg_item \<Rightarrow> msg_item" where
  "MsgItem_setContent n m = m\<lparr>mi_MsgBox := n\<rparr>"

subsection \<open>State\<close>

datatype colour = Blue | Black

datatype piece = Appended qstring | Inserted colour qstring

text \<open>The window: its members, and what its parts show.\<close>

record widget =
  cl_now_chat_user :: qstring
  cl_User_list :: "qstring list"
  cl_UserList :: "msg_item list"
  cl_Top_show :: qstring
  cl_SendBox :: qstring
  cl_Messagebox :: "piece list"
  cl_shown :: bool
  cl_closed :: bool
  cl_can_send :: bool        \<comment> \<open>\<open>SendButton\<close> is connected\<close>
  cl_warnings :: nat

text \<open>With it the global variables, the receiving thread and the kernel.\<close>

record 'k client = widget +
  cl_kern :: 'k
  cl_cliSock :: int
  cl_info :: info
  cl_now_content :: qstring
  cl_Treated_Msg :: "qstring list"
  cl_receiving :: bool       \<comment> \<open>the receiving thread runs\<close>

record 'k winsock =
  ws_startup :: "'k \<Rightarrow> 'k"
  ws_socket :: "'k \<Rightarrow> int \<times> 'k"
  ws_connect :: "int \<Rightarrow> sockaddr_in \<Rightarrow> 'k \<Rightarrow> int \<times> 'k"
  ws_send :: "int \<Rightarrow> string \<Rightarrow> 'k \<Rightarrow> int \<times> 'k"
  ws_recv :: "int \<Rightarrow> nat \<Rightarrow> 'k \<Rightarrow> (int + string) \<times> 'k"
  ws_closesocket :: "int \<Rightarrow> 'k \<Rightarrow> 'k"

definition BUFFER_SIZE :: nat where "BUFFER_SIZE = 4096"

definition spl :: qchar where "spl = 20"
definition spl2 :: qchar where "spl2 = 21"
definition spl3 :: qchar where "spl3 = 22"
definition spl4 :: qchar where "spl4 = 23"

lemmas spl_defs = spl_def spl2_def spl3_def spl4_def

text \<open>The literals that are not ASCII, in code units.\<close>

definition group_label :: qstring where   \<comment> \<open>the entry of the group chat\<close>
  "group_label = [0x40, 0x7FA4, 0x804A, 0x40]"

definition self_mark :: qstring where     \<comment> \<open>``(oneself)''\<close>
  "self_mark = [0x28, 0x81EA, 0x5DF1, 0x29]"

definition partner_text :: qstring where  \<comment> \<open>``the chat partner now is:''\<close>
  "partner_text = [0x73B0, 0x5728, 0x7684, 0x804A, 0x5929, 0x5BF9, 0x8C61, 0x662F, 0xFF1A]"

definition colon :: qchar where "colon = 0xFF1A"

definition dashes :: qstring where "dashes = replicate 28 0x2D"

definition left_text :: qstring where     \<comment> \<open>`` has left the chat room''\<close>
  "left_text = [0x20, 0x9000, 0x51FA, 0x4E86, 0x804A, 0x5929, 0x5BA4]"

definition entered_text :: qstring where  \<comment> \<open>`` has entered the chat room''\<close>
  "entered_text = [0x20, 0x8FDB, 0x5165, 0x4E86, 0x804A, 0x5929, 0x5BA4]"

subsection \<open>Text on the wire\<close>

text \<open>
  \<open>send(cliSock, q.toStdString().c_str(), q.length() * 3, 0)\<close>: three bytes per code unit are sent,
  which goes on past the end of the encoded text into its NUL and whatever lies behind it in
  memory (\<open>mem\<close>).
\<close>

definition wire_text :: "qt_lib \<Rightarrow> (nat \<Rightarrow> char) \<Rightarrow> qstring \<Rightarrow> string" where
  "wire_text qt mem q =
     take (3 * length q) (toStdString qt q @ CHR 0x00 # map mem [0..<3 * length q])"

definition send_text ::
  "'k winsock \<Rightarrow> qt_lib \<Rightarrow> (nat \<Rightarrow> char) \<Rightarrow> qstring \<Rightarrow> 'k client \<Rightarrow> 'k client" where
  "send_text ws qt mem q c =
     c\<lparr>cl_kern := snd (ws_send ws (cl_cliSock c) (wire_text qt mem q) (cl_kern c))\<rparr>"

text \<open>
  The C string in \<open>char buffer[BUFFER_SIZE] = {0}\<close> after \<open>bytes\<close> have been received into it: a
  buffer that is full and holds no NUL is read beyond its end.
\<close>

definition buffer_text :: "qt_lib \<Rightarrow> string \<Rightarrow> qstring res" where
  "buffer_text qt bytes =
     (if CHR 0x00 \<in> set bytes \<or> length bytes < BUFFER_SIZE then Inr (fromUtf8 qt (c_str bytes))
      else Inl HeapOverread)"

subsection \<open>Choosing a partner\<close>

definition toBox :: "qstring \<Rightarrow> 'k client \<Rightarrow> 'k client" where
  "toBox chatUser c = c\<lparr>cl_Top_show := partner_text @ chatUser, cl_now_chat_user := chatUser\<rparr>"

text \<open>A click on entry \<open>m\<close> emits \<open>Change_Chat\<close>, which is connected to \<open>toBox\<close>.\<close>

definition MsgItem_Change :: "msg_item \<Rightarrow> 'k client \<Rightarrow> 'k client" where
  "MsgItem_Change m c = toBox (MsgItem_name m) c"

subsection \<open>Login\<close>

definition new_item :: "qstring \<Rightarrow> msg_item" where
  "new_item n = MsgItem_setName n MsgItem"

definition user_items :: "qstring list \<Rightarrow> msg_item list" where
  "user_items us =
     map (\<lambda>i. new_item (if i = length us - 1 then us ! i @ self_mark else us ! i)) [0..<length us]"

definition serv_addr :: "qt_lib \<Rightarrow> net_lib \<Rightarrow> info \<Rightarrow> sockaddr_in" where
  "serv_addr qt net i =
     \<lparr>sin_family = AF_INET, sin_port = htons net (word_of_int (toInt qt (info_Port i))),
      sin_addr = inet_addr net (c_str (toStdString qt (info_IP i)))\<rparr>"

definition show_login :: "'k winsock \<Rightarrow> qstring \<Rightarrow> 'k client \<Rightarrow> 'k client" where
  "show_login ws list_str c =
     (let us = remove1 [] (split_on (of_char (CHR ''+'')) list_str);
          c1 = c\<lparr>cl_User_list := us\<rparr>
      in if 1 < count_list us (info_name (cl_info c1))
         then c1\<lparr>cl_warnings := cl_warnings c1 + 1,
                 cl_kern := ws_closesocket ws (cl_cliSock c1) (cl_kern c1), cl_closed := True\<rparr>
         else c1\<lparr>cl_UserList := cl_UserList c1 @ new_item group_label # user_items us,
                 cl_receiving := True, cl_can_send := True, cl_shown := True\<rparr>)"

definition reciveLogin ::
  "'k winsock \<Rightarrow> qt_lib \<Rightarrow> net_lib \<Rightarrow> (nat \<Rightarrow> char) \<Rightarrow> 'k client \<Rightarrow> 'k client res" where
  "reciveLogin ws qt net mem c =
     (let k1 = ws_startup ws (cl_kern c);
          (sock, k2) = ws_socket ws k1;
          (r, k3) = ws_connect ws sock (serv_addr qt net (cl_info c)) k2;
          c1 = send_text ws qt mem (info_name (cl_info c)) (c\<lparr>cl_cliSock := sock, cl_kern := k3\<rparr>);
          (got, k4) = ws_recv ws (cl_cliSock c1) BUFFER_SIZE (cl_kern c1);
          bytes = (case got of Inl e \<Rightarrow> [] | Inr bs \<Rightarrow> bs)
      in bind_res (buffer_text qt bytes) (\<lambda>list_str.
           Inr (show_login ws list_str (c1\<lparr>cl_kern := k4\<rparr>))))"

subsection \<open>Sending\<close>

definition Send_Message :: "'k winsock \<Rightarrow> qt_lib \<Rightarrow> (nat \<Rightarrow> char) \<Rightarrow> 'k client \<Rightarrow> 'k client" where
  "Send_Message ws qt mem c =
     (if cl_now_chat_user c = group_label then
        (send_text ws qt mem (spl2 # cl_SendBox c) c)\<lparr>cl_SendBox := []\<rparr>
      else
        let c1 = send_text ws qt mem (spl # cl_now_chat_user c @ spl # cl_SendBox c) c;
            c2 = (if cl_now_chat_user c1 \<noteq> info_name (cl_info c1)
                  then c1\<lparr>cl_Messagebox := cl_Messagebox c1 @
                          [Appended (latin ''You Send to'' @ colon # cl_now_chat_user c1 @ 10 # cl_SendBox c1 @ [10])]\<rparr>
                  else c1)
        in c2\<lparr>cl_SendBox := []\<rparr>)"

subsection \<open>Receiving\<close>

text \<open>\<open>QList::operator[]\<close>\<close>

definition part :: "qstring list \<Rightarrow> nat \<Rightarrow> qstring res" where
  "part ps i = (if i < length ps then Inr (ps ! i) else Inl IndexOutOfRange)"

definition insert_text :: "colour \<Rightarrow> qstring \<Rightarrow> 'k client \<Rightarrow> 'k client" where
  "insert_text col q c = c\<lparr>cl_Messagebox := cl_Messagebox c @ [Inserted col q]\<rparr>"

definition append_text :: "qstring \<Rightarrow> 'k client \<Rightarrow> 'k client" where
  "append_text q c = c\<lparr>cl_Messagebox := cl_Messagebox c @ [Appended q]\<rparr>"

text \<open>A message in two parts, the first introduced by \<open>intro\<close> of the sender's name.\<close>

definition show_message :: "qchar \<Rightarrow> (qstring \<Rightarrow> qstring) \<Rightarrow> 'k client \<Rightarrow> 'k client res" where
  "show_message sep intro c =
     (let c1 = c\<lparr>cl_Treated_Msg := split_on sep (cl_now_content c)\<rparr> in
      bind_res (part (cl_Treated_Msg c1) 1) (\<lambda>who.
        let c2 = insert_text Blue (intro who) c1 in
        bind_res (part (cl_Treated_Msg c2) 2) (\<lambda>msg. Inr (insert_text Black (msg @ [10]) c2))))"

definition show_left :: "'k client \<Rightarrow> 'k client res" where
  "show_left c =
     (let c1 = c\<lparr>cl_Treated_Msg := split_on spl3 (cl_now_content c)\<rparr> in
      bind_res (part (cl_Treated_Msg c1) 1) (\<lambda>who.
        let index = index_of who (cl_User_list c1);
            c2 = c1\<lparr>cl_UserList := remove_at (index + 1) (cl_UserList c1)\<rparr>;
            c3 = append_text (dashes @ who @ left_text @ dashes @ [10]) c2
        in Inr (c3\<lparr>cl_User_list := remove1 who (cl_User_list c3)\<rparr>)))"

definition show_entered :: "'k client \<Rightarrow> 'k client res" where
  "show_entered c =
     (let c1 = c\<lparr>cl_Treated_Msg := split_on spl4 (cl_now_content c)\<rparr> in
      bind_res (part (cl_Treated_Msg c1) 1) (\<lambda>who.
        let c2 = c1\<lparr>cl_User_list := cl_User_list c1 @ [who]\<rparr>;
            c3 = append_text (dashes @ who @ entered_text @ dashes @ [10]) c2
        in Inr (c3\<lparr>cl_UserList := cl_UserList c3 @ [new_item who]\<rparr>)))"

definition Flush_Ui :: "'k client \<Rightarrow> 'k client res" where
  "Flush_Ui c =
     (case cl_now_content c of
        [] \<Rightarrow> Inl IndexOutOfRange
      | first # _ \<Rightarrow>
          bind_res
            (if first = spl then show_message spl (\<lambda>who. latin ''You Recv Message From '' @ who @ [colon, 10]) c
             else if first = spl2 then show_message spl2 (\<lambda>who. who @ latin '' say in chatRoom'' @ [colon, 10]) c
             else if first = spl3 then show_left c
             else if first = spl4 then show_entered c
             else Inr c)
            (\<lambda>c1. Inr (c1\<lparr>cl_now_content := []\<rparr>)))"

text \<open>
  One turn of \<open>RecvThread::run\<close>: whether the loop goes on, whether \<open>flush\<close> is emitted, and the
  state. The slot runs later, in the window's thread.
\<close>

definition recv_turn :: "'k winsock \<Rightarrow> qt_lib \<Rightarrow> 'k client \<Rightarrow> (bool \<times> bool \<times> 'k client) res" where
  "recv_turn ws qt c =
     (let (got, k') = ws_recv ws (cl_cliSock c) BUFFER_SIZE (cl_kern c); c1 = c\<lparr>cl_kern := k'\<rparr> in
      case got of
        Inl e \<Rightarrow> Inr (False, False, c1)
      | Inr bytes \<Rightarrow>
          if bytes = [] then Inr (True, False, c1)
          else bind_res (buffer_text qt bytes) (\<lambda>str.
                 Inr (True, True, c1\<lparr>cl_now_content := cl_now_content c1 @ str\<rparr>)))"

text \<open>\<open>RecvThread::run\<close> with the number of \<open>flush\<close> signals emitted, as long as the window's thread does
  not run a slot; a run that does not end is \<open>None\<close>.\<close>

partial_function (option) RecvThread_run ::
  "'k winsock \<Rightarrow> qt_lib \<Rightarrow> nat \<Rightarrow> 'k client \<Rightarrow> (nat \<times> 'k client) res option" where
  "RecvThread_run ws qt n c =
     (case recv_turn ws qt c of
        Inl e \<Rightarrow> Some (Inl e)
      | Inr (goes_on, emits, c1) \<Rightarrow>
          let n1 = (if emits then n + 1 else n) in
          if goes_on then RecvThread_run ws qt n1 c1 else Some (Inr (n1, c1)))"

end
