(* ===== verification/ClientCorrect.thy ===== *)
theory ClientCorrect
  imports ClientChat ChatCorrect
begin

text \<open>
  The client and the server together: what one client sends, the server passes on in its format
  (theory \<open>ChatCorrect\<close>) and the other client shows; the list of users a client shows over the
  announcements it gets; and the race between the receiving thread and the window.
\<close>

subsection \<open>Text through C strings\<close>

text \<open>Text that survives them: no surrogates, and no NUL.\<close>

definition clean :: "qstring \<Rightarrow> bool" where
  "clean q \<longleftrightarrow> plain q \<and> 0 \<notin> set q"

lemma clean_simps [simp]:
  "clean []" "clean (p @ q) \<longleftrightarrow> clean p \<and> clean q"
  "clean (u # q) \<longleftrightarrow> u \<noteq> 0 \<and> (u < 0xD800 \<or> 0xDFFF < u) \<and> clean q"
  by (auto simp: clean_def)

lemma clean_plain: "clean q \<Longrightarrow> plain q"
  by (simp add: clean_def)

lemma clean_no_nul:
  assumes "utf8_law qt" "clean q"
  shows "CHR 0x00 \<notin> set (toStdString qt q)"
  using utf8_low [OF assms(1), of "CHR 0x00" q] assms(2) by (simp add: clean_def)

lemma utf8_Cons:
  assumes "utf8_law qt" "(of_char b :: nat) < 128" "plain q"
  shows "toStdString qt (of_char b # q) = b # toStdString qt q"
proof -
  have u: "(of_char b :: qchar) < 128" using assms(2) by (simp add: word_less_nat_alt)
  have "(of_char b :: qchar) < 0xD800" using assms(2) by (simp add: word_less_nat_alt)
  then have all: "plain (of_char b # q)" and one: "plain [of_char b]" using assms(3) by simp_all
  show ?thesis
    using utf8_lawD(3) [OF assms(1) all] utf8_lawD(4) [OF assms(1) one u] by simp
qed

text \<open>The server's reading of what a client sends.\<close>

lemma wire_text_c_str:
  assumes "utf8_law qt" "clean q"
  shows "c_str (wire_text qt mem q) = toStdString qt q"
proof (cases "length (toStdString qt q) = 3 * length q")
  case True
  then show ?thesis using c_str_clean [OF clean_no_nul [OF assms]] by (simp add: wire_text_def)
next
  case False
  then have "length (toStdString qt q) < 3 * length q"
    using utf8_length [OF assms(1) clean_plain [OF assms(2)]] by linarith
  then obtain n where "3 * length q = length (toStdString qt q) + Suc n"
    using less_natE by (metis add_Suc_right)
  then show ?thesis using c_str_cut [OF clean_no_nul [OF assms]] by (simp add: wire_text_def)
qed

lemma buffer_text_encoded:
  assumes "utf8_law qt" "clean q" "length (toStdString qt q) < BUFFER_SIZE"
  shows "buffer_text qt (toStdString qt q) = Inr q"
  using assms c_str_clean [OF clean_no_nul [OF assms(1,2)]] utf8_lawD(1) [OF assms(1)]
  by (simp add: buffer_text_def clean_def)

text \<open>A chunk that goes on after a NUL is read up to it.\<close>

lemma buffer_text_c_str:
  assumes "utf8_law qt" "clean q" "c_str bytes = toStdString qt q" "length bytes < BUFFER_SIZE"
  shows "buffer_text qt bytes = Inr q"
  using assms utf8_lawD(1) [OF assms(1)] by (simp add: buffer_text_def clean_def)

subsection \<open>Login\<close>

lemma utf8_concat:
  assumes "utf8_law qt" "\<forall>u \<in> set us. plain u"
  shows "concat (map (\<lambda>n. n @ ''+'') (map (toStdString qt) us)) =
         toStdString qt (concat (map (\<lambda>u. u @ [of_char (CHR ''+'')]) us))"
  using assms(2)
proof (induction us)
  case (Cons u us)
  have "plain (concat (map (\<lambda>u. u @ [of_char (CHR ''+'')]) us))"
    using Cons.prems by (induction us) auto
  then have "toStdString qt (u @ of_char (CHR ''+'') # concat (map (\<lambda>u. u @ [of_char (CHR ''+'')]) us)) =
      toStdString qt u @ CHR ''+'' # toStdString qt (concat (map (\<lambda>u. u @ [of_char (CHR ''+'')]) us))"
    using Cons.prems utf8_append [OF assms(1)] utf8_Cons [OF assms(1), of "CHR ''+''"] by simp
  with Cons show ?case by simp
qed (simp add: utf8_lawD(2) [OF assms(1)])

text \<open>A name the protocol can carry: not empty, and without the bytes it uses as separators.\<close>

definition name_text :: "qstring \<Rightarrow> bool" where
  "name_text u \<longleftrightarrow> u \<noteq> [] \<and> clean u \<and> set u \<inter> {spl, spl2, spl3, spl4, of_char (CHR ''+'')} = {}"

lemma name_textD:
  assumes "name_text u"
  shows "u \<noteq> []" "clean u" "plain u" "0 \<notin> set u" "spl \<notin> set u" "spl2 \<notin> set u" "spl3 \<notin> set u"
    "spl4 \<notin> set u" "of_char (CHR ''+'') \<notin> set u"
  using assms by (auto simp: name_text_def clean_def)

lemma remove1_last_part: "\<forall>p \<in> set ps. p \<noteq> [] \<Longrightarrow> remove1 [] (ps @ [[]]) = ps"
  by (induction ps) auto

text \<open>The names in the room, as the server holds them and as a client reads them.\<close>

lemma names_answer:
  assumes room: "chat_ok (chat s)" and users: "map fst (name_conn_map (chat s)) = map (toStdString qt) us"
  shows "all_user_name (toStdString qt own) s = concat (map (\<lambda>n. n @ ''+'') (map (toStdString qt) (us @ [own])))"
  unfolding all_user_name_clean [OF room] users by simp

lemma names_taken:
  assumes law: "utf8_law qt" and users: "map fst m = map (toStdString qt) us"
    and plain: "\<forall>u \<in> set us. plain u" "plain own"
  shows "map_of m (toStdString qt own) = None \<longleftrightarrow> own \<notin> set us"
proof -
  have "fst ` set m = toStdString qt ` set us" using users by (metis set_map)
  moreover have "toStdString qt own = toStdString qt u \<longleftrightarrow> own = u" if "u \<in> set us" for u
    using utf8_lawD(1) [OF law] plain that by metis
  ultimately show ?thesis unfolding map_of_eq_None_iff by blast
qed

lemma login_answer_text:
  assumes law: "utf8_law qt" and names: "\<forall>u \<in> set ps. name_text u"
    and answer: "answer = concat (map (\<lambda>n. n @ ''+'') (map (toStdString qt) ps))" and short: "length answer < BUFFER_SIZE"
  obtains list_str where "buffer_text qt answer = Inr list_str"
    "remove1 [] (split_on (of_char (CHR ''+'')) list_str) = ps"
proof -
  let ?q = "concat (map (\<lambda>u. u @ [of_char (CHR ''+'')]) ps)"
  have eq: "answer = toStdString qt ?q"
    unfolding answer by (rule utf8_concat [OF law]) (use names name_textD(3) in blast)
  have "clean (concat (map (\<lambda>u. u @ [of_char (CHR ''+'')]) qs))" if "\<forall>u \<in> set qs. name_text u" for qs
    using that by (induction qs) (auto dest: name_textD(2))
  then have "buffer_text qt answer = Inr ?q"
    using buffer_text_encoded [OF law] short names unfolding eq by blast
  moreover have "split_on (of_char (CHR ''+'')) ?q = ps @ [[]]"
    by (rule split_on_terminated) (use names name_textD(9) in blast)
  then have "remove1 [] (split_on (of_char (CHR ''+'')) ?q) = ps"
    using remove1_last_part [of ps] names name_textD(1) by (metis (no_types))
  ultimately show thesis by (rule that)
qed

text \<open>What the window makes of the names it has read.\<close>

lemma show_login_names:
  fixes ws :: "'k winsock" and w :: "'k client"
  assumes split: "remove1 [] (split_on (of_char (CHR ''+'')) list_str) = us @ [own]" and own: "info_name (cl_info w) = own"
  defines "w' \<equiv> show_login ws list_str w"
  shows "cl_User_list w' = us @ [own]"
    "own \<in> set us \<Longrightarrow> cl_closed w' \<and> cl_warnings w' = cl_warnings w + 1 \<and> cl_UserList w' = cl_UserList w"
    "own \<notin> set us \<Longrightarrow> cl_shown w' \<and> cl_receiving w' \<and>
       map MsgItem_name (cl_UserList w') = map MsgItem_name (cl_UserList w) @ group_label # us @ [own @ self_mark]"
proof -
  have items: "map MsgItem_name (user_items (us @ [own])) = us @ [own @ self_mark]"
    by (rule nth_equalityI) (auto simp: user_items_def new_item_def MsgItem_setName_def MsgItem_name_def nth_append)
  have twice: "1 < count_list (us @ [own]) own \<longleftrightarrow> own \<in> set us"
    using count_list_0_iff [of us own] by auto
  have label: "MsgItem_name (new_item u) = u" for u
    by (simp add: new_item_def MsgItem_setName_def MsgItem_name_def)
  define w1 where "w1 = w\<lparr>cl_User_list := us @ [own]\<rparr>"
  have "w' =
      (if own \<in> set us
       then w1\<lparr>cl_warnings := cl_warnings w1 + 1,
               cl_kern := ws_closesocket ws (cl_cliSock w1) (cl_kern w1), cl_closed := True\<rparr>
       else w1\<lparr>cl_UserList := cl_UserList w1 @ new_item group_label # user_items (us @ [own]),
               cl_receiving := True, cl_can_send := True, cl_shown := True\<rparr>)"
    unfolding w'_def show_login_def split Let_def w1_def [symmetric] twice [symmetric] by (simp add: w1_def own)
  then show "cl_User_list w' = us @ [own]"
    "own \<in> set us \<Longrightarrow> cl_closed w' \<and> cl_warnings w' = cl_warnings w + 1 \<and> cl_UserList w' = cl_UserList w"
    "own \<notin> set us \<Longrightarrow> cl_shown w' \<and> cl_receiving w' \<and>
       map MsgItem_name (cl_UserList w') = map MsgItem_name (cl_UserList w) @ group_label # us @ [own @ self_mark]"
    using items label by (simp_all add: w1_def)
qed

text \<open>C18. The login round trip. A client sends its name, three bytes per character, and they reach the
  server as the first message of its connection \<open>c\<close>: the server takes exactly the encoded name for
  the login, answers with the names of the users in the room and the new one (\<open>posted\<close>: unless the
  connection is not connected any more or broken), announces it to the others if it is free, and
  enters it then. From that answer, when it arrives as one chunk of fewer than 4096 bytes, the
  client recovers exactly the names in the room and its own; when its name was taken it warns,
  closes and shows nothing, and otherwise it lists the group chat, the others, and itself with a
  mark. The names are texts the protocol can carry (\<open>name_text\<close>): not empty, without NUL, surrogates,
  the four separators and the plus sign. The one fault is the overrun of an output buffer, at a
  length that this buffer misjudges.\<close>

theorem login_round_trip:
  fixes s :: "('k, 'z) world_scheme" and w :: "'w client"
  assumes law: "utf8_law qt" and names: "\<forall>u \<in> set us. name_text u" "name_text own"
    and room: "room_ok os wire interest D c s" and new: "name_of c (chat s) = []"
    and users: "map fst (name_conn_map (chat s)) = map (toStdString qt) us"
    and inp: "input_whole c s (wire_text qt mem own)"
    and own: "info_name (cl_info w) = own"
  defines "answer \<equiv> all_user_name (toStdString qt own) s"
  shows "((\<exists>s'. ReadCb os t c now s = Inr s' \<and> posted os wire t answer c s s' \<and>
        (own \<notin> set us \<longrightarrow> map_of (name_conn_map (chat s')) (toStdString qt own) = Some c) \<and>
        (\<forall>d \<in> D. d \<noteq> c \<longrightarrow>
          (if own \<notin> set us \<and> d \<in> snd ` set (name_conn_map (chat s))
           then posted os wire t (char23 # toStdString qt own) d s s' else untouched wire d s s'))) \<or>
      ReadCb os t c now s = Inl HeapOverrun \<and>
        (overflows t answer c s \<or>
         (\<exists>d \<in> snd ` set (name_conn_map (chat s)). overflows t (char23 # toStdString qt own) d s))) \<and>
    (length answer < BUFFER_SIZE \<longrightarrow>
      (\<exists>list_str w'. buffer_text qt answer = Inr list_str \<and> show_login ws list_str w = w' \<and> cl_User_list w' = us @ [own] \<and>
         (if own \<in> set us
          then cl_closed w' \<and> cl_warnings w' = cl_warnings w + 1 \<and> cl_UserList w' = cl_UserList w
          else cl_shown w' \<and> cl_receiving w' \<and>
               map MsgItem_name (cl_UserList w') =
                 map MsgItem_name (cl_UserList w) @ group_label # us @ [own @ self_mark])))"
proof (intro conjI impI)
  let ?n = "toStdString qt own"
  note ok = room_okD(2) [OF room]
  have clean: "CHR 0x00 \<notin> set ?n" by (rule clean_no_nul [OF law name_textD(2) [OF names(2)]])
  have free: "map_of (name_conn_map (chat s)) ?n = None \<longleftrightarrow> own \<notin> set us"
    by (rule names_taken [OF law users]) (use names name_textD(3) in blast)+
  have some: "?n \<noteq> []" using utf8_length [OF law name_textD(3) [OF names(2)]] name_textD(1) [OF names(2)] by auto
  obtain s1 where run: "ReadCb os t c now s = UserLogin os t c ?n s1"
    and room1: "room_ok os wire interest D c s1" and chat1: "chat s1 = touched c (chat s)"
    and same: "\<And>msg d s'. posted os wire t msg d s1 s' = posted os wire t msg d s s'"
      "\<And>d s'. untouched wire d s1 s' \<Longrightarrow> untouched wire d s s'"
      "\<And>msg d. overflows t msg d s1 = overflows t msg d s"
    using ReadCb_login [OF room new inp, of t now, unfolded wire_text_c_str [OF law name_textD(2) [OF names(2)]]]
    by blast
  have new1: "name_of c (chat s1) = []" and same1: "name_conn_map (chat s1) = name_conn_map (chat s)"
    "all_user_name ?n s1 = answer"
    using new by (simp_all add: chat1 answer_def all_user_name_def)
  have entered: "map_of (name_conn_map (chat s')) ?n = Some c" if "UserLogin os t c ?n s1 = Inr s'" "own \<notin> set us" for s'
    using UserLogin_maps [OF that(1) room_okD(2) [OF room1] new1 some clean] that(2) free by (simp add: same1)
  show "(\<exists>s'. ReadCb os t c now s = Inr s' \<and> posted os wire t answer c s s' \<and>
        (own \<notin> set us \<longrightarrow> map_of (name_conn_map (chat s')) ?n = Some c) \<and>
        (\<forall>d \<in> D. d \<noteq> c \<longrightarrow>
          (if own \<notin> set us \<and> d \<in> snd ` set (name_conn_map (chat s))
           then posted os wire t (char23 # ?n) d s s' else untouched wire d s s'))) \<or>
      ReadCb os t c now s = Inl HeapOverrun \<and>
        (overflows t answer c s \<or> (\<exists>d \<in> snd ` set (name_conn_map (chat s)). overflows t (char23 # ?n) d s))"
    using UserLogin_told [OF room1 new1 clean, of t] entered same(2)
    unfolding run same(1,3) same1 free by (elim disjE exE conjE) auto
  assume short: "length answer < BUFFER_SIZE"
  have "answer = concat (map (\<lambda>n. n @ ''+'') (map (toStdString qt) (us @ [own])))"
    unfolding answer_def by (rule names_answer [OF ok users])
  then obtain list_str where "buffer_text qt answer = Inr list_str"
    "remove1 [] (split_on (of_char (CHR ''+'')) list_str) = us @ [own]"
    by (rule login_answer_text [OF law, rotated]) (use names short in auto)
  then show "\<exists>list_str w'. buffer_text qt answer = Inr list_str \<and> show_login ws list_str w = w' \<and> cl_User_list w' = us @ [own] \<and>
         (if own \<in> set us
          then cl_closed w' \<and> cl_warnings w' = cl_warnings w + 1 \<and> cl_UserList w' = cl_UserList w
          else cl_shown w' \<and> cl_receiving w' \<and>
               map MsgItem_name (cl_UserList w') =
                 map MsgItem_name (cl_UserList w) @ group_label # us @ [own @ self_mark])"
    using show_login_names [of list_str us own w ws, OF _ own] by auto
qed

text \<open>Ann logs in to a room with two users whose names are not ASCII and ASCII.\<close>

definition demo_client :: "qstring \<Rightarrow> unit client" where
  "demo_client own =
     \<lparr>cl_now_chat_user = [], cl_User_list = [], cl_UserList = [], cl_Top_show = [],
      cl_SendBox = [], cl_Messagebox = [], cl_shown = False, cl_closed = False,
      cl_can_send = False, cl_warnings = 0, cl_kern = (), cl_cliSock = 5,
      cl_info = \<lparr>info_name = own, info_IP = latin ''127.0.0.1'', info_Port = latin ''12345''\<rparr>,
      cl_now_content = [], cl_Treated_Msg = [], cl_receiving = False\<rparr>"

definition demo_ws :: "unit winsock" where
  "demo_ws =
     \<lparr>ws_startup = (\<lambda>k. k), ws_socket = (\<lambda>k. (5, k)), ws_connect = (\<lambda>s a k. (0, k)),
      ws_send = (\<lambda>s d k. (int (length d), k)), ws_recv = (\<lambda>s n k. (Inr [], k)),
      ws_closesocket = (\<lambda>s k. k)\<rparr>"

lemma demo_names: "name_text (latin ''ann'')" "name_text (latin ''bob'')" "name_text [0x5C0F, 0x660E]"
  by (simp_all add: name_text_def spl_defs)

lemma demo_encoded:
  "toStdString demo_qt (latin ''ann'') = ''ann''" "toStdString demo_qt (latin ''bob'') = ''bob''"
  "toStdString demo_qt (latin ''hi'') = ''hi''"
  by (simp_all add: encode_unit_def encode_nat_def char_of_def bit_Suc_0_iff)

lemma demo_no_overflow:
  assumes "length msg \<le> 64" "d = 2 \<or> d = 3"
  shows "\<not> overflows t msg d (demo_talks r str)"
proof -
  have "tc_output (conns (demo_talks r str) d) = Buffer 64"
    using assms(2) by (auto simp: demo_talks_2) (simp add: demo_cstate_def demo_conn_def)
  moreover have "append_fits (length msg - n) (Buffer 64)" for n
  proof -
    have "length msg - n \<le> 64" using assms(1) by linarith
    then show ?thesis by (simp add: append_fits_def Buffer_sizes kCheapPrepend_def)
  qed
  ultimately show ?thesis by (simp add: overflows_def chokes_def)
qed

theorem login_round_trip_witness:
  "\<exists>s'. ReadCb demo_os 1 2 0 (demo_talks demo_room (wire_text demo_qt (\<lambda>_. CHR ''x'') (latin ''ann''))) = Inr s' \<and>
     map_of (name_conn_map (chat s')) ''ann'' = Some 2 \<and>
     buffer_text demo_qt ''bob+ann+'' = Inr (latin ''bob+ann+'') \<and>
     cl_User_list (show_login demo_ws (latin ''bob+ann+'') (demo_client (latin ''ann''))) = [latin ''bob'', latin ''ann'']"
proof -
  let ?s = "demo_talks demo_room (wire_text demo_qt (\<lambda>_. CHR ''x'') (latin ''ann''))"
  have room: "room_ok demo_os dk_wire dk_interest {2, 3} 2 ?s"
    using input_mail(1) [OF demo_mail_ok [of 100 demo_room], of 2]
    by (simp add: room_ok_def demo_laws demo_room_ok demo_talks_def) (simp add: demo_room_def)
  have chat: "chat ?s = demo_room" by simp
  have new: "name_of 2 (chat ?s) = []" unfolding chat by (simp add: name_of_def demo_room_def)
  have users: "map fst (name_conn_map (chat ?s)) = map (toStdString demo_qt) [latin ''bob'']"
    unfolding chat list.map demo_encoded by (simp add: demo_room_def)
  have names: "\<forall>u \<in> set [latin ''bob'']. name_text u" by (simp only: list.set ball_simps demo_names)
  have own: "info_name (cl_info (demo_client (latin ''ann''))) = latin ''ann''" by (simp add: demo_client_def)
  have answer: "all_user_name ''ann'' ?s = ''bob+ann+''"
    unfolding all_user_name_def chat by (simp add: demo_room_def c_str_def)
  have decoded: "buffer_text demo_qt ''bob+ann+'' = Inr (latin ''bob+ann+'')"
    by (simp add: BUFFER_SIZE_def buffer_text_def c_str_def Let_def)
  have other: "latin ''ann'' \<notin> set [latin ''bob'']" by simp
  have quiet: "\<not> overflows 1 ''bob+ann+'' 2 ?s" "\<not> overflows 1 (char23 # ''ann'') 3 ?s"
    by (rule demo_no_overflow; simp)+
  have users': "snd ` set (name_conn_map (chat ?s)) = {3}" unfolding chat by (simp add: demo_room_def)
  have short: "length ''bob+ann+'' < BUFFER_SIZE" by (simp add: BUFFER_SIZE_def)
  note trip = login_round_trip [OF demo_utf8_law names demo_names(1) room new users demo_talks_input own, of 1 0 demo_ws,
      unfolded answer demo_encoded users']
  obtain s' where "ReadCb demo_os 1 2 0 ?s = Inr s'" "map_of (name_conn_map (chat s')) ''ann'' = Some 2"
    using conjunct1 [OF trip] quiet other by blast
  moreover obtain list_str where "buffer_text demo_qt ''bob+ann+'' = Inr list_str"
    "cl_User_list (show_login demo_ws list_str (demo_client (latin ''ann''))) = [latin ''bob''] @ [latin ''ann'']"
    using conjunct2 [OF trip] short by blast
  ultimately show ?thesis using decoded by auto
qed

subsection \<open>Messages\<close>

lemma utf8_marked:
  assumes "utf8_law qt" "(of_char b :: nat) < 128" "clean p" "clean q"
  shows "toStdString qt (of_char b # p @ of_char b # q) = b # toStdString qt p @ b # toStdString qt q"
proof -
  have "(of_char b :: qchar) < 0xD800" using assms(2) by (simp add: word_less_nat_alt)
  then have "plain (of_char b # q)" "plain (p @ of_char b # q)" using assms(3,4) by (simp_all add: clean_def)
  then show ?thesis
    using assms utf8_append [OF assms(1), of p "of_char b # q"] utf8_Cons [OF assms(1,2)]
    by (simp add: clean_def)
qed

text \<open>What \<open>Flush_Ui\<close> does with a message of either kind.\<close>

lemma show_message_run:
  assumes "sep \<notin> set who" "sep \<notin> set msg" "cl_now_content c = sep # who @ sep # msg"
  shows "show_message sep intro c =
    Inr (c\<lparr>cl_Treated_Msg := [[], who, msg],
           cl_Messagebox := cl_Messagebox c @ [Inserted Blue (intro who), Inserted Black (msg @ [10])]\<rparr>)"
proof -
  have split: "split_on sep (cl_now_content c) = [[], who, msg]"
    using assms by (simp add: split_on_one)
  show ?thesis unfolding show_message_def split by (simp add: part_def insert_text_def)
qed

lemma Flush_Ui_message:
  assumes "spl \<notin> set who" "spl \<notin> set msg" "cl_now_content c = spl # who @ spl # msg"
  shows "Flush_Ui c =
    Inr (c\<lparr>cl_now_content := [], cl_Treated_Msg := [[], who, msg],
           cl_Messagebox := cl_Messagebox c @
             [Inserted Blue (latin ''You Recv Message From '' @ who @ [colon, 10]),
              Inserted Black (msg @ [10])]\<rparr>)"
  unfolding Flush_Ui_def assms(3) by (simp add: show_message_run [OF assms] del: latin_simps)

lemma Flush_Ui_group:
  assumes "spl2 \<notin> set who" "spl2 \<notin> set msg" "cl_now_content c = spl2 # who @ spl2 # msg"
  shows "Flush_Ui c =
    Inr (c\<lparr>cl_now_content := [], cl_Treated_Msg := [[], who, msg],
           cl_Messagebox := cl_Messagebox c @
             [Inserted Blue (who @ latin '' say in chatRoom'' @ [colon, 10]),
              Inserted Black (msg @ [10])]\<rparr>)"
proof -
  have "spl2 \<noteq> spl" by (simp add: spl_defs)
  then show ?thesis
    unfolding Flush_Ui_def assms(3) by (simp add: show_message_run [OF assms] del: latin_simps)
qed

text \<open>The two kinds of messages on their way: as they are sent, and as the other client gets them.\<close>

lemma mark_codes:
  "of_char char20 = spl" "of_char char21 = spl2" "(of_char char20 :: nat) < 128"
  "(of_char char21 :: nat) < 128" "CHR 0x00 \<noteq> char20" "CHR 0x00 \<noteq> char21" "clean [spl]" "clean [spl2]"
  by (simp_all add: char20_def char21_def spl_defs)

lemma group_sent:
  assumes law: "utf8_law qt" and msg: "clean msg"
  obtains rest where "wire_text qt mem (spl2 # msg) = char21 # rest" "c_str rest = toStdString qt msg"
proof -
  have "clean (spl2 # msg)" using mark_codes(8) msg by simp
  then have "c_str (wire_text qt mem (spl2 # msg)) = char21 # toStdString qt msg"
    using wire_text_c_str [OF law, of _ mem] utf8_Cons [OF law mark_codes(4) clean_plain [OF msg]] by (simp add: mark_codes(2))
  then show thesis
    using mark_codes(6) by (cases "wire_text qt mem (spl2 # msg)") (auto simp: c_str_def intro: that split: if_splits)
qed

lemma group_received:
  assumes law: "utf8_law qt" and own: "name_text own" and msg: "clean msg" and rest: "c_str rest = toStdString qt msg"
    and short: "length (char21 # toStdString qt own @ char21 # rest) < BUFFER_SIZE"
  shows "buffer_text qt (char21 # toStdString qt own @ char21 # rest) = Inr (spl2 # own @ spl2 # msg)"
proof -
  note o = name_textD(2) [OF own]
  have cl: "clean (spl2 # own @ spl2 # msg)" using mark_codes(8) msg o by simp
  have "c_str (char21 # toStdString qt own @ char21 # rest) = toStdString qt (spl2 # own @ spl2 # msg)"
    using utf8_marked [OF law mark_codes(4) o msg] clean_no_nul [OF law o] mark_codes(6) rest
    by (simp add: mark_codes(2) c_str_def takeWhile_append)
  from buffer_text_c_str [OF law cl this short] show ?thesis .
qed

lemma private_sent:
  assumes law: "utf8_law qt" and dest: "name_text dest" and msg: "clean msg"
  shows "c_str (wire_text qt mem (spl # dest @ spl # msg)) = char20 # toStdString qt dest @ char20 # toStdString qt msg"
proof -
  have "clean (spl # dest @ spl # msg)" using mark_codes(7) msg name_textD(2) [OF dest] by simp
  then show ?thesis
    using wire_text_c_str [OF law, of _ mem] utf8_marked [OF law mark_codes(3) name_textD(2) [OF dest] msg]
    by (simp add: mark_codes(1))
qed

lemma private_received:
  assumes law: "utf8_law qt" and own: "name_text own" and msg: "clean msg"
    and short: "length (char20 # toStdString qt own @ char20 # toStdString qt msg) < BUFFER_SIZE"
  shows "buffer_text qt (char20 # toStdString qt own @ char20 # toStdString qt msg) = Inr (spl # own @ spl # msg)"
proof -
  note o = name_textD(2) [OF own]
  have enc: "toStdString qt (spl # own @ spl # msg) = char20 # toStdString qt own @ char20 # toStdString qt msg"
    using utf8_marked [OF law mark_codes(3) o msg] by (simp add: mark_codes(1))
  have "clean (spl # own @ spl # msg)" using mark_codes(7) msg o by simp
  from buffer_text_encoded [OF law this, unfolded enc, OF short] show ?thesis .
qed

text \<open>What a client shows of a message of either kind.\<close>

lemma group_shown:
  assumes "name_text own" "spl2 \<notin> set msg"
  shows "\<exists>w'. Flush_Ui (w\<lparr>cl_now_content := spl2 # own @ spl2 # msg\<rparr>) = Inr w' \<and> cl_now_content w' = [] \<and>
    cl_Messagebox w' = cl_Messagebox w @
      [Inserted Blue (own @ latin '' say in chatRoom'' @ [colon, 10]), Inserted Black (msg @ [10])]"
  using Flush_Ui_group [OF name_textD(6) [OF assms(1)] assms(2), of "w\<lparr>cl_now_content := spl2 # own @ spl2 # msg\<rparr>"]
  by (simp del: latin_simps)

lemma private_shown:
  assumes "name_text own" "spl \<notin> set msg"
  shows "\<exists>w'. Flush_Ui (w\<lparr>cl_now_content := spl # own @ spl # msg\<rparr>) = Inr w' \<and> cl_now_content w' = [] \<and>
    cl_Messagebox w' = cl_Messagebox w @
      [Inserted Blue (latin ''You Recv Message From '' @ own @ [colon, 10]), Inserted Black (msg @ [10])]"
  using Flush_Ui_message [OF name_textD(5) [OF assms(1)] assms(2), of "w\<lparr>cl_now_content := spl # own @ spl # msg\<rparr>"]
  by (simp del: latin_simps)

text \<open>C17. A text written in one client is shown in the other. What the client sends for it, three bytes per
  character, reaches the server as the whole input of the sender's connection \<open>c\<close>; the server then
  sends \<open>group_out\<close> to every user in the room, or \<open>private_out\<close> to the addressee, if there is one by that
  name, and nothing to anybody else (\<open>posted\<close>: unless a connection is not connected any more or
  broken; the one fault is the overrun of an output buffer at a length that it misjudges). When that
  arrives as one chunk of fewer than 4096 bytes at a client with nothing left to show, this client
  shows the sender's name and exactly the text, and nothing is left over. The names and the text are
  without NUL, surrogates and the two separators.\<close>

theorem message_round_trip:
  fixes s :: "('k, 'z) world_scheme" and w :: "'w client" and mem :: "nat \<Rightarrow> char"
  assumes law: "utf8_law qt" and own: "name_text own" and dest: "name_text dest"
    and body: "clean msg" "spl \<notin> set msg" "spl2 \<notin> set msg"
    and room: "room_ok os wire interest D c s" and reg: "name_of c (chat s) = toStdString qt own"
  defines "grouped \<equiv> wire_text qt mem (spl2 # msg)"
    and "private_one \<equiv> wire_text qt mem (spl # dest @ spl # msg)"
  defines "group_out \<equiv> char21 # toStdString qt own @ char21 # drop 1 grouped"
    and "private_out \<equiv> char20 # toStdString qt own @ char20 # toStdString qt msg"
  shows "(input_whole c s grouped \<longrightarrow>
      (\<exists>s'. ReadCb os t c now s = Inr s' \<and>
         (\<forall>d \<in> D. if d \<in> snd ` set (name_conn_map (chat s)) then posted os wire t group_out d s s' else untouched wire d s s')) \<or>
      ReadCb os t c now s = Inl HeapOverrun \<and> (\<exists>d \<in> snd ` set (name_conn_map (chat s)). overflows t group_out d s)) \<and>
    (length group_out < BUFFER_SIZE \<longrightarrow>
       (\<exists>q w'. buffer_text qt group_out = Inr q \<and> Flush_Ui (w\<lparr>cl_now_content := q\<rparr>) = Inr w' \<and> cl_now_content w' = [] \<and>
          cl_Messagebox w' = cl_Messagebox w @
            [Inserted Blue (own @ latin '' say in chatRoom'' @ [colon, 10]), Inserted Black (msg @ [10])])) \<and>
    (input_whole c s private_one \<longrightarrow>
      (\<exists>s'. ReadCb os t c now s = Inr s' \<and>
         (\<forall>d \<in> D. if map_of (name_conn_map (chat s)) (toStdString qt dest) = Some d
            then posted os wire t private_out d s s' else untouched wire d s s')) \<or>
      ReadCb os t c now s = Inl HeapOverrun \<and>
        (\<exists>d. map_of (name_conn_map (chat s)) (toStdString qt dest) = Some d \<and> overflows t private_out d s)) \<and>
    (length private_out < BUFFER_SIZE \<longrightarrow>
       (\<exists>q w'. buffer_text qt private_out = Inr q \<and> Flush_Ui (w\<lparr>cl_now_content := q\<rparr>) = Inr w' \<and> cl_now_content w' = [] \<and>
          cl_Messagebox w' = cl_Messagebox w @
            [Inserted Blue (latin ''You Recv Message From '' @ own @ [colon, 10]), Inserted Black (msg @ [10])]))"
proof (intro conjI impI)
  have some: "name_of c (chat s) \<noteq> []"
    using utf8_length [OF law name_textD(3) [OF own]] name_textD(1) [OF own] by (auto simp: reg)
  obtain rest where rest: "grouped = char21 # rest" "c_str rest = toStdString qt msg"
    unfolding grouped_def by (rule group_sent [OF law body(1)])
  have out: "group_out = char21 # toStdString qt own @ char21 # rest" by (simp add: group_out_def rest(1))
  show "(\<exists>s'. ReadCb os t c now s = Inr s' \<and>
         (\<forall>d \<in> D. if d \<in> snd ` set (name_conn_map (chat s)) then posted os wire t group_out d s s' else untouched wire d s s')) \<or>
      ReadCb os t c now s = Inl HeapOverrun \<and> (\<exists>d \<in> snd ` set (name_conn_map (chat s)). overflows t group_out d s)"
    if "input_whole c s grouped"
    using group_passed_on [OF room some that [unfolded rest(1)], of t now] unfolding reg out by blast
  show "\<exists>q w'. buffer_text qt group_out = Inr q \<and> Flush_Ui (w\<lparr>cl_now_content := q\<rparr>) = Inr w' \<and> cl_now_content w' = [] \<and>
          cl_Messagebox w' = cl_Messagebox w @
            [Inserted Blue (own @ latin '' say in chatRoom'' @ [colon, 10]), Inserted Black (msg @ [10])]"
    if "length group_out < BUFFER_SIZE"
    using group_received [OF law own body(1) rest(2) that [unfolded out]] group_shown [OF own body(3), of w]
    unfolding out by blast
  show "(\<exists>s'. ReadCb os t c now s = Inr s' \<and>
         (\<forall>d \<in> D. if map_of (name_conn_map (chat s)) (toStdString qt dest) = Some d
            then posted os wire t private_out d s s' else untouched wire d s s')) \<or>
      ReadCb os t c now s = Inl HeapOverrun \<and>
        (\<exists>d. map_of (name_conn_map (chat s)) (toStdString qt dest) = Some d \<and> overflows t private_out d s)"
    if "input_whole c s private_one"
  proof -
    have "char20 \<notin> set (toStdString qt dest)"
      using utf8_low [OF law mark_codes(3) name_textD(3) [OF dest]] name_textD(5) [OF dest] by (simp add: mark_codes(1))
    then have "private_input c s (toStdString qt dest) (toStdString qt msg)"
      using that private_sent [OF law dest body(1), of mem] unfolding private_input_def private_one_def by blast
    from private_passed_on [OF room some this, of t now] show ?thesis unfolding reg private_out_def by blast
  qed
  show "\<exists>q w'. buffer_text qt private_out = Inr q \<and> Flush_Ui (w\<lparr>cl_now_content := q\<rparr>) = Inr w' \<and> cl_now_content w' = [] \<and>
          cl_Messagebox w' = cl_Messagebox w @
            [Inserted Blue (latin ''You Recv Message From '' @ own @ [colon, 10]), Inserted Black (msg @ [10])]"
    if "length private_out < BUFFER_SIZE"
    using private_received [OF law own body(1)] that private_shown [OF own body(2), of w]
    unfolding private_out_def by blast
qed

theorem message_round_trip_witness:
  "\<exists>s' q w'. ReadCb demo_os 1 2 0 (demo_talks demo_full_room (wire_text demo_qt (\<lambda>_. CHR ''x'') (spl # latin ''bob'' @ spl # latin ''hi''))) = Inr s' \<and>
     posted demo_os dk_wire 1 (char20 # ''ann'' @ char20 # ''hi'') 3
       (demo_talks demo_full_room (wire_text demo_qt (\<lambda>_. CHR ''x'') (spl # latin ''bob'' @ spl # latin ''hi''))) s' \<and>
     buffer_text demo_qt (char20 # ''ann'' @ char20 # ''hi'') = Inr q \<and>
     Flush_Ui ((demo_client (latin ''bob''))\<lparr>cl_now_content := q\<rparr>) = Inr w' \<and>
     cl_Messagebox w' =
       [Inserted Blue (latin ''You Recv Message From '' @ latin ''ann'' @ [colon, 10]), Inserted Black (latin ''hi'' @ [10])]"
proof -
  let ?s = "demo_talks demo_full_room (wire_text demo_qt (\<lambda>_. CHR ''x'') (spl # latin ''bob'' @ spl # latin ''hi''))"
  let ?out = "char20 # ''ann'' @ char20 # ''hi''"
  have body: "clean (latin ''hi'')" "spl \<notin> set (latin ''hi'')" "spl2 \<notin> set (latin ''hi'')"
    by (simp_all add: spl_defs)
  have empty: "cl_Messagebox (demo_client u) = []" for u by (simp add: demo_client_def)
  have reg: "name_of 2 (chat ?s) = toStdString demo_qt (latin ''ann'')" unfolding demo_encoded by (rule demo_ann)
  have bob: "map_of (name_conn_map (chat ?s)) ''bob'' = Some 3" by (simp add: demo_full_room_def)
  have quiet: "\<not> overflows 1 ?out 3 ?s" by (rule demo_no_overflow) simp_all
  have short: "length ?out < BUFFER_SIZE" by (simp add: BUFFER_SIZE_def)
  note trip = message_round_trip [OF demo_utf8_law demo_names(1,2) body demo_room_service reg, of "\<lambda>_. CHR ''x''" 1 0 "demo_client (latin ''bob'')",
      unfolded demo_encoded]
  obtain s' where "ReadCb demo_os 1 2 0 ?s = Inr s'" "posted demo_os dk_wire 1 ?out 3 ?s s'"
    using conjunct1 [OF conjunct2 [OF conjunct2 [OF trip]]] demo_talks_input bob quiet by auto
  moreover obtain q w' where "buffer_text demo_qt ?out = Inr q" "Flush_Ui ((demo_client (latin ''bob''))\<lparr>cl_now_content := q\<rparr>) = Inr w'"
    "cl_Messagebox w' = cl_Messagebox (demo_client (latin ''bob'')) @
       [Inserted Blue (latin ''You Recv Message From '' @ latin ''ann'' @ [colon, 10]), Inserted Black (latin ''hi'' @ [10])]"
    using conjunct2 [OF conjunct2 [OF conjunct2 [OF trip]]] short by blast
  ultimately show ?thesis unfolding empty append_Nil by blast
qed

subsection \<open>The list of users\<close>

text \<open>Announcements in the server's format, and a chunk that brings exactly one of them.\<close>

datatype announcement = Enters qstring | Leaves qstring

fun announce :: "qt_lib \<Rightarrow> announcement \<Rightarrow> string" where
  "announce qt (Enters u) = char23 # toStdString qt u"
| "announce qt (Leaves u) = char22 # toStdString qt u"

definition deliver :: "qt_lib \<Rightarrow> announcement \<Rightarrow> 'k client \<Rightarrow> 'k client res" where
  "deliver qt ev c =
     bind_res (buffer_text qt (announce qt ev)) (\<lambda>str.
       Flush_Ui (c\<lparr>cl_now_content := cl_now_content c @ str\<rparr>))"

fun deliver_all :: "qt_lib \<Rightarrow> announcement list \<Rightarrow> 'k client \<Rightarrow> 'k client res" where
  "deliver_all qt [] c = Inr c"
| "deliver_all qt (ev # evs) c = bind_res (deliver qt ev c) (deliver_all qt evs)"

text \<open>The abstract list, and the announcements that make sense for it.\<close>

fun roster :: "announcement \<Rightarrow> qstring list \<Rightarrow> qstring list" where
  "roster (Enters u) us = us @ [u]"
| "roster (Leaves u) us = remove1 u us"

fun sensible :: "qt_lib \<Rightarrow> qstring \<Rightarrow> announcement list \<Rightarrow> qstring list \<Rightarrow> bool" where
  "sensible qt own [] us = True"
| "sensible qt own (ev # evs) us =
     ((case ev of Enters u \<Rightarrow> u \<notin> set us | Leaves u \<Rightarrow> u \<in> set us \<and> u \<noteq> own) \<and>
      (case ev of Enters u \<Rightarrow> name_text u | Leaves u \<Rightarrow> name_text u) \<and>
      length (announce qt ev) < BUFFER_SIZE \<and> sensible qt own evs (roster ev us))"

text \<open>The entries shown: the group chat, then the users in order, the own name marked.\<close>

definition in_sync :: "qstring \<Rightarrow> 'k client \<Rightarrow> bool" where
  "in_sync own c \<longleftrightarrow>
     cl_now_content c = [] \<and> distinct (cl_User_list c) \<and> own \<in> set (cl_User_list c) \<and>
     map MsgItem_name (cl_UserList c) =
       group_label # map (\<lambda>u. if u = own then u @ self_mark else u) (cl_User_list c)"

lemma MsgItem_new_item [simp]: "MsgItem_name (new_item u) = u"
  by (simp add: new_item_def MsgItem_setName_def MsgItem_name_def)

lemma remove_at_map: "map f (remove_at i xs) = remove_at i (map f xs)"
  by (simp add: remove_at_def take_map drop_map)

lemma remove_at_Cons: "0 \<le> i \<Longrightarrow> remove_at (i + 1) (x # xs) = x # remove_at i xs"
  by (auto simp: remove_at_def nat_add_distrib)

lemma Flush_Ui_entered:
  assumes "spl4 \<notin> set u" "cl_now_content c = spl4 # u"
  shows "\<exists>c'. Flush_Ui c = Inr c' \<and> cl_now_content c' = [] \<and> cl_User_list c' = cl_User_list c @ [u] \<and>
    cl_UserList c' = cl_UserList c @ [new_item u]"
proof -
  have split: "split_on spl4 (cl_now_content c) = [[], u]" using assms by (simp add: split_on_one)
  have "spl4 \<notin> {spl, spl2, spl3}" by (simp add: spl_defs)
  then show ?thesis
    unfolding Flush_Ui_def show_entered_def split unfolding assms(2)
    by (simp add: part_def append_text_def)
qed

lemma Flush_Ui_left:
  assumes "spl3 \<notin> set u" "cl_now_content c = spl3 # u"
  shows "\<exists>c'. Flush_Ui c = Inr c' \<and> cl_now_content c' = [] \<and> cl_User_list c' = remove1 u (cl_User_list c) \<and>
    cl_UserList c' = remove_at (index_of u (cl_User_list c) + 1) (cl_UserList c)"
proof -
  have split: "split_on spl3 (cl_now_content c) = [[], u]" using assms by (simp add: split_on_one)
  have "spl3 \<notin> {spl, spl2}" by (simp add: spl_defs)
  then show ?thesis
    unfolding Flush_Ui_def show_left_def split unfolding assms(2)
    by (simp add: part_def append_text_def)
qed

lemma deliver_in_sync:
  assumes law: "utf8_law qt" and sync: "in_sync own c" and ok: "sensible qt own [ev] (cl_User_list c)"
  shows "\<exists>c'. deliver qt ev c = Inr c' \<and> in_sync own c' \<and> cl_User_list c' = roster ev (cl_User_list c)"
proof -
  let ?label = "\<lambda>u. if u = own then u @ self_mark else u"
  have idle: "cl_now_content c = []" and dist: "distinct (cl_User_list c)" and me: "own \<in> set (cl_User_list c)"
    and rows: "map MsgItem_name (cl_UserList c) = group_label # map ?label (cl_User_list c)"
    using sync by (simp_all add: in_sync_def)
  have codes: "of_char char23 = spl4" "of_char char22 = spl3" "(of_char char23 :: nat) < 128"
    "(of_char char22 :: nat) < 128" by (simp_all add: char22_def char23_def spl_defs)
  have marks: "clean [spl3]" "clean [spl4]" by (simp_all add: spl_defs)
  show ?thesis
  proof (cases ev)
    case (Enters u)
    with ok have u: "name_text u" "u \<notin> set (cl_User_list c)" by simp_all
    have enc: "toStdString qt (spl4 # u) = announce qt ev"
      using utf8_Cons [OF law codes(3) name_textD(3) [OF u(1)]] by (simp add: Enters codes(1))
    have "clean (spl4 # u)" using marks name_textD(2) [OF u(1)] by simp
    then have got: "buffer_text qt (announce qt ev) = Inr (spl4 # u)"
      using buffer_text_encoded [OF law, of "spl4 # u"] ok unfolding enc by simp
    obtain c' where c': "Flush_Ui (c\<lparr>cl_now_content := spl4 # u\<rparr>) = Inr c'" "cl_now_content c' = []"
      "cl_User_list c' = cl_User_list c @ [u]" "cl_UserList c' = cl_UserList c @ [new_item u]"
      using Flush_Ui_entered [OF name_textD(8) [OF u(1)], of "c\<lparr>cl_now_content := spl4 # u\<rparr>"] by auto
    then have "in_sync own c'" using u(2) me dist rows by (auto simp: in_sync_def)
    with c' got show ?thesis by (simp add: deliver_def idle Enters)
  next
    case (Leaves u)
    with ok have u: "name_text u" "u \<in> set (cl_User_list c)" "u \<noteq> own" by simp_all
    have enc: "toStdString qt (spl3 # u) = announce qt ev"
      using utf8_Cons [OF law codes(4) name_textD(3) [OF u(1)]] by (simp add: Leaves codes(2))
    have "clean (spl3 # u)" using marks name_textD(2) [OF u(1)] by simp
    then have got: "buffer_text qt (announce qt ev) = Inr (spl3 # u)"
      using buffer_text_encoded [OF law, of "spl3 # u"] ok unfolding enc by simp
    obtain c' where c': "Flush_Ui (c\<lparr>cl_now_content := spl3 # u\<rparr>) = Inr c'" "cl_now_content c' = []"
      "cl_User_list c' = remove1 u (cl_User_list c)"
      "cl_UserList c' = remove_at (index_of u (cl_User_list c) + 1) (cl_UserList c)"
      using Flush_Ui_left [OF name_textD(7) [OF u(1)], of "c\<lparr>cl_now_content := spl3 # u\<rparr>"] by auto
    have "0 \<le> index_of u (cl_User_list c)"
      using index_of_absent [of u "cl_User_list c"] index_of_range [of u "cl_User_list c"] u(2) by linarith
    then have "map MsgItem_name (cl_UserList c') = group_label # map ?label (cl_User_list c')"
      unfolding c'(3,4) remove_at_map rows remove1_index [OF u(2)] by (rule remove_at_Cons)
    then have "in_sync own c'" using me u(3) dist c'(2,3) by (simp add: in_sync_def)
    with c' got show ?thesis by (simp add: deliver_def idle Leaves)
  qed
qed

text \<open>C19. Over any sequence of announcements that makes sense for it, each delivered in a chunk of its
  own, the client never fails, its list of users is the abstract one, and the entries it shows are
  the group chat followed by exactly these users in this order, the own name marked.\<close>

theorem roster_in_sync:
  assumes "utf8_law qt" "in_sync own c" "sensible qt own evs (cl_User_list c)"
  shows "\<exists>c'. deliver_all qt evs c = Inr c' \<and> in_sync own c' \<and>
    cl_User_list c' = fold roster evs (cl_User_list c)"
  using assms(2,3)
proof (induction evs arbitrary: c)
  case (Cons ev evs)
  then have "sensible qt own [ev] (cl_User_list c)" by simp
  with deliver_in_sync [OF assms(1) Cons.prems(1)] obtain c1 where
    "deliver qt ev c = Inr c1" "in_sync own c1" "cl_User_list c1 = roster ev (cl_User_list c)" by blast
  with Cons.IH [of c1] Cons.prems(2) show ?case by simp
qed simp

text \<open>Ann's client after her login to an empty room.\<close>

definition demo_shown :: "unit client" where
  "demo_shown = (demo_client (latin ''ann''))\<lparr>cl_User_list := [latin ''ann''],
     cl_UserList := [new_item group_label, new_item (latin ''ann'' @ self_mark)]\<rparr>"

theorem roster_in_sync_witness:
  "\<exists>c'. deliver_all demo_qt [Enters (latin ''bob''), Leaves (latin ''bob'')] demo_shown = Inr c' \<and>
     map MsgItem_name (cl_UserList c') = [group_label, latin ''ann'' @ self_mark]"
proof -
  have sync: "in_sync (latin ''ann'') demo_shown"
    by (simp add: in_sync_def demo_shown_def demo_client_def)
  have list: "cl_User_list demo_shown = [latin ''ann'']" by (simp add: demo_shown_def)
  have "length (toStdString demo_qt (latin ''bob'')) \<le> 9"
    using utf8_length [OF demo_utf8_law name_textD(3) [OF demo_names(2)]] by simp
  then have "sensible demo_qt (latin ''ann'') [Enters (latin ''bob''), Leaves (latin ''bob'')] (cl_User_list demo_shown)"
    unfolding list by (simp only: sensible.simps announcement.case demo_names(2) announce.simps BUFFER_SIZE_def) simp
  from roster_in_sync [OF demo_utf8_law sync this] show ?thesis
    unfolding list by (auto simp: in_sync_def)
qed

subsection \<open>The receiving thread and the window\<close>

lemma recv_turn_chunk:
  assumes "ws_recv ws (cl_cliSock c) BUFFER_SIZE (cl_kern c) = (Inr bytes, k)" "bytes \<noteq> []"
    "buffer_text qt bytes = Inr str"
  shows "recv_turn ws qt c =
    Inr (True, True, c\<lparr>cl_kern := k, cl_now_content := cl_now_content c @ str\<rparr>)"
  using assms by (simp add: recv_turn_def)

lemma announce_text:
  assumes "utf8_law qt" "name_text u" "length (announce qt (Enters u)) < BUFFER_SIZE"
  shows "buffer_text qt (announce qt (Enters u)) = Inr (spl4 # u)"
proof -
  have code: "of_char char23 = spl4" "(of_char char23 :: nat) < 128" by (simp_all add: char23_def spl_defs)
  have "clean (spl4 # u)" using name_textD(2) [OF assms(2)] by (simp add: spl_defs)
  then show ?thesis
    using buffer_text_encoded [OF assms(1), of "spl4 # u"] assms(3)
      utf8_Cons [OF assms(1) code(2) name_textD(3) [OF assms(2)]]
    by (simp add: code(1))
qed

lemma Flush_Ui_empty: "cl_now_content c = [] \<Longrightarrow> Flush_Ui c = Inl IndexOutOfRange"
  by (simp add: Flush_Ui_def)

lemma Flush_Ui_two_entered:
  assumes "spl4 \<notin> set u" "spl4 \<notin> set v" "cl_now_content c = spl4 # u @ spl4 # v"
  shows "\<exists>c'. Flush_Ui c = Inr c' \<and> cl_now_content c' = [] \<and> cl_User_list c' = cl_User_list c @ [u]"
proof -
  have split: "split_on spl4 (cl_now_content c) = [[], u, v]"
    unfolding assms(3) using assms(1,2) split_on_append [of spl4 "[]"] by (simp add: split_on_one)
  have "spl4 \<notin> {spl, spl2, spl3}" by (simp add: spl_defs)
  then show ?thesis
    unfolding Flush_Ui_def show_entered_def split unfolding assms(3)
    by (simp add: part_def append_text_def)
qed

text \<open>C37. When the receiving thread takes two announcements before the window runs the slot queued for
  the first, that slot handles only the first of them, the second is lost from the list of users,
  and the slot queued for the second reads the first character of an empty string.\<close>

theorem flush_race:
  assumes law: "utf8_law qt" and names: "name_text u" "name_text v" and idle: "cl_now_content c = []"
    and short: "length (announce qt (Enters u)) < BUFFER_SIZE" "length (announce qt (Enters v)) < BUFFER_SIZE"
    and got: "ws_recv ws (cl_cliSock c) BUFFER_SIZE (cl_kern c) = (Inr (announce qt (Enters u)), k1)"
      "ws_recv ws (cl_cliSock c) BUFFER_SIZE k1 = (Inr (announce qt (Enters v)), k2)"
  shows "\<exists>c1 c2 c3. recv_turn ws qt c = Inr (True, True, c1) \<and> recv_turn ws qt c1 = Inr (True, True, c2) \<and>
    Flush_Ui c2 = Inr c3 \<and> cl_User_list c3 = cl_User_list c @ [u] \<and> Flush_Ui c3 = Inl IndexOutOfRange"
proof -
  define c1 where "c1 = c\<lparr>cl_kern := k1, cl_now_content := spl4 # u\<rparr>"
  define c2 where "c2 = c1\<lparr>cl_kern := k2, cl_now_content := spl4 # u @ spl4 # v\<rparr>"
  have one: "recv_turn ws qt c = Inr (True, True, c1)"
    using recv_turn_chunk [OF got(1) _ announce_text [OF law names(1) short(1)]]
    by (simp add: idle c1_def)
  have "recv_turn ws qt c1 = Inr (True, True, c2)"
    using recv_turn_chunk [OF _ _ announce_text [OF law names(2) short(2)], of ws c1 k2] got(2)
    by (simp add: c1_def c2_def)
  moreover obtain c3 where "Flush_Ui c2 = Inr c3" "cl_now_content c3 = []" "cl_User_list c3 = cl_User_list c @ [u]"
    using Flush_Ui_two_entered [OF name_textD(8) [OF names(1)] name_textD(8) [OF names(2)], of c2]
    by (auto simp: c1_def c2_def)
  ultimately show ?thesis using one Flush_Ui_empty [of c3] by blast
qed

text \<open>Ann's client gets the announcements of Bob and of a user with a Chinese name; the kernel counts
  the calls.\<close>

definition count_ws :: "(nat \<Rightarrow> int + string) \<Rightarrow> nat winsock" where
  "count_ws answer =
     \<lparr>ws_startup = (\<lambda>k. k), ws_socket = (\<lambda>k. (5, k)), ws_connect = (\<lambda>s a k. (0, k)),
      ws_send = (\<lambda>s d k. (int (length d), k)), ws_recv = (\<lambda>s n k. (answer k, Suc k)),
      ws_closesocket = (\<lambda>s k. k)\<rparr>"

definition count_client :: "nat client" where
  "count_client =
     \<lparr>cl_now_chat_user = [], cl_User_list = [latin ''ann''], cl_UserList = [],
      cl_Top_show = [], cl_SendBox = [], cl_Messagebox = [], cl_shown = True,
      cl_closed = False, cl_can_send = True, cl_warnings = 0, cl_kern = 0, cl_cliSock = 5,
      cl_info = \<lparr>info_name = latin ''ann'', info_IP = latin ''127.0.0.1'', info_Port = latin ''12345''\<rparr>,
      cl_now_content = [], cl_Treated_Msg = [], cl_receiving = True\<rparr>"

lemma announce_short:
  assumes "utf8_law qt" "name_text u" "length u \<le> 1000"
  shows "length (announce qt (Enters u)) < BUFFER_SIZE"
  using utf8_length [OF assms(1) name_textD(3) [OF assms(2)]] assms(3) by (simp add: BUFFER_SIZE_def)

theorem flush_race_witness:
  "\<exists>c1 c2 c3.
     recv_turn (count_ws (\<lambda>n. Inr (announce demo_qt (Enters (if n = 0 then latin ''bob'' else [0x5C0F, 0x660E])))))
       demo_qt count_client = Inr (True, True, c1) \<and>
     recv_turn (count_ws (\<lambda>n. Inr (announce demo_qt (Enters (if n = 0 then latin ''bob'' else [0x5C0F, 0x660E])))))
       demo_qt c1 = Inr (True, True, c2) \<and>
     Flush_Ui c2 = Inr c3 \<and> cl_User_list c3 = [latin ''ann'', latin ''bob''] \<and> Flush_Ui c3 = Inl IndexOutOfRange"
proof -
  have short: "length (announce demo_qt (Enters (latin ''bob''))) < BUFFER_SIZE"
    "length (announce demo_qt (Enters [0x5C0F, 0x660E])) < BUFFER_SIZE"
    by (rule announce_short [OF demo_utf8_law]; use demo_names in simp)+
  have start: "cl_now_content count_client = []" "cl_User_list count_client = [latin ''ann'']"
    "cl_kern count_client = 0" by (simp_all add: count_client_def)
  show ?thesis
    using flush_race [OF demo_utf8_law demo_names(2,3) start(1) short,
        of "count_ws (\<lambda>n. Inr (announce demo_qt (Enters (if n = 0 then latin ''bob'' else [0x5C0F, 0x660E]))))"]
    by (simp add: count_ws_def start del: latin_simps announce.simps)
qed

fun delivers :: "'k winsock \<Rightarrow> int \<Rightarrow> 'k \<Rightarrow> string list \<Rightarrow> 'k \<Rightarrow> bool" where
  "delivers ws sock k [] k' = (k' = k)"
| "delivers ws sock k (bytes # chunks) k' =
     (\<exists>k1. ws_recv ws sock BUFFER_SIZE k = (Inr bytes, k1) \<and> delivers ws sock k1 chunks k')"

text \<open>A chunk the client reads as a string: not empty, and with its end inside the buffer.\<close>

definition readable :: "string \<Rightarrow> bool" where
  "readable bytes \<longleftrightarrow> bytes \<noteq> [] \<and> (CHR 0x00 \<in> set bytes \<or> length bytes < BUFFER_SIZE)"

lemma RecvThread_run_chunks:
  assumes "delivers ws (cl_cliSock c) (cl_kern c) chunks k" "\<forall>b \<in> set chunks. readable b"
  shows "RecvThread_run ws qt n c = RecvThread_run ws qt (n + length chunks)
    (c\<lparr>cl_kern := k, cl_now_content := cl_now_content c @ concat (map (\<lambda>b. fromUtf8 qt (c_str b)) chunks)\<rparr>)"
  using assms
proof (induction chunks arbitrary: n c)
  case (Cons b bs)
  then obtain k1 where k1: "ws_recv ws (cl_cliSock c) BUFFER_SIZE (cl_kern c) = (Inr b, k1)"
    "delivers ws (cl_cliSock c) k1 bs k" by auto
  let ?c1 = "c\<lparr>cl_kern := k1, cl_now_content := cl_now_content c @ fromUtf8 qt (c_str b)\<rparr>"
  have "recv_turn ws qt c = Inr (True, True, ?c1)"
    using recv_turn_chunk [OF k1(1)] Cons.prems(2) by (simp add: readable_def buffer_text_def)
  then have "RecvThread_run ws qt n c = RecvThread_run ws qt (n + 1) ?c1"
    by (subst RecvThread_run.simps) simp
  with Cons.IH [of ?c1 "n + 1"] k1(2) Cons.prems(2) show ?case by simp
qed simp

text \<open>The peer has closed the connection: every further \<open>recv\<close> gives no bytes.\<close>

coinductive peer_closed :: "'k winsock \<Rightarrow> int \<Rightarrow> 'k \<Rightarrow> bool" where
  "ws_recv ws sock BUFFER_SIZE k = (Inr [], k') \<Longrightarrow> peer_closed ws sock k' \<Longrightarrow> peer_closed ws sock k"

lemma RecvThread_run_closed:
  assumes "peer_closed ws (cl_cliSock c) (cl_kern c)"
  shows "RecvThread_run ws qt n c = None"
proof (rule ccontr)
  assume "RecvThread_run ws qt n c \<noteq> None"
  then obtain r where "RecvThread_run ws qt n c = Some r" by blast
  then have "\<not> peer_closed ws (cl_cliSock c) (cl_kern c)"
  proof (rule RecvThread_run.raw_induct
      [where P = "\<lambda>ws qt n c r. \<not> peer_closed ws (cl_cliSock c) (cl_kern c)", rotated])
    fix loop and ws :: "'b winsock" and qt n and c :: "'b client" and r
    assume IH: "\<And>ws qt n (c :: 'b client) r. loop ws qt n c = Some r \<Longrightarrow> \<not> peer_closed ws (cl_cliSock c) (cl_kern c)"
      and run: "(case recv_turn ws qt c of Inl e \<Rightarrow> Some (Inl e)
        | Inr (goes_on, emits, c1) \<Rightarrow>
            let n1 = if emits then n + 1 else n in if goes_on then loop ws qt n1 c1 else Some (Inr (n1, c1))) = Some r"
    show "\<not> peer_closed ws (cl_cliSock c) (cl_kern c)"
    proof
      assume "peer_closed ws (cl_cliSock c) (cl_kern c)"
      then obtain k' where k': "ws_recv ws (cl_cliSock c) BUFFER_SIZE (cl_kern c) = (Inr [], k')"
        "peer_closed ws (cl_cliSock c) k'" by (auto elim: peer_closed.cases)
      with run have "loop ws qt n (c\<lparr>cl_kern := k'\<rparr>) = Some r" by (simp add: recv_turn_def)
      from IH [OF this] k'(2) show False by simp
    qed
  qed
  with assms show False by blast
qed

text \<open>C38. The receiving thread takes every chunk the server sends, in order, and asks for one flush per
  chunk. It ends when \<open>recv\<close> then fails; but when the server has closed the connection it turns for
  ever.\<close>

theorem recv_thread_end:
  assumes "delivers ws (cl_cliSock c) (cl_kern c) chunks k" "\<forall>b \<in> set chunks. readable b"
  shows
    "(\<forall>e k'. ws_recv ws (cl_cliSock c) BUFFER_SIZE k = (Inl e, k') \<longrightarrow>
       RecvThread_run ws qt n c = Some (Inr (n + length chunks, c\<lparr>cl_kern := k',
         cl_now_content := cl_now_content c @ concat (map (\<lambda>b. fromUtf8 qt (c_str b)) chunks)\<rparr>))) \<and>
     (peer_closed ws (cl_cliSock c) k \<longrightarrow> RecvThread_run ws qt n c = None)"
proof -
  let ?c1 = "c\<lparr>cl_kern := k, cl_now_content := cl_now_content c @ concat (map (\<lambda>b. fromUtf8 qt (c_str b)) chunks)\<rparr>"
  have "RecvThread_run ws qt n c = RecvThread_run ws qt (n + length chunks) ?c1"
    by (rule RecvThread_run_chunks [OF assms])
  moreover have "RecvThread_run ws qt m ?c1 = Some (Inr (m, ?c1\<lparr>cl_kern := k'\<rparr>))"
    if "ws_recv ws (cl_cliSock c) BUFFER_SIZE k = (Inl e, k')" for m e k'
    using that by (subst RecvThread_run.simps) (simp add: recv_turn_def)
  ultimately show ?thesis using RecvThread_run_closed [of ws ?c1] by simp
qed

theorem recv_thread_end_witness:
  "(\<exists>c'. RecvThread_run (count_ws (\<lambda>n. if n < 2 then Inr ''hi'' else Inl 10054)) demo_qt 0 count_client = Some (Inr (2, c'))) \<and>
   RecvThread_run (count_ws (\<lambda>n. if n < 2 then Inr ''hi'' else Inr [])) demo_qt 0 count_client = None"
proof -
  let ?ws1 = "count_ws (\<lambda>n. if n < 2 then Inr ''hi'' else Inl 10054)"
    and ?ws2 = "count_ws (\<lambda>n. if n < 2 then Inr ''hi'' else Inr [])"
  have start: "cl_kern count_client = 0" by (simp add: count_client_def)
  have got: "delivers ?ws1 (cl_cliSock count_client) (cl_kern count_client) [''hi'', ''hi''] 2"
    "delivers ?ws2 (cl_cliSock count_client) (cl_kern count_client) [''hi'', ''hi''] 2"
    by (simp_all add: count_ws_def start numeral_2_eq_2)
  have ok: "\<forall>b \<in> set [''hi'', ''hi'']. readable b" by (simp add: readable_def BUFFER_SIZE_def)
  have "peer_closed ?ws2 s k" if "2 \<le> k" for s k
    using that by (coinduction arbitrary: k) (simp add: count_ws_def)
  then show ?thesis
    using recv_thread_end [OF got(1) ok, of demo_qt 0] recv_thread_end [OF got(2) ok, of demo_qt 0]
    by (simp add: count_ws_def)
qed

end
