(* ===== verification/ClientStart.thy ===== *)
theory ClientStart
  imports ClientCorrect
begin

text \<open>
  \<open>main.cpp\<close>, the constructors of \<open>login.cpp\<close> and \<open>EasyChat.cpp\<close>, and the client as a whole: what its
  user and its receiving thread can do to the two windows, one event of the event loop at a time.
  The choice of a translation asks Qt for the name of a locale and for the files there are.
\<close>

subsection \<open>Start\<close>

definition translation_file :: "(qstring \<Rightarrow> qstring) \<Rightarrow> qstring \<Rightarrow> qstring" where
  "translation_file locale_name locale = latin '':/i18n/'' @ latin ''EChat_'' @ locale_name locale"

text \<open>The first language of the user for which a translation can be loaded.\<close>

fun install_translator :: "(qstring \<Rightarrow> qstring) \<Rightarrow> (qstring \<Rightarrow> bool) \<Rightarrow> qstring list \<Rightarrow> qstring option" where
  "install_translator locale_name load [] = None"
| "install_translator locale_name load (locale # uiLanguages) =
     (if load (translation_file locale_name locale) then Some (translation_file locale_name locale)
      else install_translator locale_name load uiLanguages)"

definition login_ctor :: login where
  "login_ctor =
     \<lparr>lo_IP_input = [], lo_name_input = [], lo_Port_input = [], lo_info = info_init,
      lo_hidden = False, lo_jumps = 0, lo_warnings = 0\<rparr>"

text \<open>The window, its globals, and the kernel the process starts in.\<close>

definition Widget :: "info \<Rightarrow> 'k \<Rightarrow> 'k client" where
  "Widget i k =
     \<lparr>cl_now_chat_user = [], cl_User_list = [], cl_UserList = [], cl_Top_show = [],
      cl_SendBox = [], cl_Messagebox = [], cl_shown = False, cl_closed = False,
      cl_can_send = False, cl_warnings = 0, cl_kern = k, cl_cliSock = 0, cl_info = i,
      cl_now_content = [], cl_Treated_Msg = [], cl_receiving = False\<rparr>"

text \<open>The \<open>info\<close> of both windows is the same static object; \<open>ap_flushes\<close> counts the signals \<open>flush\<close> in the
  event queue of the window's thread.\<close>

record 'k app =
  ap_translator :: "qstring option"
  ap_login :: login
  ap_window :: "'k client"
  ap_flushes :: nat

definition client_main ::
  "(qstring \<Rightarrow> qstring) \<Rightarrow> (qstring \<Rightarrow> bool) \<Rightarrow> qstring list \<Rightarrow> 'k \<Rightarrow> 'k app" where
  "client_main locale_name load uiLanguages k =
     \<lparr>ap_translator = install_translator locale_name load uiLanguages, ap_login = login_ctor,
      ap_window = Widget info_init k, ap_flushes = 0\<rparr>"

subsection \<open>Events\<close>

text \<open>The button of the login window; \<open>Jump_to_Chat\<close> is connected to \<open>reciveLogin\<close>, which runs inside \<open>emit\<close>.\<close>

definition StartButton_clicked ::
  "'k winsock \<Rightarrow> qt_lib \<Rightarrow> net_lib \<Rightarrow> (nat \<Rightarrow> char) \<Rightarrow> 'k app \<Rightarrow> 'k app res" where
  "StartButton_clicked ws qt net mem a =
     (let l = Login_Success (ap_login a); w = (ap_window a)\<lparr>cl_info := lo_info l\<rparr>
      in if lo_jumps (ap_login a) < lo_jumps l
         then bind_res (reciveLogin ws qt net mem w) (\<lambda>w'. Inr (a\<lparr>ap_login := l, ap_window := w'\<rparr>))
         else Inr (a\<lparr>ap_login := l, ap_window := w\<rparr>))"

text \<open>A window that is not shown gets no input, and the fields of the login window hold single lines.\<close>

inductive client_step ::
  "'k winsock \<Rightarrow> qt_lib \<Rightarrow> net_lib \<Rightarrow> (nat \<Rightarrow> char) \<Rightarrow> 'k app \<Rightarrow> 'k app \<Rightarrow> bool"
  for ws qt net mem where
  types_IP: "\<not> lo_hidden (ap_login a) \<Longrightarrow> 10 \<notin> set q \<Longrightarrow>
     client_step ws qt net mem a (a\<lparr>ap_login := (ap_login a)\<lparr>lo_IP_input := q\<rparr>\<rparr>)"
| types_name: "\<not> lo_hidden (ap_login a) \<Longrightarrow> 10 \<notin> set q \<Longrightarrow>
     client_step ws qt net mem a (a\<lparr>ap_login := (ap_login a)\<lparr>lo_name_input := q\<rparr>\<rparr>)"
| types_port: "\<not> lo_hidden (ap_login a) \<Longrightarrow> 10 \<notin> set q \<Longrightarrow>
     client_step ws qt net mem a (a\<lparr>ap_login := (ap_login a)\<lparr>lo_Port_input := q\<rparr>\<rparr>)"
| clicks_start: "\<not> lo_hidden (ap_login a) \<Longrightarrow> StartButton_clicked ws qt net mem a = Inr a' \<Longrightarrow>
     client_step ws qt net mem a a'"
| clicks_entry: "cl_shown (ap_window a) \<Longrightarrow> m \<in> set (cl_UserList (ap_window a)) \<Longrightarrow>
     client_step ws qt net mem a (a\<lparr>ap_window := MsgItem_Change m (ap_window a)\<rparr>)"
| types_message: "cl_shown (ap_window a) \<Longrightarrow>
     client_step ws qt net mem a (a\<lparr>ap_window := (ap_window a)\<lparr>cl_SendBox := q\<rparr>\<rparr>)"
| clicks_send: "cl_shown (ap_window a) \<Longrightarrow> cl_can_send (ap_window a) \<Longrightarrow>
     client_step ws qt net mem a (a\<lparr>ap_window := Send_Message ws qt mem (ap_window a)\<rparr>)"
| receives: "cl_receiving (ap_window a) \<Longrightarrow> recv_turn ws qt (ap_window a) = Inr (goes_on, emits, w) \<Longrightarrow>
     client_step ws qt net mem a
       (a\<lparr>ap_window := w\<lparr>cl_receiving := goes_on\<rparr>, ap_flushes := ap_flushes a + (if emits then 1 else 0)\<rparr>)"
| flushes: "0 < ap_flushes a \<Longrightarrow> Flush_Ui (ap_window a) = Inr w \<Longrightarrow>
     client_step ws qt net mem a (a\<lparr>ap_window := w, ap_flushes := ap_flushes a - 1\<rparr>)"

subsection \<open>What the handlers leave alone\<close>

definition same_session :: "'k client \<Rightarrow> 'k client \<Rightarrow> bool" where
  "same_session c c' \<longleftrightarrow>
     cl_info c' = cl_info c \<and> cl_shown c' = cl_shown c \<and> cl_closed c' = cl_closed c \<and>
     cl_can_send c' = cl_can_send c \<and> cl_receiving c' = cl_receiving c \<and> cl_cliSock c' = cl_cliSock c"

lemma message_session:
  "show_message sep intro c = Inr c' \<Longrightarrow> same_session c c'"
  "show_left c = Inr c' \<Longrightarrow> same_session c c'" "show_entered c = Inr c' \<Longrightarrow> same_session c c'"
  by (auto simp: show_message_def show_left_def show_entered_def Let_def bind_res_Inr same_session_def
      insert_text_def append_text_def)

lemma Flush_Ui_session: "Flush_Ui c = Inr c' \<Longrightarrow> same_session c c'"
  by (auto simp: Flush_Ui_def bind_res_Inr split: list.splits if_splits dest!: message_session)
     (simp_all add: same_session_def)

lemma recv_turn_session: "recv_turn ws qt c = Inr (goes_on, emits, c') \<Longrightarrow> same_session c c'"
  by (auto simp: recv_turn_def Let_def bind_res_Inr same_session_def split: prod.splits sum.splits if_splits)

lemma input_session:
  "same_session c (MsgItem_Change m c)" "same_session c (c\<lparr>cl_SendBox := q\<rparr>)"
  "same_session c (Send_Message ws qt mem c)"
  by (simp_all add: same_session_def MsgItem_Change_def toBox_def Send_Message_def send_text_def Let_def)

lemma show_login_session:
  assumes "\<not> cl_shown c" "\<not> cl_closed c" "\<not> cl_can_send c" "\<not> cl_receiving c"
  shows "cl_info (show_login ws str c) = cl_info c"
    "cl_can_send (show_login ws str c) = cl_shown (show_login ws str c)"
    "cl_receiving (show_login ws str c) = cl_shown (show_login ws str c)"
    "cl_closed (show_login ws str c) \<longleftrightarrow> \<not> cl_shown (show_login ws str c)"
  using assms by (simp_all add: show_login_def Let_def)

lemma reciveLogin_session:
  assumes run: "reciveLogin ws qt net mem c = Inr c'"
    and new: "\<not> cl_shown c" "\<not> cl_closed c" "\<not> cl_can_send c" "\<not> cl_receiving c"
  shows "cl_info c' = cl_info c" "cl_can_send c' = cl_shown c'" "cl_receiving c' = cl_shown c'"
    "cl_closed c' \<longleftrightarrow> \<not> cl_shown c'"
proof -
  obtain str sock k where "c' = show_login ws str (c\<lparr>cl_cliSock := sock, cl_kern := k\<rparr>)"
    using run by (auto simp: reciveLogin_def Let_def split_beta bind_res_Inr send_text_def)
  then show "cl_info c' = cl_info c" "cl_can_send c' = cl_shown c'" "cl_receiving c' = cl_shown c'"
    "cl_closed c' \<longleftrightarrow> \<not> cl_shown c'"
    using show_login_session [of "c\<lparr>cl_cliSock := sock, cl_kern := k\<rparr>" ws str] new by simp_all
qed

subsection \<open>A session\<close>

text \<open>What the login window lets through.\<close>

definition valid_info :: "info \<Rightarrow> bool" where
  "valid_info i \<longleftrightarrow>
     dotted_quad (info_IP i) \<and> 1 \<le> length (info_name i) \<and> length (info_name i) \<le> 4 \<and> port_text (info_Port i)"

definition session_ok :: "'k \<Rightarrow> 'k app \<Rightarrow> bool" where
  "session_ok k a \<longleftrightarrow>
     cl_info (ap_window a) = lo_info (ap_login a) \<and>
     10 \<notin> set (lo_IP_input (ap_login a)) \<and> 10 \<notin> set (lo_Port_input (ap_login a)) \<and>
     (if lo_hidden (ap_login a)
      then lo_jumps (ap_login a) = 1 \<and> valid_info (lo_info (ap_login a)) \<and>
           cl_can_send (ap_window a) = cl_shown (ap_window a) \<and>
           (cl_closed (ap_window a) \<longleftrightarrow> \<not> cl_shown (ap_window a)) \<and>
           (cl_receiving (ap_window a) \<or> 0 < ap_flushes a \<longrightarrow> cl_shown (ap_window a))
      else lo_jumps (ap_login a) = 0 \<and> lo_info (ap_login a) = info_init \<and>
           ap_window a = Widget info_init k \<and> ap_flushes a = 0)"

lemma session_keeps:
  assumes "session_ok k a" "same_session (ap_window a) w" "cl_shown (ap_window a)"
    "g \<longrightarrow> cl_shown (ap_window a)" "n \<le> Suc (ap_flushes a)"
  shows "session_ok k (a\<lparr>ap_window := w\<lparr>cl_receiving := g\<rparr>, ap_flushes := n\<rparr>)"
  using assms by (auto simp: session_ok_def same_session_def Widget_def split: if_splits)

lemma session_keeps':
  assumes "session_ok k a" "same_session (ap_window a) w" "cl_shown (ap_window a)"
  shows "session_ok k (a\<lparr>ap_window := w\<rparr>)"
  using assms by (auto simp: session_ok_def same_session_def Widget_def split: if_splits)

lemma session_types:
  assumes "session_ok k a" "\<not> lo_hidden (ap_login a)" "lo_info l = lo_info (ap_login a)" "lo_jumps l = lo_jumps (ap_login a)"
    "lo_hidden l = lo_hidden (ap_login a)" "10 \<notin> set (lo_IP_input l)" "10 \<notin> set (lo_Port_input l)"
  shows "session_ok k (a\<lparr>ap_login := l\<rparr>)"
  using assms by (simp add: session_ok_def Widget_def)

lemma session_start:
  assumes ok: "session_ok k a" and first: "\<not> lo_hidden (ap_login a)"
    and run: "StartButton_clicked ws qt net mem a = Inr a'"
  shows "session_ok k a'"
proof -
  have window: "ap_window a = Widget info_init k" and info: "lo_info (ap_login a) = info_init"
    and jumps: "lo_jumps (ap_login a) = 0" and idle: "ap_flushes a = 0"
    and lines: "10 \<notin> set (lo_IP_input (ap_login a))" "10 \<notin> set (lo_Port_input (ap_login a))"
    using ok first by (simp_all add: session_ok_def)
  note test = login_test [OF lines, of "lo_name_input (ap_login a)"]
  show ?thesis
  proof (cases "anchored ipRegex (lo_IP_input (ap_login a)) \<and> anchored portRegex (lo_Port_input (ap_login a)) \<and>
      lo_name_input (ap_login a) \<noteq> [] \<and> length (lo_name_input (ap_login a)) \<le> 4")
    case False
    then have "Login_Success (ap_login a) = (ap_login a)\<lparr>lo_warnings := lo_warnings (ap_login a) + 1\<rparr>"
      by (simp only: Login_Success_def Let_def if_False)
    with run have "a' = a\<lparr>ap_login := (ap_login a)\<lparr>lo_warnings := lo_warnings (ap_login a) + 1\<rparr>,
        ap_window := (ap_window a)\<lparr>cl_info := lo_info (ap_login a)\<rparr>\<rparr>"
      by (simp add: StartButton_clicked_def Let_def)
    then show ?thesis using first lines by (simp add: session_ok_def window info jumps idle Widget_def)
  next
    case True
    let ?i = "\<lparr>info_name = lo_name_input (ap_login a), info_IP = lo_IP_input (ap_login a),
               info_Port = lo_Port_input (ap_login a)\<rparr>"
    have l: "Login_Success (ap_login a) = (ap_login a)\<lparr>lo_info := ?i, lo_hidden := True, lo_jumps := 1\<rparr>"
      using True by (simp only: Login_Success_def Let_def if_True jumps) simp
    obtain w where w: "reciveLogin ws qt net mem ((ap_window a)\<lparr>cl_info := ?i\<rparr>) = Inr w"
      "a' = a\<lparr>ap_login := (ap_login a)\<lparr>lo_info := ?i, lo_hidden := True, lo_jumps := 1\<rparr>, ap_window := w\<rparr>"
      using run by (auto simp: StartButton_clicked_def l Let_def jumps bind_res_Inr)
    have "valid_info ?i" using test True by (simp add: valid_info_def)
    with lines show ?thesis
      using reciveLogin_session [OF w(1)] by (simp add: session_ok_def w(2) window idle Widget_def)
  qed
qed

text \<open>C20. Whatever its user types and clicks and whatever the server sends: the client connects at most
  once, and not before the login window has found an address of four octets, a name of one to four
  code units and a port it takes for one; until then the chat window and the network have not been
  touched. From then on these three texts do not change, and the chat window is either open, able
  to send, or closed for good with nothing received or waiting for it.\<close>

theorem client_session:
  assumes "reach (\<lambda>a. a = client_main locale_name load langs k) (client_step ws qt net mem) a"
  shows "session_ok k a"
  using assms
proof (rule reach_invariant)
  fix a0 assume "a0 = client_main locale_name load langs k"
  then show "session_ok k a0"
    by (simp add: session_ok_def client_main_def login_ctor_def Widget_def info_init_def)
next
  fix a a' assume "client_step ws qt net mem a a'" and ok: "session_ok k a"
  then show "session_ok k a'"
  proof (cases rule: client_step.cases)
    case (types_IP q)
    show ?thesis unfolding types_IP(1) by (rule session_types) (use types_IP ok in \<open>auto simp: session_ok_def\<close>)
  next
    case (types_name q)
    show ?thesis unfolding types_name(1) by (rule session_types) (use types_name ok in \<open>auto simp: session_ok_def\<close>)
  next
    case (types_port q)
    show ?thesis unfolding types_port(1) by (rule session_types) (use types_port ok in \<open>auto simp: session_ok_def\<close>)
  next
    case clicks_start
    show ?thesis by (rule session_start [OF ok clicks_start])
  next
    case (receives goes_on emits w)
    then have "cl_shown (ap_window a)" using ok by (auto simp: session_ok_def Widget_def split: if_splits)
    with session_keeps [OF ok recv_turn_session [OF receives(3)] this] show ?thesis
      unfolding receives(1) by simp
  next
    case (flushes w)
    then have "cl_shown (ap_window a)" using ok by (auto simp: session_ok_def split: if_splits)
    with session_keeps [OF ok Flush_Ui_session [OF flushes(3)] this, of "cl_receiving w" "ap_flushes a - 1"]
    show ?thesis unfolding flushes(1) by simp
  qed (use ok in \<open>simp_all add: session_keeps' input_session\<close>)
qed

text \<open>What a user has typed before the first click.\<close>

abbreviation typed :: "qstring \<Rightarrow> qstring \<Rightarrow> qstring \<Rightarrow> 'k app \<Rightarrow> 'k app" where
  "typed ip name port a \<equiv> a\<lparr>ap_login := login_ctor\<lparr>lo_IP_input := ip, lo_name_input := name, lo_Port_input := port\<rparr>\<rparr>"

lemma typed_reach:
  fixes a :: "'k app"
  assumes "ap_login a = login_ctor" "10 \<notin> set ip" "10 \<notin> set name" "10 \<notin> set port"
  shows "reach (\<lambda>x. x = a) (client_step ws qt net mem) (typed ip name port a)"
proof -
  define b where "b = a\<lparr>ap_login := (ap_login a)\<lparr>lo_IP_input := ip\<rparr>\<rparr>"
  define c where "c = b\<lparr>ap_login := (ap_login b)\<lparr>lo_name_input := name\<rparr>\<rparr>"
  have shown: "\<not> lo_hidden (ap_login a)" "\<not> lo_hidden (ap_login b)" "\<not> lo_hidden (ap_login c)"
    by (simp_all add: b_def c_def assms(1) login_ctor_def)
  have "c\<lparr>ap_login := (ap_login c)\<lparr>lo_Port_input := port\<rparr>\<rparr> = typed ip name port a"
    by (simp add: b_def c_def assms(1))
  then have third: "client_step ws qt net mem c (typed ip name port a)"
    using types_port [OF shown(3) assms(4)] by metis
  have "reach (\<lambda>x. x = a) (client_step ws qt net mem) a" by (rule reach_init) simp
  moreover have "client_step ws qt net mem a b" unfolding b_def by (rule types_IP [OF shown(1) assms(2)])
  ultimately have "reach (\<lambda>x. x = a) (client_step ws qt net mem) b" by (rule reach_step)
  moreover have "client_step ws qt net mem b c" unfolding c_def by (rule types_name [OF shown(2) assms(3)])
  ultimately have "reach (\<lambda>x. x = a) (client_step ws qt net mem) c" by (rule reach_step)
  from this third show ?thesis by (rule reach_step)
qed

text \<open>Ann types the address, her name and the port and starts: nobody else is in the room.\<close>

abbreviation demo_start :: "unit app" where
  "demo_start \<equiv> client_main (\<lambda>q. q) (\<lambda>q. False) [] ()"

definition demo_typed :: "unit app" where
  "demo_typed = typed (latin ''127.0.0.1'') (latin ''ann'') (latin ''12345'') demo_start"

lemma demo_typed_reach: "reach (\<lambda>a. a = demo_start) (client_step ws qt net mem) demo_typed"
  unfolding demo_typed_def by (rule typed_reach) (simp_all add: client_main_def)

definition demo_net :: net_lib where
  "demo_net = \<lparr>inet_addr = (\<lambda>ip. 0), inet_ntop = (\<lambda>a. []), htons = (\<lambda>p. p), ntohs = (\<lambda>p. p)\<rparr>"

lemma demo_login_passes:
  "Login_Success (ap_login demo_typed) = (ap_login demo_typed)
     \<lparr>lo_info := \<lparr>info_name = latin ''ann'', info_IP = latin ''127.0.0.1'', info_Port = latin ''12345''\<rparr>,
      lo_hidden := True, lo_jumps := 1\<rparr>"
proof -
  have texts: "lo_IP_input (ap_login demo_typed) = latin ''127.0.0.1''" "lo_name_input (ap_login demo_typed) = latin ''ann''"
    "lo_Port_input (ap_login demo_typed) = latin ''12345''" "lo_jumps (ap_login demo_typed) = 0"
    by (simp_all only: demo_typed_def) (simp_all add: login_ctor_def del: latin_simps)
  have lines: "10 \<notin> set (latin ''127.0.0.1'')" "10 \<notin> set (latin ''12345'')" by simp_all
  have "length (latin ''ann'') = 3" by simp
  then show ?thesis
    using login_test [OF lines, of "latin ''ann''"] demo_texts(1,2)
    unfolding Login_Success_def Let_def texts by (simp del: latin_simps)
qed

theorem client_session_witness:
  "\<exists>a. StartButton_clicked demo_ws demo_qt demo_net (\<lambda>_. CHR ''x'') demo_typed = Inr a \<and>
     cl_shown (ap_window a) \<and> session_ok () a"
proof -
  have start: "lo_jumps (ap_login demo_typed) = 0" "\<not> lo_hidden (ap_login demo_typed)" "ap_window demo_typed = Widget info_init ()"
    by (simp_all add: demo_typed_def login_ctor_def client_main_def del: latin_simps)
  obtain a where run: "StartButton_clicked demo_ws demo_qt demo_net (\<lambda>_. CHR ''x'') demo_typed = Inr a"
    and shown: "cl_shown (ap_window a)"
    unfolding StartButton_clicked_def demo_login_passes
    by (simp add: reciveLogin_def demo_ws_def send_text_def buffer_text_def BUFFER_SIZE_def show_login_def Let_def
        start Widget_def c_str_def del: latin_simps)
  have "client_step demo_ws demo_qt demo_net (\<lambda>_. CHR ''x'') demo_typed a"
    by (rule clicks_start [OF start(2) run])
  then have "session_ok () a" by (rule client_session [OF reach_step [OF demo_typed_reach]])
  with run shown show ?thesis by blast
qed

end
