(* ===== verification/Spec2Isabelle.thy ===== *)
theory Spec2Isabelle
  imports World BufferCorrect PollerCorrect LoopCorrect LoopThreads ConnCorrect ChatCorrect LoginThreads
    HandOver ServerCorrect Teardown Lifetimes Lifecycle ServerLoop ServerStart ClientStart
begin

text \<open>
  A chat room in C++: a server (\<open>server/\<close>) on a small reactor library in the manner of muduo, and a
  Qt client (the files beside it). This development models both, one theory per component in the
  order in which the code builds on itself, and proves what makes each of them, and their
  composition, correct; where the code falls short, a theorem says exactly when.

  \<^bold>\<open>The program.\<close> A \<open>TcpServer\<close> listens through an \<open>Acceptor\<close> in the main event loop. Each accepted
  descriptor becomes a \<open>TcpConnection\<close>, handed to one of the I/O loops of an \<open>EventLoopThreadPool\<close> in
  turn. An \<open>EventLoop\<close> polls an \<open>EpollPoller\<close>, lets the active \<open>Channel\<close>s call their callbacks, and runs
  the functors other threads have queued; an eventfd wakes it. A connection reads into one \<open>Buffer\<close> and
  sends through another. \<open>ChatRoomServer\<close> keeps two maps between names and connections: the first
  message of a connection is its login, later ones begin with byte 20 (private) or 21 (group); it
  announces exits with byte 22 and logins with 23. The client checks a login, connects, and shows a
  list of users and the messages; a second thread receives.

  \<^bold>\<open>Conventions.\<close> A fault of the program (a failed \<open>exit\<close>, a read or write outside an allocation, a null
  dereference, an exception) is a value of type \<open>fault\<close>, and an operation that may fault gives
  \<open>fault + 'a\<close> (theory \<open>Prelude\<close>). The objects live in stores indexed by identities (theory
  \<open>Callbacks\<close>), in records that extend each other: \<open>pstate\<close> (channels, pollers), \<open>lstate\<close> (loops),
  \<open>cstate\<close> (connections), \<open>sstate\<close> (server, pool), \<open>world\<close> (chat room). A \<open>std::function\<close> is a value
  of a datatype with one constructor per \<open>std::bind\<close> expression or lambda of the sources, and \<open>World\<close>
  gives each its meaning, so that the callbacks run the code the program binds.

  \<^bold>\<open>Parameters.\<close> What is not code of the repository is a parameter: the system calls (record \<open>os\<close>), the
  address conversions (\<open>net_lib\<close>), \<open>localtime\<close>, winsock (\<open>winsock\<close>), Qt's text conversions (\<open>qt_lib\<close>).
  What the proofs need of them are named laws stating documented behaviour: \<open>kernel_laws\<close> (a write
  accepts a prefix, \<open>epoll_ctl\<close> keeps an interest list, the other calls leave these alone) and
  \<open>utf8_law\<close>; for the server as a whole also \<open>accept_law\<close>, \<open>wait_law\<close> (\<open>epoll_wait\<close> reports what is registered,
  once) and \<open>open_law\<close> (new descriptors are not in use). \<open>demo_laws\<close> in \<open>DemoKernel\<close>, \<open>demo_accept_law\<close>,
  \<open>demo_wait_law\<close>, \<open>demo_open_law\<close> and \<open>demo_utf8_law\<close> in \<open>QtText\<close> show concrete functions that obey them, and the
  witnesses run on these. What is asked of the clients and of the kernel's choices, event by event, is
  in \<open>possible\<close> and \<open>greeted\<close>: an accepted descriptor is not in use, a client's first message is not the empty name, a
  hangup is not reported with urgent data alone.

  \<^bold>\<open>The server's theories.\<close>
  \<^item> \<open>MBuffer\<close>: \<open>include/m_buffer.h\<close>, \<open>src/m_buffer.cpp\<close>. The vector with its two indices; \<open>BufferCorrect\<close>
    shows it to be a byte queue (interface \<open>ByteQueue\<close>), and the lengths at which it overruns.
  \<^item> \<open>Channel\<close>, \<open>Poller\<close>: \<open>channel.*\<close>, \<open>poller.*\<close>, \<open>epollpoller.*\<close>, \<open>defualt_pooler.cpp\<close>. Interest,
    dispatch and registration; \<open>PollerCorrect\<close> refines any history of channel operations to the
    state machine of each channel alone (interface \<open>Registry\<close>), with no call of \<open>epoll_ctl\<close> refused: a
    refusal is only logged by the code, so the theorem lets the kernel count its refusals (\<open>counts_failures\<close>).
  \<^item> \<open>EventLoop\<close>: \<open>event_loop.*\<close>. Every method in one thread; \<open>Loop\<close> is a \<open>partial_function\<close>, so that not
    returning is \<open>None\<close>. \<open>LoopCorrect\<close> treats the constructor and the batches of functors; \<open>LoopThreads\<close> is the step relation of a
    loop and any number of other threads: no lost wakeup, functors in order, quits noticed.
  \<^item> \<open>Threads\<close>, \<open>HandOver\<close>, \<open>ThreadPool\<close>: \<open>m_thread.*\<close>, \<open>current_thread.*\<close>, \<open>timestamp.*\<close>, \<open>logger.*\<close>,
    \<open>event_loop_thread.*\<close>, \<open>event_loop_thread_pool.*\<close>. \<open>HandOver\<close> interleaves \<open>StartLoop\<close>, \<open>ThreadFunc\<close> and
    the destructor, with the semaphore, the mutex and the condition variable.
  \<^item> \<open>Socket\<close>: \<open>m_socket.*\<close>, \<open>address.*\<close>.
  \<^item> \<open>TcpConnection\<close>: \<open>tcp_connection.*\<close>. \<open>ConnStream\<close> and \<open>ConnCorrect\<close> treat the sending side as a stream:
    what the socket took and what is queued; reading, closing, shutting down.
  \<^item> \<open>TcpServer\<close>: \<open>acceptor.*\<close>, \<open>tcp_server.*\<close>. \<open>ServerCorrect\<close> refines the table of connections to a set
    with a counter over any history of accepts and removals, with round-robin over the loops.
  \<^item> \<open>ChatRoom\<close>: \<open>example/server.cpp\<close>. \<open>Mail\<close> follows a message of any thread to any connection
    (\<open>posted\<close>: into its stream, or into the queue of its loop; nowhere when the connection is not connected or the
    peer has gone, \<open>lost\<close>) and names the lengths at which its output buffer overruns (\<open>chokes\<close>,
    \<open>overflows\<close>). No law says that a write succeeds: \<open>EPIPE\<close> and \<open>ECONNRESET\<close> may come at any time.
    \<open>ChatCorrect\<close> says who receives what, and that the two maps stay inverse to each other (interface
    \<open>Table\<close>); \<open>LoginThreads\<close> interleaves the accesses to the maps of logins and exits in several threads.
  \<^item> \<open>World\<close>: the whole server, \<open>main\<close> included. \<open>Lifecycle\<close> takes a connection from \<open>accept\<close> through the
    two loops into service, and the messages queued for it to its socket; \<open>Teardown\<close> follows a closed
    connection out of the room, the server's table, the poller and the kernel.
  \<^item> \<open>Traffic\<close>, \<open>ServerInv\<close>, \<open>ServerSteps\<close>, \<open>ServerTasks\<close>, \<open>ServerAccept\<close>, \<open>ServerRuns\<close>: one invariant of the
    whole server, \<open>server_ok\<close>. It puts every connection ever accepted into one stage of its life
    (\<open>stage\<close>), with the functors that wait for it, and ties the table, the two maps, the pollers and the
    kernel's interest lists to the stages. \<open>Traffic\<close> and \<open>ServerInv\<close> give the two frames, \<open>calm\<close> (no connection
    changes its stage) and \<open>around\<close> (one does), in which the next two prove that each callback and each functor
    preserves it; \<open>ServerAccept\<close> adds new connections; \<open>ServerRuns\<close> interleaves the callbacks and functors of all
    loops.
  \<^item> \<open>ServerLoop\<close>: the invariant over whole iterations of the loops, \<open>epoll_wait\<close>, dispatch and \<open>DoPendingFunctors\<close>
    included. \<open>ServerStart\<close>: \<open>main\<close> establishes it, down to the constructors and the \<open>listen\<close>.
  \<^item> \<open>Lifetimes\<close>: who holds references to one connection and who uses it without, in the interleavings
    of its I/O loop, the server's loop and the threads that send to it: broadcasts are safe, private
    messages are not.

  \<^bold>\<open>The client's theories.\<close>
  \<^item> \<open>QtText\<close>, \<open>Regex\<close>: strings of UTF-16 units, and matching by derivatives for the patterns used.
  \<^item> \<open>ClientLogin\<close>: \<open>login.*\<close>, \<open>info.*\<close>. What the login window accepts, in numbers.
  \<^item> \<open>ClientChat\<close>: \<open>EasyChat.*\<close>, \<open>msgitem.*\<close>. \<open>ClientCorrect\<close> joins client and server: logins and
    messages make the round trip from one client through the server's \<open>ReadCb\<close> to another, the list of users follows the announcements, and the two threads
    of the client race.
  \<^item> \<open>ClientStart\<close>: \<open>main.cpp\<close>. The two windows together, one event at a time, over a whole session.

  \<^bold>\<open>Interfaces.\<close> The locales \<open>byte_queue\<close>, \<open>registry\<close>, \<open>task_queue\<close> and the tables prove their clients' laws
  from the interface alone; each is interpreted on the code's own model (\<open>bq\<close>, \<open>reg\<close> and \<open>reg_counted\<close>, \<open>tq\<close>, \<open>names\<close>).

  \<^bold>\<open>Bounds.\<close> No definition takes fuel: loops of the code are structural recursions, a \<open>function\<close> with its
  measure (\<open>scan_dest\<close>), or \<open>partial_function\<close>s (\<open>while_not\<close>, \<open>RecvThread_run\<close>). The machines with several
  threads are inductive step relations, their reachable states \<open>reach\<close> of \<open>Prelude\<close> or a relation of their own. Words are kept where their
  width matters: event masks, addresses, ports, UTF-16 units. The counters the code keeps in an
  \<open>int\<close> (the next connection's number, the index of the next loop) are natural numbers: the
  statements hold for fewer than \<open>2 ^ 31\<close> connections. The name of a connection keeps 63 characters of address and
  number, and the theorems on the table assume that they fit.

  \<^bold>\<open>Not modelled.\<close> Log output at its call sites (the logger itself is in \<open>Threads\<close>, and a fatal log line is
  the fault it causes); \<open>noncopyable.h\<close> and the empty class of \<open>recvthread.*\<close>; widgets, fonts and sizes, and the closing of
  a window by the user, which Qt handles without code of the program; getters that are a field of a record here; the init callback of \<open>TcpServer\<close>, which is an argument of \<open>Server_Start\<close>.
  In the sequential model of \<open>World\<close> a tied channel whose connection is gone runs no callback, and a raw \<open>this\<close>
  bound by \<open>Send\<close> is taken to be alive; whether it is, is the subject of \<open>Lifetimes\<close>. A handler is one step of
  the server except in the machines of \<open>LoopThreads\<close>, \<open>HandOver\<close>, \<open>LoginThreads\<close> and \<open>Lifetimes\<close>. The
  maps are association lists: theorems do not depend on the order of an \<open>unordered_map\<close> beyond the order of
  a broadcast's recipients.

  What is left out because the sources do not determine it: which iterations the operating system lets
  overlap inside one handler beyond the machines named, the memory of the two maps accessed without
  the lock (their races are findings, not states of a model), and the closing of the descriptors of connections that
  are gone, which their destructor does (\<open>TcpConnection_dtor\<close>) whenever the last reference goes.
\<close>

end
